(* ===== verification/Prelude.thy ===== *)
theory Prelude
  imports "HOL-Library.Word" "HOL-Library.AList"
begin

text \<open>
  Shared vocabulary of the development: the exceptions the chain code throws as values of one
  datatype, results as a sum type with the combinators the translated functions are written in
  (\<open>bindE\<close> for \<open>;\<close>, \<open>fc_assert\<close> for \<^verbatim>\<open>FC_ASSERT\<close>, \<open>foldE\<close> for a loop whose body may
  throw), the checked 64-bit amounts of \<^verbatim>\<open>fc::safe<int64_t>\<close> as a parameter, and the lemmas on
  lists, association lists and options that the components share.
\<close>

section \<open>Exceptions and results\<close>

text \<open>
  \<^verbatim>\<open>FC_ASSERT\<close> throws \<^verbatim>\<open>fc::assert_exception\<close> with a message; \<^verbatim>\<open>GRAPHENE_ASSERT\<close> throws the
  exception class it names; \<^verbatim>\<open>fc::safe\<close> throws when a result does not fit. \<open>Undefined_Behaviour\<close>
  stands for what C++ leaves undefined (the back of an empty deque, a null dereference).
\<close>

datatype chain_error =
    Assert_Exception string
  | Overflow_Exception
  | Unlinkable_Block_Exception
  | Tx_Missing_Owner_Auth
  | Tx_Missing_Active_Auth
  | Tx_Missing_Secondary_Auth
  | Tx_Missing_Other_Auth
  | Tx_Irrelevant_Sig
  | Tx_Duplicate_Sig
  | Invalid_Committee_Approval
  | Insufficient_Fee
  | Transfer_Restricted_Transfer_Asset
  | Override_Transfer_Not_Permitted
  | Undefined_Behaviour string

type_synonym 'a result = "chain_error + 'a"

definition bindE :: "'a result \<Rightarrow> ('a \<Rightarrow> 'b result) \<Rightarrow> 'b result" where
  "bindE m f = (case m of Inl e \<Rightarrow> Inl e | Inr x \<Rightarrow> f x)"

definition fc_assert :: "bool \<Rightarrow> string \<Rightarrow> 'a result \<Rightarrow> 'a result" where
  "fc_assert b msg k = (if b then k else Inl (Assert_Exception msg))"

definition graphene_assert :: "bool \<Rightarrow> chain_error \<Rightarrow> 'a result \<Rightarrow> 'a result" where
  "graphene_assert b e k = (if b then k else Inl e)"

definition option_or :: "chain_error \<Rightarrow> 'a option \<Rightarrow> 'a result" where
  "option_or e x = (case x of None \<Rightarrow> Inl e | Some v \<Rightarrow> Inr v)"

fun foldE :: "('a \<Rightarrow> 's \<Rightarrow> 's result) \<Rightarrow> 'a list \<Rightarrow> 's \<Rightarrow> 's result" where
  "foldE f [] s = Inr s"
| "foldE f (x # xs) s = bindE (f x s) (foldE f xs)"

named_theorems result_simps \<open>inversion of the result combinators\<close>

lemma bindE_Inr [simp]: "bindE (Inr x) f = f x"
  by (simp add: bindE_def)

lemma bindE_Inl [simp]: "bindE (Inl e) f = Inl e"
  by (simp add: bindE_def)

lemma bindE_eq_Inr [result_simps]: "bindE m f = Inr y \<longleftrightarrow> (\<exists>x. m = Inr x \<and> f x = Inr y)"
  by (cases m) simp_all

lemma bindE_eq_Inl [result_simps]:
  "bindE m f = Inl e \<longleftrightarrow> m = Inl e \<or> (\<exists>x. m = Inr x \<and> f x = Inl e)"
  by (cases m) auto

lemma bindE_assoc: "bindE (bindE m f) g = bindE m (\<lambda>x. bindE (f x) g)"
  by (cases m) simp_all

lemma bindE_Inr_right [simp]: "bindE m Inr = m"
  by (cases m) simp_all

lemma fc_assert_True [simp]: "fc_assert True msg k = k"
  by (simp add: fc_assert_def)

lemma fc_assert_False [simp]: "fc_assert False msg k = Inl (Assert_Exception msg)"
  by (simp add: fc_assert_def)

lemma fc_assert_eq_Inr [result_simps]: "fc_assert b msg k = Inr y \<longleftrightarrow> b \<and> k = Inr y"
  by (simp add: fc_assert_def)

lemma fc_assert_eq_Inl [result_simps]:
  "fc_assert b msg k = Inl e \<longleftrightarrow> (\<not> b \<and> e = Assert_Exception msg) \<or> (b \<and> k = Inl e)"
  by (auto simp: fc_assert_def)

lemma graphene_assert_True [simp]: "graphene_assert True e k = k"
  by (simp add: graphene_assert_def)

lemma graphene_assert_False [simp]: "graphene_assert False e k = Inl e"
  by (simp add: graphene_assert_def)

lemma graphene_assert_eq_Inr [result_simps]: "graphene_assert b e k = Inr y \<longleftrightarrow> b \<and> k = Inr y"
  by (simp add: graphene_assert_def)

lemma option_or_simps [simp]:
  "option_or e None = Inl e"
  "option_or e (Some v) = Inr v"
  by (simp_all add: option_or_def)

lemma option_or_eq_Inr [result_simps]: "option_or e x = Inr v \<longleftrightarrow> x = Some v"
  by (cases x) simp_all

lemma option_or_eq_Inl [result_simps]: "option_or e x = Inl f \<longleftrightarrow> x = None \<and> f = e"
  by (cases x) auto

lemma foldE_append: "foldE f (xs @ ys) s = bindE (foldE f xs s) (foldE f ys)"
proof (induction xs arbitrary: s)
  case (Cons x xs)
  then show ?case by (cases "f x s") simp_all
qed simp

text \<open>A loop invariant: what the body keeps, the loop keeps.\<close>

lemma foldE_invariant:
  assumes "foldE f xs s = Inr t" and "P s"
    and "\<And>x s t. x \<in> set xs \<Longrightarrow> P s \<Longrightarrow> f x s = Inr t \<Longrightarrow> P t"
  shows "P t"
  using assms
proof (induction xs arbitrary: s)
  case Nil
  then show ?case by simp
next
  case (Cons x xs)
  from Cons.prems(1) obtain u where u: "f x s = Inr u" and rest: "foldE f xs u = Inr t"
    by (auto simp: result_simps)
  from Cons.prems(3) [OF _ Cons.prems(2) u] have "P u" by simp
  from rest this show ?case
    by (rule Cons.IH) (rule Cons.prems(3), simp_all)
qed

section \<open>Checked amounts\<close>

text \<open>
  \<^verbatim>\<open>share_type\<close> is \<^verbatim>\<open>fc::safe<int64_t>\<close>, from the fc library: a 64-bit amount whose arithmetic throws
  instead of wrapping. The three operations are a parameter of every definition that computes with
  amounts; \<open>safe_spec\<close> is the documented behaviour (the exact sum when it fits in an
  \<^verbatim>\<open>int64_t\<close>, an exception otherwise), and \<open>int64_safe\<close> is an instance of it.
\<close>

record safe_ops =
  safe_plus :: "int \<Rightarrow> int \<Rightarrow> int option"
  safe_minus :: "int \<Rightarrow> int \<Rightarrow> int option"
  safe_uminus :: "int \<Rightarrow> int option"

definition int64_min :: int where
  "int64_min = - (2 ^ 63)"

definition int64_max :: int where
  "int64_max = 2 ^ 63 - 1"

definition fits64 :: "int \<Rightarrow> bool" where
  "fits64 x \<longleftrightarrow> int64_min \<le> x \<and> x \<le> int64_max"

definition checked64 :: "int \<Rightarrow> int option" where
  "checked64 x = (if fits64 x then Some x else None)"

definition safe_spec :: "safe_ops \<Rightarrow> bool" where
  "safe_spec fc \<longleftrightarrow>
     (\<forall>a b. fits64 a \<longrightarrow> fits64 b \<longrightarrow> safe_plus fc a b = checked64 (a + b)) \<and>
     (\<forall>a b. fits64 a \<longrightarrow> fits64 b \<longrightarrow> safe_minus fc a b = checked64 (a - b)) \<and>
     (\<forall>a. fits64 a \<longrightarrow> safe_uminus fc a = checked64 (- a))"

definition int64_safe :: safe_ops where
  "int64_safe = \<lparr>safe_plus = (\<lambda>a b. checked64 (a + b)),
     safe_minus = (\<lambda>a b. checked64 (a - b)), safe_uminus = (\<lambda>a. checked64 (- a))\<rparr>"

definition sadd :: "safe_ops \<Rightarrow> int \<Rightarrow> int \<Rightarrow> int result" where
  "sadd fc a b = option_or Overflow_Exception (safe_plus fc a b)"

definition ssub :: "safe_ops \<Rightarrow> int \<Rightarrow> int \<Rightarrow> int result" where
  "ssub fc a b = option_or Overflow_Exception (safe_minus fc a b)"

definition sneg :: "safe_ops \<Rightarrow> int \<Rightarrow> int result" where
  "sneg fc a = option_or Overflow_Exception (safe_uminus fc a)"

lemma int64_safe_spec [simp]: "safe_spec int64_safe"
  by (simp add: safe_spec_def int64_safe_def)

lemma checked64_eq_Some [simp]: "checked64 x = Some y \<longleftrightarrow> y = x \<and> fits64 x"
  by (auto simp: checked64_def)

lemma fits64_0 [simp]: "fits64 0"
  by (simp add: fits64_def int64_min_def int64_max_def)

lemma fits64_between: "fits64 a \<Longrightarrow> fits64 b \<Longrightarrow> a \<le> x \<Longrightarrow> x \<le> b \<Longrightarrow> fits64 x"
  by (simp add: fits64_def)

lemma sadd_eq_Inr [result_simps]:
  "safe_spec fc \<Longrightarrow> fits64 a \<Longrightarrow> fits64 b \<Longrightarrow> sadd fc a b = Inr c \<longleftrightarrow> c = a + b \<and> fits64 (a + b)"
  by (simp add: sadd_def safe_spec_def option_or_eq_Inr)

lemma ssub_eq_Inr [result_simps]:
  "safe_spec fc \<Longrightarrow> fits64 a \<Longrightarrow> fits64 b \<Longrightarrow> ssub fc a b = Inr c \<longleftrightarrow> c = a - b \<and> fits64 (a - b)"
  by (simp add: ssub_def safe_spec_def option_or_eq_Inr)

lemma sneg_eq_Inr [result_simps]:
  "safe_spec fc \<Longrightarrow> fits64 a \<Longrightarrow> sneg fc a = Inr c \<longleftrightarrow> c = - a \<and> fits64 (- a)"
  by (simp add: sneg_def safe_spec_def option_or_eq_Inr)

section \<open>Association lists and lists\<close>

text \<open>
  An \<^verbatim>\<open>unordered_map\<close> is an association list with distinct keys; the order of the list is the
  container's iteration order, which the standard leaves open.
\<close>

lemma map_of_AList_update [simp]: "map_of (AList.update k v xs) = (map_of xs)(k \<mapsto> v)"
  by (simp add: update_conv')

lemma map_of_AList_delete [simp]: "map_of (AList.delete k xs) = (map_of xs)(k := None)"
  by (rule ext) (simp add: delete_conv')

declare map_of_eq_Some_iff [simp del] Some_eq_map_of_iff [simp del]

lemma map_of_eq_None_fst: "k \<notin> fst ` set xs \<Longrightarrow> map_of xs k = None"
  by (simp add: map_of_eq_None_iff)

end
