(* ===== verification/Object_Id.thy ===== *)
theory Object_Id
  imports Prelude
begin

text \<open>
  Object identifiers (\<^verbatim>\<open>libraries/db/include/graphene/db/object_id.hpp\<close>): a 64-bit number that packs
  an 8-bit space, an 8-bit type and a 48-bit instance, and its text form \<^verbatim>\<open>space.type.instance\<close>.
  The theorems: packing and unpacking are inverse, the order on numbers is the lexicographic order of
  the three fields, incrementing stays within an index until the instance space is used up, and
  reading the text form of an identifier gives the identifier back.
\<close>

unbundle bit_operations_syntax

section \<open>Packing\<close>

record object_id_type =
  number :: "64 word"

type_synonym index_key = "8 word \<times> 8 word"

definition max_instance_id :: "64 word" where
  "max_instance_id = drop_bit 16 (- 1)"

definition make_object_id :: "8 word \<Rightarrow> 8 word \<Rightarrow> 64 word \<Rightarrow> object_id_type result" where
  "make_object_id s t i =
     fc_assert (drop_bit 48 i = 0) ''instance overflow''
       (Inr \<lparr>number = push_bit 56 (ucast s) OR push_bit 48 (ucast t) OR i\<rparr>)"

definition space :: "object_id_type \<Rightarrow> 8 word" where
  "space a = ucast (drop_bit 56 (number a))"

definition type_of_id :: "object_id_type \<Rightarrow> 8 word" where
  "type_of_id a = ucast (drop_bit 48 (number a) AND 0x00ff)"

definition space_type :: "object_id_type \<Rightarrow> 16 word" where
  "space_type a = ucast (drop_bit 48 (number a))"

definition instance_of_id :: "object_id_type \<Rightarrow> 64 word" where
  "instance_of_id a = number a AND max_instance_id"

definition is_null :: "object_id_type \<Rightarrow> bool" where
  "is_null a \<longleftrightarrow> number a = 0"

definition id_less :: "object_id_type \<Rightarrow> object_id_type \<Rightarrow> bool" where
  "id_less a b \<longleftrightarrow> number a < number b"

definition incr_id :: "object_id_type \<Rightarrow> object_id_type" where
  "incr_id a = a\<lparr>number := number a + 1\<rparr>"

definition add_id :: "object_id_type \<Rightarrow> 64 word \<Rightarrow> object_id_type result" where
  "add_id a delta = make_object_id (space a) (type_of_id a) (instance_of_id a + delta)"

definition is_type :: "8 word \<Rightarrow> 8 word \<Rightarrow> object_id_type \<Rightarrow> bool" where
  "is_type s t a \<longleftrightarrow> drop_bit 48 (number a) = push_bit 8 (ucast s) OR ucast t"

definition key_of_id :: "object_id_type \<Rightarrow> index_key" where
  "key_of_id a = (space a, type_of_id a)"

definition index_id :: "object_id_type \<Rightarrow> object_id_type result" where
  "index_id a = make_object_id (space a) (type_of_id a) 0"

definition key_index_id :: "index_key \<Rightarrow> object_id_type" where
  "key_index_id k = \<lparr>number = push_bit 56 (ucast (fst k)) OR push_bit 48 (ucast (snd k))\<rparr>"

subsection \<open>The text form\<close>

text \<open>
  \<^verbatim>\<open>fc::to_string\<close> and \<^verbatim>\<open>fc::to_uint64\<close> print and parse decimal numbers; they are parameters (the
  parser throws, here \<open>None\<close>, on anything that is not a number). \<open>find_char\<close> and the substrings
  below are \<^verbatim>\<open>std::string::find\<close> and \<^verbatim>\<open>substr\<close>, with \<open>None\<close> for \<^verbatim>\<open>npos\<close>.
\<close>

record decimal_ops =
  to_decimal :: "64 word \<Rightarrow> string"
  of_decimal :: "string \<Rightarrow> 64 word option"

definition find_char :: "char \<Rightarrow> nat \<Rightarrow> string \<Rightarrow> nat option" where
  "find_char c from s = map_option (\<lambda>i. from + i)
     (let r = takeWhile (\<lambda>x. x \<noteq> c) (drop from s)
      in if length r < length (drop from s) then Some (length r) else None)"

definition id_to_string :: "decimal_ops \<Rightarrow> object_id_type \<Rightarrow> string" where
  "id_to_string dec a = to_decimal dec (ucast (space a)) @ ''.'' @ to_decimal dec (ucast (type_of_id a)) @
     ''.'' @ to_decimal dec (instance_of_id a)"

definition id_from_string :: "decimal_ops \<Rightarrow> string \<Rightarrow> object_id_type result" where
  "id_from_string dec s =
     (let first_dot = find_char (CHR ''.'') 0 s;
          second_dot = find_char (CHR ''.'') (case first_dot of None \<Rightarrow> 0 | Some i \<Rightarrow> i + 1) s
      in fc_assert (first_dot \<noteq> second_dot) ''first_dot != second_dot''
        (fc_assert (first_dot \<noteq> Some 0 \<and> first_dot \<noteq> None) ''first_dot''
          (let fd = the first_dot;
               rest = (case second_dot of None \<Rightarrow> s | Some i \<Rightarrow> drop (i + 1) s);
               mid = (case second_dot of None \<Rightarrow> drop (fd + 1) s
                      | Some i \<Rightarrow> take (i - fd - 1) (drop (fd + 1) s))
           in bindE (option_or (Assert_Exception ''to_uint64'') (of_decimal dec rest)) (\<lambda>n.
              fc_assert (n \<le> max_instance_id) ''instance''
              (bindE (option_or (Assert_Exception ''to_uint64'') (of_decimal dec (take fd s))) (\<lambda>sp.
               fc_assert (sp \<le> 0xff) ''space_id''
               (bindE (option_or (Assert_Exception ''to_uint64'') (of_decimal dec mid)) (\<lambda>ty.
                fc_assert (ty \<le> 0xff) ''type_id''
                (Inr \<lparr>number = n OR (push_bit 56 sp OR push_bit 48 ty)\<rparr>)))))))))"

text \<open>What the library promises of the two conversions: parsing inverts printing, and a printed
  number is a non-empty run of digits, so it holds no dot.\<close>

definition decimal_spec :: "decimal_ops \<Rightarrow> bool" where
  "decimal_spec dec \<longleftrightarrow> (\<forall>n. of_decimal dec (to_decimal dec n) = Some n \<and>
     to_decimal dec n \<noteq> [] \<and> CHR ''.'' \<notin> set (to_decimal dec n))"

section \<open>Lemmas on the packing\<close>

lemma max_instance_id_mask: "max_instance_id = mask 48"
  by (simp add: max_instance_id_def mask_eq_exp_minus_1)

lemma max_instance_id_numeral: "max_instance_id = 281474976710655"
  by (simp add: max_instance_id_mask mask_eq_exp_minus_1)

lemma instance_of_id_take_bit: "instance_of_id a = take_bit 48 (number a)"
  by (simp add: instance_of_id_def max_instance_id_mask take_bit_eq_mask)

lemma unat_instance: "unat (instance_of_id a) = unat (number a) mod 2 ^ 48"
  by (simp add: instance_of_id_take_bit take_bit_eq_mod unat_mod_distrib)

lemma unat_space: "unat (space a) = unat (number a) div 2 ^ 56"
proof -
  have "unat (number a) < 2 ^ 64" using unsigned_less [of "number a"] by simp
  then have "unat (number a) div 2 ^ 56 < 2 ^ 8" by simp
  then show ?thesis
    by (simp add: space_def unsigned_ucast_eq drop_bit_eq_div take_bit_eq_mod unat_div_distrib)
qed

lemma unat_byte_less: "unat (x :: 8 word) < 256"
  using unsigned_less [of x, where 'a = nat] by simp

lemma byte_mask: "(0x00ff :: 64 word) = mask 8"
  by (simp add: mask_eq_exp_minus_1)

lemma unat_type: "unat (type_of_id a) = unat (number a) div 2 ^ 48 mod 2 ^ 8"
proof -
  have "type_of_id a = ucast (take_bit 8 (drop_bit 48 (number a)))"
    by (simp add: type_of_id_def take_bit_eq_mask byte_mask)
  then show ?thesis
    by (simp add: unsigned_ucast_eq drop_bit_eq_div take_bit_eq_mod unat_mod_distrib unat_div_distrib)
qed

lemma split_two_digits:
  fixes n :: nat
  shows "n = n div (A * B) * (A * B) + n div A mod B * A + n mod A"
proof -
  have "n div (A * B) * (A * B) + n div A mod B * A = (n div A div B * B + n div A mod B) * A"
    unfolding div_mult2_eq by (simp only: distrib_right mult.assoc mult.commute [of A B])
  also have "\<dots> = n div A * A" by (simp only: div_mult_mod_eq)
  finally show ?thesis by simp
qed

lemma number_decompose:
  "unat (number a) = unat (space a) * 2 ^ 56 + unat (type_of_id a) * 2 ^ 48 + unat (instance_of_id a)"
  using split_two_digits [of "unat (number a)" "2 ^ 48" "2 ^ 8"]
  by (simp add: unat_space unat_type unat_instance)

lemma make_object_id_fields:
  assumes "make_object_id s t i = Inr a"
  shows "space a = s" "type_of_id a = t" "instance_of_id a = i"
proof -
  from assms have i: "drop_bit 48 i = 0"
    and a: "number a = push_bit 56 (ucast s) OR push_bit 48 (ucast t) OR i"
    by (auto simp: make_object_id_def result_simps)
  have hi: "\<not> bit i k" if "48 \<le> k" for k
  proof -
    from i have "\<not> bit (drop_bit 48 i) (k - 48)" by simp
    with that show ?thesis by (simp add: bit_simps)
  qed
  show "space a = s"
    by (rule bit_word_eqI) (auto simp: space_def a bit_simps hi dest: bit_imp_le_length)
  show "type_of_id a = t"
    by (rule bit_word_eqI) (auto simp: type_of_id_def byte_mask a bit_simps hi dest: bit_imp_le_length)
  show "instance_of_id a = i"
    by (rule bit_word_eqI)
      (auto simp: instance_of_id_def max_instance_id_mask a bit_simps hi intro: ccontr)
qed

lemma id_eqI:
  assumes "space a = space b" "type_of_id a = type_of_id b" "instance_of_id a = instance_of_id b"
  shows "a = b"
proof -
  have "unat (number a) = unat (number b)"
    by (simp only: number_decompose assms)
  then have "number a = number b" by (rule unsigned_word_eqI)
  then show ?thesis by (cases a; cases b) simp
qed

lemma key_instance_inject: "key_of_id a = key_of_id b \<Longrightarrow> instance_of_id a = instance_of_id b \<Longrightarrow> a = b"
  by (auto simp: key_of_id_def intro: id_eqI)

lemma instance_high_bits [simp]: "drop_bit 48 (instance_of_id a) = 0"
  by (simp add: instance_of_id_take_bit drop_bit_take_bit)

lemma make_object_id_fields_inverse [simp]:
  "make_object_id (space a) (type_of_id a) (instance_of_id a) = Inr a"
proof -
  obtain b where b: "make_object_id (space a) (type_of_id a) (instance_of_id a) = Inr b"
    by (simp add: make_object_id_def)
  from make_object_id_fields [OF b] have "b = a" by (intro id_eqI) auto
  with b show ?thesis by simp
qed

lemma index_id_eq: "index_id a = Inr (key_index_id (key_of_id a))"
  by (simp add: index_id_def make_object_id_def key_index_id_def key_of_id_def)

lemma key_index_id_key [simp]: "key_of_id (key_index_id k) = k" "instance_of_id (key_index_id k) = 0"
proof -
  have "make_object_id (fst k) (snd k) 0 = Inr (key_index_id k)"
    by (simp add: make_object_id_def key_index_id_def)
  from make_object_id_fields [OF this] show "key_of_id (key_index_id k) = k" "instance_of_id (key_index_id k) = 0"
    by (simp_all add: key_of_id_def)
qed

lemma key_index_id_inject [simp]: "key_index_id k = key_index_id k' \<longleftrightarrow> k = k'"
  by (metis key_index_id_key(1))

lemma key_index_id_of: "instance_of_id i = 0 \<Longrightarrow> key_index_id (key_of_id i) = i"
  by (rule key_instance_inject) simp_all

lemma incr_id_same_index:
  assumes "instance_of_id a < max_instance_id"
  shows "key_of_id (incr_id a) = key_of_id a"
    and "unat (instance_of_id (incr_id a)) = Suc (unat (instance_of_id a))"
    and "number a < number (incr_id a)"
proof -
  let ?n = "unat (number a)"
  from assms have "unat (instance_of_id a) < 2 ^ 48 - 1"
    by (simp add: word_less_nat_alt max_instance_id_numeral)
  then have r: "?n mod 2 ^ 48 < 2 ^ 48 - 1" by (simp add: unat_instance)
  have "?n < 2 ^ 64" using unsigned_less [of "number a"] by simp
  moreover have "?n \<noteq> 2 ^ 64 - 1" using r by auto
  ultimately have n': "unat (number (incr_id a)) = ?n + 1"
    by (simp add: incr_id_def unat_word_ariths)
  from r have m: "(?n + 1) mod 2 ^ 48 = ?n mod 2 ^ 48 + 1" by (simp add: mod_Suc)
  from r have d: "(?n + 1) div 2 ^ 48 = ?n div 2 ^ 48" by (simp add: div_Suc mod_Suc)
  have d': "(?n + 1) div 2 ^ 56 = ?n div 2 ^ 56"
  proof -
    have "k div 2 ^ 56 = k div 2 ^ 48 div 2 ^ 8" for k :: nat
      by (simp flip: div_mult2_eq)
    with d show ?thesis by simp
  qed
  show "key_of_id (incr_id a) = key_of_id a"
    using d d' by (simp add: key_of_id_def word_unat_eq_iff unat_space unat_type n')
  show "unat (instance_of_id (incr_id a)) = Suc (unat (instance_of_id a))"
    using m by (simp add: unat_instance n')
  show "number a < number (incr_id a)"
    by (simp add: word_less_nat_alt n')
qed

lemma find_char_append:
  assumes "c \<notin> set xs"
  shows "find_char c (length pre) (pre @ xs @ c # ys) = Some (length pre + length xs)"
proof -
  have "takeWhile (\<lambda>x. x \<noteq> c) (xs @ c # ys) = xs"
    using assms by (subst takeWhile_append2) auto
  then show ?thesis by (simp add: find_char_def)
qed

section \<open>Properties\<close>

text \<open>
  C32. an identifier and its three fields determine each other. Every space, every type and every
  instance below \<^verbatim>\<open>2^48\<close> give an identifier with exactly these fields, a larger instance is refused
  with the source's exception, and rebuilding an identifier from its own fields gives it back.
\<close>

theorem object_id_packing:
  "(if unat i < 2 ^ 48
    then \<exists>a. make_object_id s t i = Inr a \<and> space a = s \<and> type_of_id a = t \<and> instance_of_id a = i
    else make_object_id s t i = Inl (Assert_Exception ''instance overflow''))
   \<and> make_object_id (space b) (type_of_id b) (instance_of_id b) = Inr b"
proof -
  have "drop_bit 48 i = 0 \<longleftrightarrow> unat i < 2 ^ 48"
    by (simp add: word_unat_eq_iff unsigned_drop_bit_eq drop_bit_eq_div div_eq_0_iff unat_div_distrib)
  then have "if unat i < 2 ^ 48 then \<exists>a. make_object_id s t i = Inr a
      else make_object_id s t i = Inl (Assert_Exception ''instance overflow'')"
    by (simp add: make_object_id_def)
  then show ?thesis
    using make_object_id_fields [of s t i] by auto
qed

text \<open>
  comparing two identifiers as numbers, which orders every index by identifier, is comparing
  first the space, then the type and then the instance.
\<close>

theorem object_id_order_lexicographic:
  "id_less a b \<longleftrightarrow>
     space a < space b \<or> (space a = space b \<and>
       (type_of_id a < type_of_id b \<or> (type_of_id a = type_of_id b \<and> instance_of_id a < instance_of_id b)))"
proof -
  have two_digits: "x * C + y < x' * C + y' \<longleftrightarrow> x < x' \<or> (x = x' \<and> y < y')"
    if "y < C" "y' < C" for x x' y y' C :: nat
  proof (cases x x' rule: linorder_cases)
    case less
    then have "Suc x * C \<le> x' * C" by (intro mult_le_mono1) simp
    with that less show ?thesis by simp
  next
    case greater
    then have "Suc x' * C \<le> x * C" by (intro mult_le_mono1) simp
    with that greater show ?thesis by simp
  qed simp
  have i: "unat (instance_of_id c) < 2 ^ 48" for c by (simp add: unat_instance)
  have t: "unat (type_of_id c) * 2 ^ 48 + unat (instance_of_id c) < 2 ^ 56" for c
  proof -
    have "unat (type_of_id c) < 2 ^ 8" using unat_byte_less [of "type_of_id c"] by simp
    with i [of c] show ?thesis by simp
  qed
  show ?thesis
    using two_digits [OF t [of a] t [of b], of "unat (space a)" "unat (space b)"]
      two_digits [OF i [of a] i [of b]] number_decompose
    by (simp add: id_less_def word_less_nat_alt word_unat_eq_iff add.assoc)
qed

text \<open>
  C33. reading the text form of an identifier gives the identifier back, for every printer and parser
  of decimal numbers that invert each other (\<^verbatim>\<open>fc::to_string\<close> and \<^verbatim>\<open>fc::to_uint64\<close>).
\<close>

theorem object_id_string_roundtrip:
  assumes "decimal_spec dec"
  shows "id_from_string dec (id_to_string dec a) = Inr a"
proof -
  define A B C where "A = to_decimal dec (ucast (space a))" and "B = to_decimal dec (ucast (type_of_id a))"
    and "C = to_decimal dec (instance_of_id a)"
  have s: "id_to_string dec a = A @ CHR ''.'' # B @ CHR ''.'' # C"
    by (simp add: id_to_string_def A_def B_def C_def)
  have d: "CHR ''.'' \<notin> set A" "CHR ''.'' \<notin> set B" "A \<noteq> []"
    and p: "of_decimal dec A = Some (ucast (space a))" "of_decimal dec B = Some (ucast (type_of_id a))"
      "of_decimal dec C = Some (instance_of_id a)"
    using assms by (simp_all add: decimal_spec_def A_def B_def C_def)
  have f1: "find_char (CHR ''.'') 0 (A @ CHR ''.'' # B @ CHR ''.'' # C) = Some (length A)"
    using find_char_append [OF d(1), of "[]"] by simp
  have f2: "find_char (CHR ''.'') (Suc (length A)) (A @ CHR ''.'' # B @ CHR ''.'' # C)
      = Some (Suc (length A + length B))"
    using find_char_append [OF d(2), of "A @ ''.''"] by simp
  have "(ucast (space a) :: 64 word) \<le> 0xff" "(ucast (type_of_id a) :: 64 word) \<le> 0xff"
    using unat_byte_less [of "space a"] unat_byte_less [of "type_of_id a"]
    by (simp_all add: word_le_nat_alt unsigned_ucast_eq take_bit_eq_mod)
  moreover have "instance_of_id a \<le> max_instance_id"
    by (simp add: word_le_nat_alt unat_instance max_instance_id_numeral less_Suc_eq_le [symmetric])
  moreover have "Inr \<lparr>number = instance_of_id a OR (push_bit 56 (ucast (space a)) OR push_bit 48 (ucast (type_of_id a)))\<rparr> = (Inr a :: object_id_type result)"
    using make_object_id_fields_inverse [of a]
    by (simp add: make_object_id_def ac_simps del: make_object_id_fields_inverse)
  ultimately show ?thesis
    using d(3) p by (simp add: s id_from_string_def f1 f2)
qed

definition example_decimal :: decimal_ops where
  "example_decimal = \<lparr>to_decimal = (\<lambda>n. replicate (Suc (unat n)) (CHR ''1'')),
     of_decimal = (\<lambda>s. Some (of_nat (length s - 1)))\<rparr>"

theorem object_id_string_roundtrip_witness:
  "id_from_string example_decimal (id_to_string example_decimal \<lparr>number = 0x0102000000000005\<rparr>)
     = Inr \<lparr>number = 0x0102000000000005\<rparr>"
proof (rule object_id_string_roundtrip)
  show "decimal_spec example_decimal"
    by (simp add: decimal_spec_def example_decimal_def)
qed

end
