(* ===== verification/Object_Index.thy ===== *)
theory Object_Index
  imports Object_Id
begin

text \<open>
  The object containers of \<^verbatim>\<open>libraries/db\<close>: \<^verbatim>\<open>simple_index\<close> (a vector of optional objects addressed
  by instance) and \<^verbatim>\<open>generic_index\<close> (a \<^verbatim>\<open>boost::multi_index\<close> container with a unique identifier key
  and possibly further unique keys), as the two constructors of one datatype, so that the virtual
  calls of \<^verbatim>\<open>index\<close> are case distinctions. The locale \<open>object_container\<close> is what the primary index
  relies on; both kinds of container satisfy it.
\<close>

section \<open>Objects and containers\<close>

record 'p object =
  oid :: object_id_type
  contents :: 'p

text \<open>
  \<open>Generic xs\<close> lists the elements of the multi-index container. Which further unique keys it has
  is a parameter of the index class, given as the relation \<open>clash\<close>: two objects that agree on some
  unique key other than the identifier.
\<close>

datatype 'p container =
    Simple "'p object option list"
  | Generic "'p object list"

type_synonym 'p clash = "'p object \<Rightarrow> 'p object \<Rightarrow> bool"

definition slot_of :: "object_id_type \<Rightarrow> nat" where
  "slot_of i = unat (instance_of_id i)"

definition resize :: "nat \<Rightarrow> 'a option list \<Rightarrow> 'a option list" where
  "resize n xs = take n xs @ replicate (n - length xs) None"

fun drop_trailing_nulls :: "'a option list \<Rightarrow> 'a option list" where
  "drop_trailing_nulls xs =
     (if xs \<noteq> [] \<and> last xs = None then drop_trailing_nulls (butlast xs) else xs)"

declare drop_trailing_nulls.simps [simp del]

subsection \<open>simple_index\<close>

definition simple_find :: "'p object option list \<Rightarrow> object_id_type \<Rightarrow> 'p object option" where
  "simple_find xs i = (if slot_of i \<ge> length xs then None else xs ! slot_of i)"

definition simple_create :: "'p \<Rightarrow> object_id_type \<Rightarrow> ('p object \<Rightarrow> 'p object) \<Rightarrow> 'p object option list
    \<Rightarrow> 'p object option list \<times> 'p object" where
  "simple_create dflt i constructor xs =
     (let xs = (if slot_of i \<ge> length xs then resize (slot_of i + 1) xs else xs);
          ob = (constructor \<lparr>oid = i, contents = dflt\<rparr>)\<lparr>oid := i\<rparr>
      in (xs[slot_of i := Some ob], ob))"

definition simple_insert :: "'p object \<Rightarrow> 'p object option list \<Rightarrow> 'p object option list" where
  "simple_insert ob xs =
     (let n = slot_of (oid ob); xs = (if length xs \<le> n then resize (n + 1) xs else xs)
      in xs[n := Some ob])"

definition simple_modify :: "object_id_type \<Rightarrow> ('p object \<Rightarrow> 'p object) \<Rightarrow> 'p object option list
    \<Rightarrow> 'p object option list result" where
  "simple_modify i m xs =
     (case simple_find xs i of
        None \<Rightarrow> Inl (Undefined_Behaviour ''modify of a missing object'')
      | Some ob \<Rightarrow> Inr (xs[slot_of i := Some (m ob)]))"

definition simple_remove :: "object_id_type \<Rightarrow> 'p object option list \<Rightarrow> 'p object option list" where
  "simple_remove i xs = drop_trailing_nulls (xs[slot_of i := None])"

subsection \<open>generic_index\<close>

definition generic_find :: "'p object list \<Rightarrow> object_id_type \<Rightarrow> 'p object option" where
  "generic_find xs i = List.find (\<lambda>ob. oid ob = i) xs"

definition admits :: "'p clash \<Rightarrow> 'p object list \<Rightarrow> 'p object \<Rightarrow> bool" where
  "admits clash xs ob \<longleftrightarrow> list_all (\<lambda>o'. oid o' \<noteq> oid ob \<and> \<not> clash o' ob) xs"

definition generic_insert :: "'p clash \<Rightarrow> 'p object \<Rightarrow> 'p object list \<Rightarrow> 'p object list result" where
  "generic_insert clash ob xs =
     fc_assert (admits clash xs ob)
       ''Could not insert object, most likely a uniqueness constraint was violated'' (Inr (ob # xs))"

definition generic_create :: "'p clash \<Rightarrow> 'p \<Rightarrow> object_id_type \<Rightarrow> ('p object \<Rightarrow> 'p object)
    \<Rightarrow> 'p object list \<Rightarrow> ('p object list \<times> 'p object) result" where
  "generic_create clash dflt i constructor xs =
     (let ob = constructor \<lparr>oid = i, contents = dflt\<rparr>
      in fc_assert (admits clash xs ob)
           ''Could not create object! Most likely a uniqueness constraint is violated.''
           (Inr (ob # xs, ob)))"

definition generic_remove :: "object_id_type \<Rightarrow> 'p object list \<Rightarrow> 'p object list" where
  "generic_remove i xs = filter (\<lambda>ob. oid ob \<noteq> i) xs"

text \<open>
  \<^verbatim>\<open>multi_index_container::modify\<close> re-positions the element and returns whether it could; when a
  unique key of the new value is taken, the element is erased. The index turns the failure into an
  exception, so the container it leaves behind is the second component.
\<close>

definition multi_index_modify :: "'p clash \<Rightarrow> object_id_type \<Rightarrow> 'p object \<Rightarrow> 'p object list \<Rightarrow> bool \<times> 'p object list" where
  "multi_index_modify clash i ob xs =
     (let others = generic_remove i xs in if admits clash others ob then (True, ob # others) else (False, others))"

definition generic_modify :: "'p clash \<Rightarrow> object_id_type \<Rightarrow> ('p object \<Rightarrow> 'p object)
    \<Rightarrow> 'p object list \<Rightarrow> 'p object list result" where
  "generic_modify clash i m xs =
     (case generic_find xs i of
        None \<Rightarrow> Inl (Undefined_Behaviour ''modify of a missing object'')
      | Some ob \<Rightarrow>
          (let (ok, xs) = multi_index_modify clash i (m ob) xs
           in fc_assert ok ''Could not modify object, most likely a index constraint was violated'' (Inr xs)))"

lemma generic_modify_eq:
  "generic_modify clash i m xs =
     (case generic_find xs i of
        None \<Rightarrow> Inl (Undefined_Behaviour ''modify of a missing object'')
      | Some ob \<Rightarrow> fc_assert (admits clash (generic_remove i xs) (m ob))
          ''Could not modify object, most likely a index constraint was violated'' (Inr (m ob # generic_remove i xs)))"
  by (simp add: generic_modify_def multi_index_modify_def Let_def fc_assert_def split: option.splits)

subsection \<open>The virtual calls\<close>

fun cont_find :: "'p container \<Rightarrow> object_id_type \<Rightarrow> 'p object option" where
  "cont_find (Simple xs) i = simple_find xs i"
| "cont_find (Generic xs) i = generic_find xs i"

fun cont_create :: "'p clash \<Rightarrow> 'p \<Rightarrow> object_id_type \<Rightarrow> ('p object \<Rightarrow> 'p object) \<Rightarrow> 'p container
    \<Rightarrow> ('p container \<times> 'p object) result" where
  "cont_create clash dflt i c (Simple xs) = Inr (map_prod Simple id (simple_create dflt i c xs))"
| "cont_create clash dflt i c (Generic xs) =
     bindE (generic_create clash dflt i c xs) (\<lambda>r. Inr (map_prod Generic id r))"

fun cont_insert :: "'p clash \<Rightarrow> 'p object \<Rightarrow> 'p container \<Rightarrow> 'p container result" where
  "cont_insert clash ob (Simple xs) = Inr (Simple (simple_insert ob xs))"
| "cont_insert clash ob (Generic xs) = bindE (generic_insert clash ob xs) (\<lambda>r. Inr (Generic r))"

fun cont_modify :: "'p clash \<Rightarrow> object_id_type \<Rightarrow> ('p object \<Rightarrow> 'p object) \<Rightarrow> 'p container
    \<Rightarrow> 'p container result" where
  "cont_modify clash i m (Simple xs) = bindE (simple_modify i m xs) (\<lambda>r. Inr (Simple r))"
| "cont_modify clash i m (Generic xs) = bindE (generic_modify clash i m xs) (\<lambda>r. Inr (Generic r))"

text \<open>The container after a call of \<open>modify\<close> on an object it holds, also when the call throws.\<close>

fun cont_modify_left :: "'p clash \<Rightarrow> 'p object \<Rightarrow> 'p container \<Rightarrow> 'p container" where
  "cont_modify_left clash ob (Simple xs) = Simple (xs[slot_of (oid ob) := Some ob])"
| "cont_modify_left clash ob (Generic xs) = Generic (snd (multi_index_modify clash (oid ob) ob xs))"

fun cont_remove :: "object_id_type \<Rightarrow> 'p container \<Rightarrow> 'p container" where
  "cont_remove i (Simple xs) = Simple (simple_remove i xs)"
| "cont_remove i (Generic xs) = Generic (generic_remove i xs)"

text \<open>A container holds only objects of its own index, each found under its own identifier.\<close>

fun cont_inv :: "index_key \<Rightarrow> 'p container \<Rightarrow> bool" where
  "cont_inv k (Simple xs) \<longleftrightarrow>
     (\<forall>n < length xs. case xs ! n of None \<Rightarrow> True
        | Some ob \<Rightarrow> key_of_id (oid ob) = k \<and> slot_of (oid ob) = n)"
| "cont_inv k (Generic xs) \<longleftrightarrow> distinct (map oid xs) \<and> (\<forall>ob \<in> set xs. key_of_id (oid ob) = k)"

declare cont_inv.simps [simp del]

section \<open>The container interface\<close>

text \<open>
  What \<^verbatim>\<open>primary_index\<close> and, through it, the undo log rely on: lookups by identifier after each
  mutation, on identifiers of the container's index, and that every mutation keeps the invariant.
\<close>

locale object_container =
  fixes c_find :: "'c \<Rightarrow> object_id_type \<Rightarrow> 'p object option"
    and c_create :: "'p clash \<Rightarrow> 'p \<Rightarrow> object_id_type \<Rightarrow> ('p object \<Rightarrow> 'p object) \<Rightarrow> 'c \<Rightarrow> ('c \<times> 'p object) result"
    and c_insert :: "'p clash \<Rightarrow> 'p object \<Rightarrow> 'c \<Rightarrow> 'c result"
    and c_modify :: "'p clash \<Rightarrow> object_id_type \<Rightarrow> ('p object \<Rightarrow> 'p object) \<Rightarrow> 'c \<Rightarrow> 'c result"
    and c_remove :: "object_id_type \<Rightarrow> 'c \<Rightarrow> 'c"
    and c_inv :: "index_key \<Rightarrow> 'c \<Rightarrow> bool"
  assumes found: "c_inv k c \<Longrightarrow> key_of_id i = k \<Longrightarrow> c_find c i = Some ob \<Longrightarrow> oid ob = i"
    and create: "c_inv k c \<Longrightarrow> key_of_id i = k \<Longrightarrow> c_find c i = None \<Longrightarrow> oid (f \<lparr>oid = i, contents = d\<rparr>) = i \<Longrightarrow>
      c_create clash d i f c = Inr (c', ob) \<Longrightarrow>
      ob = f \<lparr>oid = i, contents = d\<rparr> \<and> c_inv k c' \<and>
      (\<forall>j. key_of_id j = k \<longrightarrow> c_find c' j = (if j = i then Some ob else c_find c j))"
    and insert: "c_inv k c \<Longrightarrow> key_of_id (oid ob) = k \<Longrightarrow> c_find c (oid ob) = None \<Longrightarrow> c_insert clash ob c = Inr c' \<Longrightarrow>
      c_inv k c' \<and> (\<forall>j. key_of_id j = k \<longrightarrow> c_find c' j = (if j = oid ob then Some ob else c_find c j))"
    and insert_succeeds: "c_inv k c \<Longrightarrow> key_of_id (oid ob) = k \<Longrightarrow> c_find c (oid ob) = None \<Longrightarrow>
      (\<forall>i o'. key_of_id i = k \<longrightarrow> c_find c i = Some o' \<longrightarrow> \<not> clash o' ob) \<Longrightarrow> \<exists>c'. c_insert clash ob c = Inr c'"
    and modify: "c_inv k c \<Longrightarrow> key_of_id i = k \<Longrightarrow> c_find c i = Some ob \<Longrightarrow> oid (m ob) = i \<Longrightarrow>
      c_modify clash i m c = Inr c' \<Longrightarrow>
      c_inv k c' \<and> (\<forall>j. key_of_id j = k \<longrightarrow> c_find c' j = (if j = i then Some (m ob) else c_find c j))"
    and modify_succeeds: "c_inv k c \<Longrightarrow> key_of_id i = k \<Longrightarrow> c_find c i = Some ob \<Longrightarrow> oid (m ob) = i \<Longrightarrow>
      (\<forall>j o'. key_of_id j = k \<longrightarrow> j \<noteq> i \<longrightarrow> c_find c j = Some o' \<longrightarrow> \<not> clash o' (m ob)) \<Longrightarrow>
      \<exists>c'. c_modify clash i m c = Inr c'"
    and remove: "c_inv k c \<Longrightarrow> key_of_id i = k \<Longrightarrow>
      c_inv k (c_remove i c) \<and>
      (\<forall>j. key_of_id j = k \<longrightarrow> c_find (c_remove i c) j = (if j = i then None else c_find c j))"
begin

lemma reinsert_removed:
  assumes "c_inv k c" and "key_of_id i = k" and "c_find c i = Some ob"
    and "\<forall>j o'. key_of_id j = k \<longrightarrow> j \<noteq> i \<longrightarrow> c_find c j = Some o' \<longrightarrow> \<not> clash o' ob"
  shows "\<exists>c'. c_insert clash ob (c_remove i c) = Inr c' \<and> c_inv k c' \<and>
    (\<forall>j. key_of_id j = k \<longrightarrow> c_find c' j = c_find c j)"
proof -
  from found [OF assms(1-3)] have ob: "oid ob = i" .
  have rem: "c_inv k (c_remove i c)"
    "key_of_id j = k \<Longrightarrow> c_find (c_remove i c) j = (if j = i then None else c_find c j)" for j
    using remove [OF assms(1,2)] by simp_all
  have find: "c_find (c_remove i c) (oid ob) = None" using rem(2) assms(2) ob by simp
  have "\<exists>c'. c_insert clash ob (c_remove i c) = Inr c'"
    by (rule insert_succeeds [OF rem(1) _ find]) (use assms rem ob in \<open>auto split: if_splits\<close>)
  then obtain c' where c': "c_insert clash ob (c_remove i c) = Inr c'" by blast
  with insert [OF rem(1) _ find c'] assms(2,3) rem(2) ob show ?thesis by auto
qed

lemma restore_modified:
  assumes "c_inv k c" and "key_of_id i = k" and "c_find c i = Some ob" and "oid (m ob) = i"
    and "c_modify clash i m c = Inr c1"
    and "\<forall>j o'. key_of_id j = k \<longrightarrow> j \<noteq> i \<longrightarrow> c_find c j = Some o' \<longrightarrow> \<not> clash o' ob"
  shows "\<exists>c2. c_modify clash i (\<lambda>_. ob) c1 = Inr c2 \<and> c_inv k c2 \<and>
    (\<forall>j. key_of_id j = k \<longrightarrow> c_find c2 j = c_find c j)"
proof -
  from found [OF assms(1-3)] have ob: "oid ob = i" .
  have c1: "c_inv k c1"
    "key_of_id j = k \<Longrightarrow> c_find c1 j = (if j = i then Some (m ob) else c_find c j)" for j
    using modify [OF assms(1-5)] by simp_all
  have "\<exists>c2. c_modify clash i (\<lambda>_. ob) c1 = Inr c2"
    by (rule modify_succeeds [OF c1(1) assms(2)]) (use c1 assms ob in \<open>auto split: if_splits\<close>)
  then obtain c2 where c2: "c_modify clash i (\<lambda>_. ob) c1 = Inr c2" by blast
  with modify [OF c1(1) assms(2) _ _ c2, of "m ob"] c1(2) assms(2,3) ob show ?thesis by auto
qed

end

section \<open>simple_index and generic_index are such containers\<close>

lemma length_resize [simp]: "length xs \<le> n \<Longrightarrow> length (resize n xs) = n"
  by (simp add: resize_def)

lemma nth_resize: "length xs \<le> n \<Longrightarrow> i < n \<Longrightarrow> resize n xs ! i = (if i < length xs then xs ! i else None)"
  by (simp add: resize_def nth_append)

lemma simple_find_resize: "length xs \<le> n \<Longrightarrow> simple_find (resize n xs) i = simple_find xs i"
  by (auto simp: simple_find_def nth_resize)

lemma simple_find_drop_trailing_nulls:
  "simple_find (drop_trailing_nulls xs) i = simple_find xs i"
proof (induction xs rule: drop_trailing_nulls.induct)
  case (1 xs)
  show ?case
  proof (cases "xs \<noteq> [] \<and> last xs = None")
    case True
    have "simple_find (butlast xs) i = simple_find xs i"
      using True by (cases "slot_of i = length xs - 1") (auto simp: simple_find_def nth_butlast last_conv_nth)
    with True "1.IH" show ?thesis by (simp add: drop_trailing_nulls.simps [of xs])
  next
    case False
    then show ?thesis by (simp only: drop_trailing_nulls.simps [of xs] if_False)
  qed
qed

text \<open>Identifiers of one index are told apart by their slot.\<close>

lemma slot_inject: "key_of_id i = key_of_id j \<Longrightarrow> slot_of i = slot_of j \<longleftrightarrow> i = j"
  by (auto simp: slot_of_def word_unat_eq_iff [symmetric] dest: key_instance_inject)

lemma simple_inv_iff:
  "cont_inv k (Simple xs) \<longleftrightarrow>
     (\<forall>n < length xs. \<forall>ob. xs ! n = Some ob \<longrightarrow> key_of_id (oid ob) = k \<and> slot_of (oid ob) = n)"
  by (auto simp: cont_inv.simps split: option.splits)

lemma simple_put:
  assumes "cont_inv k (Simple xs)" and "key_of_id i = k" and "oid ob = i"
    and "ys = (if slot_of i \<ge> length xs then resize (slot_of i + 1) xs else xs)"
  shows "cont_inv k (Simple (ys[slot_of i := Some ob]))"
    and "key_of_id j = k \<Longrightarrow> simple_find (ys[slot_of i := Some ob]) j = (if j = i then Some ob else simple_find xs j)"
proof -
  have ys: "slot_of i < length ys" "length xs \<le> length ys"
    and nth: "n < length ys \<Longrightarrow> ys ! n = (if n < length xs then xs ! n else None)" for n
    using assms(4) by (auto simp: nth_resize)
  show "cont_inv k (Simple (ys[slot_of i := Some ob]))"
    using assms(1-3) ys nth by (auto simp: simple_inv_iff nth_list_update split: if_splits)
  show "simple_find (ys[slot_of i := Some ob]) j = (if j = i then Some ob else simple_find xs j)"
    if "key_of_id j = k"
    using ys nth slot_inject [of j i] that assms(2) by (auto simp: simple_find_def nth_list_update)
qed

lemma simple_inv_remove:
  assumes "cont_inv k (Simple xs)"
  shows "cont_inv k (Simple (drop_trailing_nulls xs))"
  using assms
proof (induction xs rule: drop_trailing_nulls.induct)
  case (1 xs)
  show ?case
  proof (cases "xs \<noteq> [] \<and> last xs = None")
    case True
    from "1.prems" have "cont_inv k (Simple (butlast xs))"
      unfolding simple_inv_iff by (simp add: nth_butlast less_diff_conv) (meson Suc_lessD)
    with True "1.IH" show ?thesis by (simp only: drop_trailing_nulls.simps [of xs]) simp
  next
    case False
    with "1.prems" show ?thesis by (simp only: drop_trailing_nulls.simps [of xs] if_False)
  qed
qed

lemma simple_erase:
  assumes "cont_inv k (Simple xs)" and "key_of_id i = k"
  shows "cont_inv k (Simple (simple_remove i xs))"
    and "key_of_id j = k \<Longrightarrow> simple_find (simple_remove i xs) j = (if j = i then None else simple_find xs j)"
proof -
  have "cont_inv k (Simple (xs[slot_of i := None]))"
    using assms(1) unfolding simple_inv_iff
    by (cases "slot_of i < length xs") (auto simp: nth_list_update list_update_beyond split: if_splits)
  then show "cont_inv k (Simple (simple_remove i xs))"
    unfolding simple_remove_def by (rule simple_inv_remove)
  show "simple_find (simple_remove i xs) j = (if j = i then None else simple_find xs j)"
    if "key_of_id j = k"
    unfolding simple_remove_def simple_find_drop_trailing_nulls
    using slot_inject [of j i] that assms(2)
    by (cases "slot_of i < length xs") (auto simp: simple_find_def nth_list_update list_update_beyond)
qed

lemma generic_find_Some: "generic_find xs i = Some ob \<Longrightarrow> ob \<in> set xs \<and> oid ob = i"
  by (auto simp: generic_find_def find_Some_iff)

lemma generic_find_None: "generic_find xs i = None \<longleftrightarrow> i \<notin> oid ` set xs"
  by (auto simp: generic_find_def find_None_iff)

lemma generic_find_Cons [simp]:
  "generic_find (ob # xs) i = (if oid ob = i then Some ob else generic_find xs i)"
  by (simp add: generic_find_def)

lemma generic_find_in: "distinct (map oid xs) \<Longrightarrow> ob \<in> set xs \<Longrightarrow> generic_find xs (oid ob) = Some ob"
  by (induction xs) auto

lemma generic_find_remove: "generic_find (generic_remove i xs) j = (if j = i then None else generic_find xs j)"
  by (induction xs) (auto simp: generic_remove_def generic_find_def)

lemma generic_inv_remove: "cont_inv k (Generic xs) \<Longrightarrow> cont_inv k (Generic (generic_remove i xs))"
  by (auto simp: cont_inv.simps generic_remove_def distinct_map_filter)

lemma generic_admits:
  assumes "cont_inv k (Generic xs)" and "generic_find xs (oid ob) = None"
    and "\<forall>i o'. key_of_id i = k \<longrightarrow> generic_find xs i = Some o' \<longrightarrow> \<not> clash o' ob"
  shows "admits clash xs ob"
  unfolding admits_def list_all_iff
proof (intro ballI conjI)
  fix o' assume o': "o' \<in> set xs"
  with assms(2) show "oid o' \<noteq> oid ob" by (metis generic_find_None imageI)
  from assms(1) o' have "key_of_id (oid o') = k" "generic_find xs (oid o') = Some o'"
    by (auto simp: cont_inv.simps intro: generic_find_in)
  with assms(3) show "\<not> clash o' ob" by blast
qed

lemma admits_inv:
  assumes "admits clash xs ob" and "cont_inv k (Generic xs)" and "key_of_id (oid ob) = k"
  shows "cont_inv k (Generic (ob # xs))"
proof -
  from assms(1) have "oid ob \<notin> oid ` set xs" unfolding admits_def list_all_iff by (metis imageE)
  with assms(2,3) show ?thesis by (simp add: cont_inv.simps)
qed

lemma simple_found:
  assumes "cont_inv k (Simple xs)" and "key_of_id i = k" and "simple_find xs i = Some ob"
  shows "oid ob = i"
proof -
  from assms(3) have "slot_of i < length xs" "xs ! slot_of i = Some ob"
    by (auto simp: simple_find_def split: if_splits)
  with assms(1) have "key_of_id (oid ob) = k" "slot_of (oid ob) = slot_of i"
    unfolding simple_inv_iff by blast+
  with assms(2) show ?thesis by (metis slot_inject)
qed

lemma cont_found:
  "cont_inv k c \<Longrightarrow> key_of_id i = k \<Longrightarrow> cont_find c i = Some ob \<Longrightarrow> oid ob = i"
  by (cases c) (auto simp only: cont_find.simps dest: simple_found generic_find_Some)

lemma cont_create_law:
  assumes "cont_inv k c" and "key_of_id i = k" and "oid (f \<lparr>oid = i, contents = d\<rparr>) = i"
    and "cont_create clash d i f c = Inr (c', ob)"
  shows "ob = f \<lparr>oid = i, contents = d\<rparr> \<and> cont_inv k c' \<and>
    (\<forall>j. key_of_id j = k \<longrightarrow> cont_find c' j = (if j = i then Some ob else cont_find c j))"
proof -
  let ?ob = "f \<lparr>oid = i, contents = d\<rparr>"
  have id: "?ob\<lparr>oid := i\<rparr> = ?ob" using assms(3) by (metis object.surjective object.update_convs(1))
  show ?thesis
  proof (cases c)
    case (Simple xs)
    define ys where "ys = (if slot_of i \<ge> length xs then resize (slot_of i + 1) xs else xs)"
    from assms(4) id have "c' = Simple (ys[slot_of i := Some ?ob])" "ob = ?ob"
      by (auto simp: Simple simple_create_def Let_def ys_def)
    with simple_put [of k xs i ?ob ys] assms(1-3) show ?thesis
      by (auto simp: Simple ys_def)
  next
    case (Generic xs)
    from assms(4) have "admits clash xs ?ob" "c' = Generic (?ob # xs)" "ob = ?ob"
      by (auto simp: Generic generic_create_def Let_def result_simps)
    with admits_inv [of clash xs ?ob k] assms(1-3) show ?thesis
      by (auto simp: Generic)
  qed
qed

lemma cont_insert_law:
  assumes "cont_inv k c" and "key_of_id (oid ob) = k" and "cont_find c (oid ob) = None" and "cont_insert clash ob c = Inr c'"
  shows "cont_inv k c' \<and> (\<forall>j. key_of_id j = k \<longrightarrow> cont_find c' j = (if j = oid ob then Some ob else cont_find c j))"
proof (cases c)
  case (Simple xs)
  define ys where "ys = (if slot_of (oid ob) \<ge> length xs then resize (slot_of (oid ob) + 1) xs else xs)"
  have "c' = Simple (ys[slot_of (oid ob) := Some ob])" using assms(4) by (simp add: Simple simple_insert_def Let_def ys_def)
  with simple_put [of k xs "oid ob" ob ys] assms(1,2) show ?thesis by (auto simp: Simple ys_def)
next
  case (Generic xs)
  then have "admits clash xs ob" "c' = Generic (ob # xs)" using assms(4) by (auto simp: generic_insert_def result_simps)
  with admits_inv [of clash xs ob k] assms(1,2) show ?thesis by (auto simp: Generic)
qed

lemma cont_insert_succeeds:
  assumes "cont_inv k c" and "key_of_id (oid ob) = k" and "cont_find c (oid ob) = None"
    and "\<forall>i o'. key_of_id i = k \<longrightarrow> cont_find c i = Some o' \<longrightarrow> \<not> clash o' ob"
  shows "\<exists>c'. cont_insert clash ob c = Inr c'"
proof (cases c)
  case (Generic xs)
  from generic_admits [of k xs ob clash] assms have "admits clash xs ob" by (simp only: Generic cont_find.simps)
  then show ?thesis by (simp add: Generic generic_insert_def)
qed simp

lemma cont_modify_law:
  assumes "cont_inv k c" and "key_of_id i = k" and "cont_find c i = Some ob" and "oid (m ob) = i"
    and "cont_modify clash i m c = Inr c'"
  shows "cont_inv k c' \<and> (\<forall>j. key_of_id j = k \<longrightarrow> cont_find c' j = (if j = i then Some (m ob) else cont_find c j))"
proof (cases c)
  case (Simple xs)
  with assms(3) have f: "simple_find xs i = Some ob" by simp
  then have "slot_of i < length xs" by (auto simp: simple_find_def split: if_splits)
  moreover have "c' = Simple (xs[slot_of i := Some (m ob)])"
    using assms(5) f by (simp add: Simple simple_modify_def)
  ultimately show ?thesis
    using simple_put [of k xs i "m ob" xs] assms(1,2,4) by (simp only: Simple cont_find.simps) auto
next
  case (Generic xs)
  with assms(3) have f: "generic_find xs i = Some ob" by simp
  then have "admits clash (generic_remove i xs) (m ob)" "c' = Generic (m ob # generic_remove i xs)"
    using assms(5) by (auto simp: Generic generic_modify_eq result_simps)
  with admits_inv [of clash "generic_remove i xs" "m ob" k] generic_inv_remove [of k xs i] assms(1,2,4)
  show ?thesis by (simp only: Generic cont_find.simps) (auto simp: generic_find_remove)
qed

lemma cont_modify_succeeds:
  assumes "cont_inv k c" and "key_of_id i = k" and "cont_find c i = Some ob" and "oid (m ob) = i"
    and "\<forall>j o'. key_of_id j = k \<longrightarrow> j \<noteq> i \<longrightarrow> cont_find c j = Some o' \<longrightarrow> \<not> clash o' (m ob)"
  shows "\<exists>c'. cont_modify clash i m c = Inr c'"
proof (cases c)
  case (Simple xs)
  with assms(3) show ?thesis by (simp add: simple_modify_def)
next
  case (Generic xs)
  have "admits clash (generic_remove i xs) (m ob)"
    by (rule generic_admits [of k])
      (use assms in \<open>auto simp only: Generic cont_find.simps generic_find_remove generic_inv_remove split: if_splits\<close>)
  with Generic assms(3) show ?thesis by (simp add: generic_modify_eq)
qed

lemma cont_remove_law:
  assumes "cont_inv k c" and "key_of_id i = k"
  shows "cont_inv k (cont_remove i c) \<and>
    (\<forall>j. key_of_id j = k \<longrightarrow> cont_find (cont_remove i c) j = (if j = i then None else cont_find c j))"
proof (cases c)
  case (Simple xs)
  with assms simple_erase [of k xs i] show ?thesis by (simp only: cont_remove.simps cont_find.simps) blast
next
  case (Generic xs)
  with assms generic_inv_remove [of k xs i] show ?thesis
    by (simp only: cont_remove.simps cont_find.simps generic_find_remove) blast
qed

text \<open>A call of \<open>modify\<close> on an object of the container throws only for a unique key that is taken.\<close>

lemma cont_modify_error:
  assumes "cont_find c i = Some ob" and "cont_modify clash i m c = Inl e"
  shows "e = Assert_Exception ''Could not modify object, most likely a index constraint was violated''"
    and "\<exists>xs. c = Generic xs \<and> \<not> admits clash (generic_remove i xs) (m ob)"
  using assms by (cases c; simp add: simple_modify_def generic_modify_eq fc_assert_def split: if_splits)+

lemma generic_modify_clashes:
  assumes "generic_find xs i = Some ob" and "generic_find xs j = Some o'" and "j \<noteq> i" and "clash o' (m ob)"
  shows "generic_modify clash i m xs = Inl (Assert_Exception ''Could not modify object, most likely a index constraint was violated'')"
proof -
  have "generic_find (generic_remove i xs) j = Some o'" using assms(2,3) by (simp add: generic_find_remove)
  then have "o' \<in> set (generic_remove i xs)" by (auto simp: generic_find_def find_Some_iff)
  then have "\<not> admits clash (generic_remove i xs) (m ob)" using assms(4) by (auto simp: admits_def list_all_iff)
  with assms(1) show ?thesis by (simp add: generic_modify_eq fc_assert_def)
qed

interpretation cont: object_container cont_find cont_create cont_insert cont_modify cont_remove cont_inv
  by unfold_locales (rule cont_found cont_create_law cont_insert_law cont_insert_succeeds cont_modify_law
    cont_modify_succeeds cont_remove_law; assumption)+

end
