(* ===== verification/Undo_Database.thy ===== *)
theory Undo_Database
  imports Object_Index
begin

text \<open>
  The object database with its undo log: \<^verbatim>\<open>libraries/db/undo_database.cpp\<close>, the primary index of
  \<^verbatim>\<open>index.hpp\<close>/\<^verbatim>\<open>index.cpp\<close> and \<^verbatim>\<open>object_database.cpp\<close>. Every mutation is recorded in the undo state at
  the back of a stack; a session is undone by replaying that state backwards, merged into the state
  below it, or committed. The specification is a stack of snapshots: \<open>rewind\<close> says what database an
  undo state stands for, the operations refine pushing, keeping and popping snapshots.
\<close>

section \<open>State\<close>

record 'p undo_state =
  old_values :: "(object_id_type \<times> 'p object) list"
  old_index_next_ids :: "(object_id_type \<times> object_id_type) list"
  new_ids :: "object_id_type list"
  removed :: "(object_id_type \<times> 'p object) list"

text \<open>\<open>undo_stack\<close> lists the deque from its front (the oldest state) to its back.\<close>

record 'p undo_database =
  active_sessions :: nat
  undo_disabled :: bool
  undo_stack :: "'p undo_state list"
  max_size :: nat

record 'p index =
  idx_objects :: "'p container"
  idx_next_id :: object_id_type
  idx_default :: 'p
  idx_clash :: "'p clash"

record 'p object_database =
  indexes :: "index_key \<Rightarrow> 'p index option"
  undo_db :: "'p undo_database"

record session =
  apply_undo :: bool
  disable_on_exit :: bool

definition empty_undo_state :: "'p undo_state" where
  "empty_undo_state = \<lparr>old_values = [], old_index_next_ids = [], new_ids = [], removed = []\<rparr>"

section \<open>Recording: on\_create, on\_modify, on\_remove\<close>

definition enable :: "'p undo_database \<Rightarrow> 'p undo_database" where
  "enable u = u\<lparr>undo_disabled := False\<rparr>"

definition disable :: "'p undo_database \<Rightarrow> 'p undo_database" where
  "disable u = u\<lparr>undo_disabled := True\<rparr>"

text \<open>\<open>if( _stack.empty() ) _stack.emplace_back();\<close> and writing \<open>_stack.back()\<close> back.\<close>

definition ensure_state :: "'p undo_database \<Rightarrow> 'p undo_database" where
  "ensure_state u = (if undo_stack u = [] then u\<lparr>undo_stack := [empty_undo_state]\<rparr> else u)"

definition set_back :: "'p undo_state \<Rightarrow> 'p undo_database \<Rightarrow> 'p undo_database" where
  "set_back st u = u\<lparr>undo_stack := butlast (undo_stack u) @ [st]\<rparr>"

definition record_create :: "object_id_type \<Rightarrow> object_id_type \<Rightarrow> 'p undo_state \<Rightarrow> 'p undo_state" where
  "record_create idx i st = st\<lparr>
     old_index_next_ids := (if map_of (old_index_next_ids st) idx = None
       then AList.update idx i (old_index_next_ids st) else old_index_next_ids st),
     new_ids := List.insert i (new_ids st)\<rparr>"

definition on_create :: "'p object \<Rightarrow> 'p undo_database \<Rightarrow> 'p undo_database result" where
  "on_create ob u =
     (if undo_disabled u then Inr u
      else let u = ensure_state u; st = last (undo_stack u)
        in bindE (index_id (oid ob)) (\<lambda>idx. Inr (set_back (record_create idx (oid ob) st) u)))"

definition record_modify :: "'p object \<Rightarrow> 'p undo_state \<Rightarrow> 'p undo_state" where
  "record_modify ob st =
     (if oid ob \<in> set (new_ids st) then st
      else if map_of (old_values st) (oid ob) \<noteq> None then st
      else st\<lparr>old_values := AList.update (oid ob) ob (old_values st)\<rparr>)"

definition on_modify :: "'p object \<Rightarrow> 'p undo_database \<Rightarrow> 'p undo_database" where
  "on_modify ob u =
     (if undo_disabled u then u
      else let u = ensure_state u in set_back (record_modify ob (last (undo_stack u))) u)"

definition record_remove :: "'p object \<Rightarrow> 'p undo_state \<Rightarrow> 'p undo_state" where
  "record_remove ob st =
     (if oid ob \<in> set (new_ids st) then st\<lparr>new_ids := removeAll (oid ob) (new_ids st)\<rparr>
      else case map_of (old_values st) (oid ob) of
        Some old \<Rightarrow> st\<lparr>removed := AList.update (oid ob) old (removed st),
                        old_values := AList.delete (oid ob) (old_values st)\<rparr>
      | None \<Rightarrow> if map_of (removed st) (oid ob) \<noteq> None then st
                else st\<lparr>removed := AList.update (oid ob) ob (removed st)\<rparr>)"

definition on_remove :: "'p object \<Rightarrow> 'p undo_database \<Rightarrow> 'p undo_database" where
  "on_remove ob u =
     (if undo_disabled u then u
      else let u = ensure_state u in set_back (record_remove ob (last (undo_stack u))) u)"

section \<open>The object database\<close>

definition get_index :: "index_key \<Rightarrow> 'p object_database \<Rightarrow> 'p index result" where
  "get_index k db = option_or (Assert_Exception ''no such index'') (indexes db k)"

definition find_object :: "object_id_type \<Rightarrow> 'p object_database \<Rightarrow> 'p object option result" where
  "find_object i db = bindE (get_index (key_of_id i) db) (\<lambda>ix. Inr (cont_find (idx_objects ix) i))"

definition get_object :: "object_id_type \<Rightarrow> 'p object_database \<Rightarrow> 'p object result" where
  "get_object i db = bindE (find_object i db)
     (\<lambda>r. option_or (Assert_Exception ''Unable to find Object'') r)"

definition set_index :: "index_key \<Rightarrow> 'p index \<Rightarrow> 'p object_database \<Rightarrow> 'p object_database" where
  "set_index k ix db = db\<lparr>indexes := (indexes db)(k \<mapsto> ix)\<rparr>"

definition db_create :: "index_key \<Rightarrow> ('p object \<Rightarrow> 'p object) \<Rightarrow> 'p object_database
    \<Rightarrow> ('p object_database \<times> 'p object) result" where
  "db_create k constructor db =
     bindE (get_index k db) (\<lambda>ix.
     bindE (cont_create (idx_clash ix) (idx_default ix) (idx_next_id ix) constructor (idx_objects ix)) (\<lambda>(c, ob).
       let db = set_index k (ix\<lparr>idx_objects := c, idx_next_id := incr_id (idx_next_id ix)\<rparr>) db
       in bindE (on_create ob (undo_db db)) (\<lambda>u. Inr (db\<lparr>undo_db := u\<rparr>, ob))))"

definition db_insert :: "'p object \<Rightarrow> 'p object_database \<Rightarrow> 'p object_database result" where
  "db_insert ob db =
     bindE (get_index (key_of_id (oid ob)) db) (\<lambda>ix.
     bindE (cont_insert (idx_clash ix) ob (idx_objects ix)) (\<lambda>c.
       let db = set_index (key_of_id (oid ob)) (ix\<lparr>idx_objects := c\<rparr>) db
       in bindE (on_create ob (undo_db db)) (\<lambda>u. Inr (db\<lparr>undo_db := u\<rparr>))))"

definition db_modify :: "object_id_type \<Rightarrow> ('p object \<Rightarrow> 'p object) \<Rightarrow> 'p object_database
    \<Rightarrow> 'p object_database result" where
  "db_modify i m db =
     bindE (get_object i db) (\<lambda>ob.
     bindE (get_index (key_of_id i) db) (\<lambda>ix.
       let u = on_modify ob (undo_db db)
       in bindE (cont_modify (idx_clash ix) i m (idx_objects ix)) (\<lambda>c.
          Inr ((set_index (key_of_id i) (ix\<lparr>idx_objects := c\<rparr>) db)\<lparr>undo_db := u\<rparr>))))"

text \<open>
  The database that a call of \<open>modify\<close> leaves behind, also when the index throws: the old value is
  saved before the container changes, so the undo log has recorded it in either case.
\<close>

definition db_modify_left :: "object_id_type \<Rightarrow> ('p object \<Rightarrow> 'p object) \<Rightarrow> 'p object_database \<Rightarrow> 'p object_database" where
  "db_modify_left i m db =
     (case (get_object i db, indexes db (key_of_id i)) of
        (Inr ob, Some ix) \<Rightarrow> (set_index (key_of_id i) (ix\<lparr>idx_objects := cont_modify_left (idx_clash ix) (m ob) (idx_objects ix)\<rparr>) db)
          \<lparr>undo_db := on_modify ob (undo_db db)\<rparr>
      | _ \<Rightarrow> db)"

definition db_remove :: "object_id_type \<Rightarrow> 'p object_database \<Rightarrow> 'p object_database result" where
  "db_remove i db =
     bindE (get_object i db) (\<lambda>ob.
     bindE (get_index (key_of_id i) db) (\<lambda>ix.
       Inr ((set_index (key_of_id i) (ix\<lparr>idx_objects := cont_remove i (idx_objects ix)\<rparr>) db)
             \<lparr>undo_db := on_remove ob (undo_db db)\<rparr>)))"

definition set_next_id :: "index_key \<Rightarrow> object_id_type \<Rightarrow> 'p object_database \<Rightarrow> 'p object_database result" where
  "set_next_id k n db = bindE (get_index k db) (\<lambda>ix. Inr (set_index k (ix\<lparr>idx_next_id := n\<rparr>) db))"

section \<open>Sessions\<close>

text \<open>\<open>while( size() > max_size() ) _stack.pop_front();\<close>\<close>

fun trim_stack :: "nat \<Rightarrow> 'a list \<Rightarrow> 'a list" where
  "trim_stack n [] = []"
| "trim_stack n (x # xs) = (if length (x # xs) > n then trim_stack n xs else x # xs)"

definition start_undo_session :: "bool \<Rightarrow> 'p undo_database \<Rightarrow> session \<times> 'p undo_database" where
  "start_undo_session force_enable u =
     (if undo_disabled u \<and> \<not> force_enable then (\<lparr>apply_undo = True, disable_on_exit = False\<rparr>, u)
      else let dis = undo_disabled u \<and> force_enable;
               u = (if force_enable then u\<lparr>undo_disabled := False\<rparr> else u)
        in (\<lparr>apply_undo = True, disable_on_exit = dis\<rparr>,
            u\<lparr>undo_stack := trim_stack (max_size u) (undo_stack u) @ [empty_undo_state],
              active_sessions := active_sessions u + 1\<rparr>))"

text \<open>The four loops that \<open>undo\<close> and \<open>pop_commit\<close> run over the state at the back of the stack.\<close>

definition restore_old_values :: "'p undo_state \<Rightarrow> 'p object_database \<Rightarrow> 'p object_database result" where
  "restore_old_values st = foldE (\<lambda>(_, ob). db_modify (oid ob) (\<lambda>_. ob)) (old_values st)"

definition remove_new_ids :: "'p undo_state \<Rightarrow> 'p object_database \<Rightarrow> 'p object_database result" where
  "remove_new_ids st = foldE db_remove (new_ids st)"

definition restore_next_ids :: "'p undo_state \<Rightarrow> 'p object_database \<Rightarrow> 'p object_database result" where
  "restore_next_ids st = foldE (\<lambda>(i, n). set_next_id (key_of_id i) n) (old_index_next_ids st)"

definition insert_removed :: "'p undo_state \<Rightarrow> 'p object_database \<Rightarrow> 'p object_database result" where
  "insert_removed st = foldE (\<lambda>(_, ob). db_insert ob) (removed st)"

definition replay_backwards :: "'p undo_state \<Rightarrow> 'p object_database \<Rightarrow> 'p object_database result" where
  "replay_backwards st db =
     bindE (restore_old_values st db) (\<lambda>db.
     bindE (remove_new_ids st db) (\<lambda>db.
     bindE (restore_next_ids st db) (\<lambda>db. insert_removed st db)))"

definition with_undo :: "('p undo_database \<Rightarrow> 'p undo_database) \<Rightarrow> 'p object_database \<Rightarrow> 'p object_database" where
  "with_undo f db = db\<lparr>undo_db := f (undo_db db)\<rparr>"

definition pop_back :: "'p undo_database \<Rightarrow> 'p undo_database" where
  "pop_back u = u\<lparr>undo_stack := butlast (undo_stack u)\<rparr>"

definition undo :: "'p object_database \<Rightarrow> 'p object_database result" where
  "undo db =
     fc_assert (\<not> undo_disabled (undo_db db)) ''!_disabled''
    (fc_assert (active_sessions (undo_db db) > 0) ''_active_sessions > 0''
    (if undo_stack (undo_db db) = [] then Inl (Undefined_Behaviour ''back of an empty deque'')
     else bindE (replay_backwards (last (undo_stack (undo_db db))) (with_undo disable db)) (\<lambda>db.
       Inr (with_undo (\<lambda>u. (enable (pop_back u))\<lparr>active_sessions := active_sessions u - 1\<rparr>) db))))"

definition merge_old_value :: "object_id_type \<times> 'p object \<Rightarrow> 'p undo_state \<Rightarrow> 'p undo_state" where
  "merge_old_value = (\<lambda>(_, ob) prev.
     if oid ob \<in> set (new_ids prev) then prev
     else if map_of (old_values prev) (oid ob) \<noteq> None then prev
     else prev\<lparr>old_values := AList.update (oid ob) ob (old_values prev)\<rparr>)"

definition merge_next_id :: "object_id_type \<times> object_id_type \<Rightarrow> 'p undo_state \<Rightarrow> 'p undo_state" where
  "merge_next_id = (\<lambda>(i, n) prev.
     if map_of (old_index_next_ids prev) i = None
     then prev\<lparr>old_index_next_ids := AList.update i n (old_index_next_ids prev)\<rparr> else prev)"

definition merge_removed :: "object_id_type \<times> 'p object \<Rightarrow> 'p undo_state \<Rightarrow> 'p undo_state" where
  "merge_removed = (\<lambda>(_, ob) prev.
     if oid ob \<in> set (new_ids prev) then prev\<lparr>new_ids := removeAll (oid ob) (new_ids prev)\<rparr>
     else case map_of (old_values prev) (oid ob) of
       Some old \<Rightarrow> prev\<lparr>removed := AList.update (oid ob) old (removed prev),
                         old_values := AList.delete (oid ob) (old_values prev)\<rparr>
     | None \<Rightarrow> prev\<lparr>removed := AList.update (oid ob) ob (removed prev)\<rparr>)"

definition merge_states :: "'p undo_state \<Rightarrow> 'p undo_state \<Rightarrow> 'p undo_state" where
  "merge_states prev st =
     (let prev = fold merge_old_value (old_values st) prev;
          prev = prev\<lparr>new_ids := fold List.insert (new_ids st) (new_ids prev)\<rparr>;
          prev = fold merge_next_id (old_index_next_ids st) prev
      in fold merge_removed (removed st) prev)"

definition merge :: "'p undo_database \<Rightarrow> 'p undo_database result" where
  "merge u =
     fc_assert (active_sessions u > 0) ''_active_sessions > 0''
    (if active_sessions u = 1 \<and> length (undo_stack u) = 1
     then Inr ((pop_back u)\<lparr>active_sessions := active_sessions u - 1\<rparr>)
     else fc_assert (length (undo_stack u) \<ge> 2) ''_stack.size() >=2''
       (let st = last (undo_stack u); below = butlast (undo_stack u)
        in Inr (u\<lparr>undo_stack := butlast below @ [merge_states (last below) st],
                 active_sessions := active_sessions u - 1\<rparr>)))"

definition commit :: "'p undo_database \<Rightarrow> 'p undo_database result" where
  "commit u = fc_assert (active_sessions u > 0) ''_active_sessions > 0''
     (Inr (u\<lparr>active_sessions := active_sessions u - 1\<rparr>))"

definition pop_commit :: "'p object_database \<Rightarrow> 'p object_database result" where
  "pop_commit db =
     fc_assert (active_sessions (undo_db db) = 0) ''_active_sessions == 0''
    (fc_assert (undo_stack (undo_db db) \<noteq> []) ''!_stack.empty()''
      (bindE (replay_backwards (last (undo_stack (undo_db db))) (with_undo disable db))
        (\<lambda>db. Inr (with_undo (\<lambda>u. enable (pop_back u)) db))))"

definition head :: "'p undo_database \<Rightarrow> 'p undo_state result" where
  "head u = fc_assert (undo_stack u \<noteq> []) ''!_stack.empty()'' (Inr (last (undo_stack u)))"

subsection \<open>The session handle\<close>

definition session_commit :: "session \<Rightarrow> 'p object_database \<Rightarrow> (session \<times> 'p object_database) result" where
  "session_commit s db = bindE (commit (undo_db db)) (\<lambda>u. Inr (s\<lparr>apply_undo := False\<rparr>, db\<lparr>undo_db := u\<rparr>))"

definition session_undo :: "session \<Rightarrow> 'p object_database \<Rightarrow> (session \<times> 'p object_database) result" where
  "session_undo s db =
     bindE (if apply_undo s then undo db else Inr db) (\<lambda>db. Inr (s\<lparr>apply_undo := False\<rparr>, db))"

definition session_merge :: "session \<Rightarrow> 'p object_database \<Rightarrow> (session \<times> 'p object_database) result" where
  "session_merge s db =
     bindE (if apply_undo s then bindE (merge (undo_db db)) (\<lambda>u. Inr (db\<lparr>undo_db := u\<rparr>)) else Inr db)
       (\<lambda>db. Inr (s\<lparr>apply_undo := False\<rparr>, db))"

definition session_destroy :: "session \<Rightarrow> 'p object_database \<Rightarrow> 'p object_database result" where
  "session_destroy s db =
     bindE (if apply_undo s then undo db else Inr db)
       (\<lambda>db. Inr (if disable_on_exit s then with_undo disable db else db))"

text \<open>
  The move constructor copies \<open>_apply_undo\<close> and clears it in the source; the new handle's
  \<open>_disable_on_exit\<close> is the member's default and the source keeps its own.
\<close>

definition session_move :: "session \<Rightarrow> session \<times> session" where
  "session_move mv = (\<lparr>apply_undo = apply_undo mv, disable_on_exit = False\<rparr>, mv\<lparr>apply_undo := False\<rparr>)"

text \<open>Move assignment to another handle; \<open>_disable_on_exit\<close> of both handles stays.\<close>

definition session_assign :: "session \<Rightarrow> session \<Rightarrow> 'p object_database \<Rightarrow> (session \<times> session \<times> 'p object_database) result" where
  "session_assign s mv db =
     bindE (if apply_undo s then undo db else Inr db)
       (\<lambda>db. Inr (s\<lparr>apply_undo := apply_undo mv\<rparr>, mv\<lparr>apply_undo := False\<rparr>, db))"

section \<open>Specification: snapshots\<close>

text \<open>
  A view is what the rest of the program can observe of the database: which object every identifier
  names, and the next identifier of every index. \<open>rewind st v\<close> is the view that undo state \<open>st\<close>
  stands for when the current view is \<open>v\<close>, and \<open>snapshots\<close> lists the views that the states of a
  stack stand for, the most recent first.
\<close>

record 'p view =
  v_obj :: "object_id_type \<Rightarrow> 'p object option"
  v_next :: "index_key \<Rightarrow> object_id_type option"

definition view_of :: "'p object_database \<Rightarrow> 'p view" where
  "view_of db = \<lparr>
     v_obj = (\<lambda>i. case indexes db (key_of_id i) of None \<Rightarrow> None | Some ix \<Rightarrow> cont_find (idx_objects ix) i),
     v_next = (\<lambda>k. map_option idx_next_id (indexes db k))\<rparr>"

definition next_of :: "'p undo_state \<Rightarrow> index_key \<Rightarrow> object_id_type option" where
  "next_of st k = map_of (old_index_next_ids st) (key_index_id k)"

definition rewind :: "'p undo_state \<Rightarrow> 'p view \<Rightarrow> 'p view" where
  "rewind st v = \<lparr>
     v_obj = (\<lambda>i. if i \<in> set (new_ids st) then None
        else case map_of (old_values st) i of Some ob \<Rightarrow> Some ob
        | None \<Rightarrow> (case map_of (removed st) i of Some ob \<Rightarrow> Some ob | None \<Rightarrow> v_obj v i)),
     v_next = (\<lambda>k. case next_of st k of Some n \<Rightarrow> Some n | None \<Rightarrow> v_next v k)\<rparr>"

fun snapshots :: "'p view \<Rightarrow> 'p undo_state list \<Rightarrow> 'p view list" where
  "snapshots v [] = []"
| "snapshots v (st # sts) = rewind st v # snapshots (rewind st v) sts"

definition saved_views :: "'p object_database \<Rightarrow> 'p view list" where
  "saved_views db = snapshots (view_of db) (rev (undo_stack (undo_db db)))"

text \<open>
  A view is well formed when objects sit under their own identifiers and every identifier in use is
  below the next identifier of its index. An undo state fits a view when its four parts describe a
  difference to another well-formed view.
\<close>

definition view_wf :: "'p view \<Rightarrow> bool" where
  "view_wf v \<longleftrightarrow>
     (\<forall>i ob. v_obj v i = Some ob \<longrightarrow> oid ob = i \<and> (\<exists>n. v_next v (key_of_id i) = Some n \<and> number i < number n)) \<and>
     (\<forall>k n. v_next v k = Some n \<longrightarrow> key_of_id n = k)"

definition keyed :: "(object_id_type \<times> 'p object) list \<Rightarrow> bool" where
  "keyed xs \<longleftrightarrow> distinct (map fst xs) \<and> (\<forall>i ob. map_of xs i = Some ob \<longrightarrow> oid ob = i)"

definition state_lists_ok :: "'p undo_state \<Rightarrow> bool" where
  "state_lists_ok st \<longleftrightarrow> keyed (old_values st) \<and> keyed (removed st) \<and>
     distinct (new_ids st) \<and> distinct (map fst (old_index_next_ids st)) \<and>
     (\<forall>i. map_of (old_index_next_ids st) i \<noteq> None \<longrightarrow> instance_of_id i = 0)"

definition state_fits :: "'p undo_state \<Rightarrow> 'p view \<Rightarrow> bool" where
  "state_fits st v \<longleftrightarrow> state_lists_ok st \<and>
     (\<forall>i \<in> set (new_ids st). v_obj v i \<noteq> None \<and> map_of (old_values st) i = None) \<and>
     (\<forall>i. map_of (old_values st) i \<noteq> None \<longrightarrow> v_obj v i \<noteq> None) \<and>
     (\<forall>i. map_of (removed st) i \<noteq> None \<longrightarrow> v_obj v i = None) \<and>
     (\<forall>k n. next_of st k = Some n \<longrightarrow> (\<exists>n'. v_next v k = Some n' \<and> number n \<le> number n')) \<and>
     (\<forall>i \<in> set (new_ids st). \<exists>n. next_of st (key_of_id i) = Some n \<and> number n \<le> number i) \<and>
     view_wf (rewind st v)"

fun stack_fits :: "'p view \<Rightarrow> 'p undo_state list \<Rightarrow> bool" where
  "stack_fits v [] \<longleftrightarrow> True"
| "stack_fits v (st # sts) \<longleftrightarrow> state_fits st v \<and> stack_fits (rewind st v) sts"

definition indexes_ok :: "'p object_database \<Rightarrow> bool" where
  "indexes_ok db \<longleftrightarrow> (\<forall>k ix. indexes db k = Some ix \<longrightarrow> cont_inv k (idx_objects ix))"

definition db_inv :: "'p object_database \<Rightarrow> bool" where
  "db_inv db \<longleftrightarrow> indexes_ok db \<and> view_wf (view_of db) \<and>
     stack_fits (view_of db) (rev (undo_stack (undo_db db))) \<and>
     (undo_disabled (undo_db db) \<longrightarrow> undo_stack (undo_db db) = [])"

section \<open>Recording keeps every snapshot\<close>

lemma keyed_update: "keyed xs \<Longrightarrow> oid ob = i \<Longrightarrow> keyed (AList.update i ob xs)"
  by (simp add: keyed_def distinct_update)

lemma keyed_delete: "keyed xs \<Longrightarrow> keyed (AList.delete i xs)"
  by (simp add: keyed_def distinct_delete)

lemma keyed_Cons: "keyed ((i, ob) # xs) \<longleftrightarrow> oid ob = i \<and> map_of xs i = None \<and> keyed xs"
proof (cases "map_of xs i")
  case None
  then have *: "map_of ((i, ob) # xs) j = Some o' \<longleftrightarrow> (j = i \<and> o' = ob) \<or> map_of xs j = Some o'" for j o'
    by auto
  from None show ?thesis unfolding keyed_def * by (simp add: map_of_eq_None_iff) blast
next
  case (Some o')
  then have "i \<in> fst ` set xs" by (metis map_of_eq_None_iff option.distinct(1))
  with Some show ?thesis by (simp add: keyed_def)
qed

lemma keyed_oid: "keyed xs \<Longrightarrow> map_of xs i = Some ob \<Longrightarrow> oid ob = i"
  by (simp add: keyed_def)

lemma rewind_empty [simp]: "rewind empty_undo_state v = v"
  by (simp add: rewind_def empty_undo_state_def next_of_def)

lemma state_fits_empty [simp]: "view_wf v \<Longrightarrow> state_fits empty_undo_state v"
  by (simp add: state_fits_def state_lists_ok_def) (simp add: empty_undo_state_def next_of_def keyed_def)

lemma next_of_update [simp]:
  "next_of (st\<lparr>old_index_next_ids := AList.update (key_index_id k) n xs\<rparr>) =
    (next_of (st\<lparr>old_index_next_ids := xs\<rparr>))(k \<mapsto> n)"
  by (rule ext) (simp add: next_of_def)

lemma next_of_frame [simp]:
  "next_of (st\<lparr>old_values := x\<rparr>) = next_of st"
  "next_of (st\<lparr>new_ids := y\<rparr>) = next_of st"
  "next_of (st\<lparr>removed := z\<rparr>) = next_of st"
  by (simp_all add: next_of_def fun_eq_iff)

lemma view_wfD:
  assumes "view_wf v" and "v_obj v i = Some ob"
  shows "oid ob = i" and "\<exists>n. v_next v (key_of_id i) = Some n \<and> number i < number n"
  using assms by (simp_all add: view_wf_def)

lemma fresh_next:
  assumes "view_wf v" and "v_next v (key_of_id i) = Some i"
  shows "v_obj v i = None"
proof (rule ccontr)
  assume "v_obj v i \<noteq> None"
  then obtain ob where "v_obj v i = Some ob" by blast
  from view_wfD(2) [OF assms(1) this] assms(2) show False by simp
qed

lemma state_fitsD:
  assumes "state_fits st v"
  shows "state_lists_ok st"
    and "i \<in> set (new_ids st) \<Longrightarrow> v_obj v i \<noteq> None \<and> map_of (old_values st) i = None"
    and "map_of (old_values st) i \<noteq> None \<Longrightarrow> v_obj v i \<noteq> None"
    and "map_of (removed st) i \<noteq> None \<Longrightarrow> v_obj v i = None"
    and "next_of st k = Some n \<Longrightarrow> \<exists>n'. v_next v k = Some n' \<and> number n \<le> number n'"
    and "i \<in> set (new_ids st) \<Longrightarrow> \<exists>n. next_of st (key_of_id i) = Some n \<and> number n \<le> number i"
    and "view_wf (rewind st v)"
  using assms unfolding state_fits_def by blast+

lemma state_fitsI:
  assumes "state_lists_ok st"
    and "\<And>i. i \<in> set (new_ids st) \<Longrightarrow> v_obj v i \<noteq> None \<and> map_of (old_values st) i = None"
    and "\<And>i. map_of (old_values st) i \<noteq> None \<Longrightarrow> v_obj v i \<noteq> None"
    and "\<And>i. map_of (removed st) i \<noteq> None \<Longrightarrow> v_obj v i = None"
    and "\<And>k n. next_of st k = Some n \<Longrightarrow> \<exists>n'. v_next v k = Some n' \<and> number n \<le> number n'"
    and "\<And>i. i \<in> set (new_ids st) \<Longrightarrow> \<exists>n. next_of st (key_of_id i) = Some n \<and> number n \<le> number i"
    and "view_wf (rewind st v)"
  shows "state_fits st v"
  using assms unfolding state_fits_def by blast

lemma fits_absent:
  assumes "state_fits st v" and "v_obj v i = None"
  shows "i \<notin> set (new_ids st)" and "map_of (old_values st) i = None"
  using state_fitsD(2,3) [OF assms(1)] assms(2) by blast+

lemma fits_present:
  assumes "state_fits st v" and "v_obj v i = Some ob"
  shows "map_of (removed st) i = None"
  using state_fitsD(4) [OF assms(1), of i] assms(2) by (metis option.distinct(1))

text \<open>An identifier at or above the next identifier of its index has not been removed before.\<close>

lemma fresh_not_removed:
  assumes "state_fits st v" and "v_next v (key_of_id i) = Some n" and "number n \<le> number i"
    and "i \<notin> set (new_ids st)" and "map_of (old_values st) i = None"
  shows "map_of (removed st) i = None"
proof (rule ccontr)
  assume "map_of (removed st) i \<noteq> None"
  then obtain ob where ob: "map_of (removed st) i = Some ob" by blast
  with assms(4,5) have "v_obj (rewind st v) i = Some ob" by (simp add: rewind_def)
  with view_wfD(2) [OF state_fitsD(7) [OF assms(1)]]
  obtain m where m: "v_next (rewind st v) (key_of_id i) = Some m" "number i < number m" by blast
  have "number m \<le> number n"
  proof (cases "next_of st (key_of_id i)")
    case None
    with m(1) assms(2) show ?thesis by (simp add: rewind_def)
  next
    case (Some m')
    with m(1) have "m' = m" by (simp add: rewind_def)
    with state_fitsD(5) [OF assms(1) Some] assms(2) show ?thesis by simp
  qed
  with m(2) assms(3) show False by simp
qed

lemma record_create_rewind:
  assumes fits: "state_fits st v" and wf: "view_wf v" and i: "v_next v (key_of_id i) = Some i"
    and v': "v_obj v' = (v_obj v)(i \<mapsto> ob)" "v_next v' = (v_next v)(key_of_id i \<mapsto> incr_id i)"
  shows "rewind (record_create (key_index_id (key_of_id i)) i st) v' = rewind st v"
proof -
  from fresh_next [OF wf i] have none: "v_obj v i = None" .
  note absent = fits_absent [OF fits none]
  have "map_of (removed st) i = None" by (rule fresh_not_removed [OF fits i order_refl absent])
  with none i v' absent show ?thesis
    by (auto simp: rewind_def record_create_def next_of_def fun_eq_iff split: option.splits)
qed

lemma record_create_fits:
  assumes fits: "state_fits st v" and wf: "view_wf v" and i: "v_next v (key_of_id i) = Some i"
    and v': "v_obj v' = (v_obj v)(i \<mapsto> ob)" "v_next v' = (v_next v)(key_of_id i \<mapsto> incr_id i)"
    and lt: "number i < number (incr_id i)"
  shows "state_fits (record_create (key_index_id (key_of_id i)) i st) v'"
proof -
  let ?st = "record_create (key_index_id (key_of_id i)) i st"
  have rw: "rewind ?st v' = rewind st v" by (rule record_create_rewind [OF fits wf i v'])
  from fresh_next [OF wf i] have none: "v_obj v i = None" .
  note absent = fits_absent [OF fits none]
  have rem: "map_of (removed st) i = None" by (rule fresh_not_removed [OF fits i order_refl absent])
  have nx: "next_of ?st k = (if k = key_of_id i \<and> next_of st k = None then Some i else next_of st k)" for k
    by (auto simp: record_create_def next_of_def)
  show ?thesis
  proof (rule state_fitsI)
    show "state_lists_ok ?st"
      using state_fitsD(1) [OF fits]
      by (auto simp: state_lists_ok_def record_create_def distinct_update)
    show "v_obj v' j \<noteq> None \<and> map_of (old_values ?st) j = None" if "j \<in> set (new_ids ?st)" for j
      using that state_fitsD(2) [OF fits, of j] absent by (auto simp: record_create_def v')
    show "v_obj v' j \<noteq> None" if "map_of (old_values ?st) j \<noteq> None" for j
      using that state_fitsD(3) [OF fits, of j] by (auto simp: record_create_def v')
    show "v_obj v' j = None" if "map_of (removed ?st) j \<noteq> None" for j
      using that state_fitsD(4) [OF fits, of j] rem by (auto simp: record_create_def v')
    show "\<exists>n'. v_next v' k = Some n' \<and> number n \<le> number n'" if "next_of ?st k = Some n" for k n
      using that state_fitsD(5) [OF fits, of k n] i lt by (auto simp: nx v' split: if_splits)
    show "\<exists>n. next_of ?st (key_of_id j) = Some n \<and> number n \<le> number j" if "j \<in> set (new_ids ?st)" for j
    proof (cases "j = i")
      case True
      show ?thesis
      proof (cases "next_of st (key_of_id i)")
        case None
        with True show ?thesis by (simp add: nx)
      next
        case (Some n)
        with state_fitsD(5) [OF fits Some] i True show ?thesis by (auto simp: nx)
      qed
    next
      case False
      with that have "j \<in> set (new_ids st)" by (simp add: record_create_def)
      from state_fitsD(6) [OF fits this] show ?thesis by (auto simp: nx)
    qed
    show "view_wf (rewind ?st v')"
      using state_fitsD(7) [OF fits] by (simp add: rw)
  qed
qed

lemma record_modify_fits:
  assumes fits: "state_fits st v" and ob: "v_obj v i = Some ob" "oid ob = i"
    and v': "v_obj v' = (v_obj v)(i \<mapsto> ob')" "v_next v' = v_next v"
  shows "rewind (record_modify ob st) v' = rewind st v" and "state_fits (record_modify ob st) v'"
proof -
  let ?st = "record_modify ob st"
  have rem: "map_of (removed st) i = None" by (rule fits_present [OF fits ob(1)])
  show rw: "rewind ?st v' = rewind st v"
    using rem ob v' by (auto simp: rewind_def record_modify_def fun_eq_iff split: option.splits)
  show "state_fits ?st v'"
  proof (rule state_fitsI)
    show "state_lists_ok ?st"
      using state_fitsD(1) [OF fits] ob
      by (auto simp: state_lists_ok_def record_modify_def keyed_update)
    show "v_obj v' j \<noteq> None \<and> map_of (old_values ?st) j = None" if "j \<in> set (new_ids ?st)" for j
      using that state_fitsD(2) [OF fits, of j] ob by (auto simp: record_modify_def v' split: if_splits)
    show "v_obj v' j \<noteq> None" if "map_of (old_values ?st) j \<noteq> None" for j
      using that state_fitsD(3) [OF fits, of j] ob by (auto simp: record_modify_def v' split: if_splits)
    show "v_obj v' j = None" if "map_of (removed ?st) j \<noteq> None" for j
      using that state_fitsD(4) [OF fits, of j] rem by (auto simp: record_modify_def v' split: if_splits)
    show "\<exists>n'. v_next v' k = Some n' \<and> number n \<le> number n'" if "next_of ?st k = Some n" for k n
      using that state_fitsD(5) [OF fits, of k n] by (auto simp: record_modify_def v' split: if_splits)
    show "\<exists>n. next_of ?st (key_of_id j) = Some n \<and> number n \<le> number j" if "j \<in> set (new_ids ?st)" for j
      using that state_fitsD(6) [OF fits, of j] by (auto simp: record_modify_def split: if_splits)
    show "view_wf (rewind ?st v')" using state_fitsD(7) [OF fits] by (simp add: rw)
  qed
qed

lemma record_remove_fits:
  assumes fits: "state_fits st v" and ob: "v_obj v i = Some ob" "oid ob = i"
    and v': "v_obj v' = (v_obj v)(i := None)" "v_next v' = v_next v"
  shows "rewind (record_remove ob st) v' = rewind st v" and "state_fits (record_remove ob st) v'"
proof -
  let ?st = "record_remove ob st"
  have rem: "map_of (removed st) i = None" by (rule fits_present [OF fits ob(1)])
  have new: "i \<in> set (new_ids st) \<Longrightarrow> map_of (old_values st) i = None"
    using state_fitsD(2) [OF fits, of i] by blast
  show rw: "rewind ?st v' = rewind st v"
    using rem new ob v' by (auto simp: rewind_def record_remove_def fun_eq_iff split: option.splits)
  note splits = if_splits option.splits
  show "state_fits ?st v'"
  proof (rule state_fitsI)
    show "state_lists_ok ?st"
      using state_fitsD(1) [OF fits] ob
      by (auto simp: state_lists_ok_def record_remove_def keyed_update keyed_delete keyed_oid distinct_removeAll split: option.splits)
    show "v_obj v' j \<noteq> None \<and> map_of (old_values ?st) j = None" if "j \<in> set (new_ids ?st)" for j
      using that state_fitsD(2) [OF fits, of j] ob by (auto simp: record_remove_def v' split: splits)
    show "v_obj v' j \<noteq> None" if "map_of (old_values ?st) j \<noteq> None" for j
      using that state_fitsD(3) [OF fits, of j] ob new by (auto simp: record_remove_def v' split: splits)
    show "v_obj v' j = None" if "map_of (removed ?st) j \<noteq> None" for j
      using that state_fitsD(4) [OF fits, of j] rem ob by (auto simp: record_remove_def v' split: splits)
    show "\<exists>n'. v_next v' k = Some n' \<and> number n \<le> number n'" if "next_of ?st k = Some n" for k n
      using that state_fitsD(5) [OF fits, of k n] by (auto simp: record_remove_def v' split: splits)
    show "\<exists>n. next_of ?st (key_of_id j) = Some n \<and> number n \<le> number j" if "j \<in> set (new_ids ?st)" for j
      using that state_fitsD(6) [OF fits, of j] by (auto simp: record_remove_def split: splits)
    show "view_wf (rewind ?st v')" using state_fitsD(7) [OF fits] by (simp add: rw)
  qed
qed

section \<open>Merging two states composes them\<close>

lemma fold_merge_old_value:
  assumes "keyed xs" and "keyed (old_values prev)"
  shows "\<exists>ys. fold merge_old_value xs prev = prev\<lparr>old_values := ys\<rparr> \<and> keyed ys \<and>
    map_of ys = (\<lambda>i. if i \<in> set (new_ids prev) \<or> map_of (old_values prev) i \<noteq> None
      then map_of (old_values prev) i else map_of xs i)"
  using assms
proof (induction xs arbitrary: prev)
  case Nil
  then show ?case by (intro exI [of _ "old_values prev"]) (auto simp: fun_eq_iff)
next
  case (Cons x xs)
  obtain j ob where x: "x = (j, ob)" by fastforce
  from Cons.prems(1) have j: "oid ob = j" "map_of xs j = None" "keyed xs"
    by (simp_all add: x keyed_Cons)
  define zs where "zs = (if j \<in> set (new_ids prev) \<or> map_of (old_values prev) j \<noteq> None
    then old_values prev else AList.update j ob (old_values prev))"
  have step: "merge_old_value x prev = prev\<lparr>old_values := zs\<rparr>"
    by (simp add: merge_old_value_def x j zs_def)
  have zs: "keyed zs" using Cons.prems(2) j by (simp add: zs_def keyed_update)
  from Cons.IH [OF j(3), of "prev\<lparr>old_values := zs\<rparr>"] zs
  obtain ys where ys: "fold merge_old_value xs (prev\<lparr>old_values := zs\<rparr>) = prev\<lparr>old_values := ys\<rparr>" "keyed ys"
    "map_of ys = (\<lambda>i. if i \<in> set (new_ids prev) \<or> map_of zs i \<noteq> None then map_of zs i else map_of xs i)"
    by (auto cong: if_cong option.case_cong)
  have "map_of ys i = (if i \<in> set (new_ids prev) \<or> map_of (old_values prev) i \<noteq> None
      then map_of (old_values prev) i else map_of (x # xs) i)" for i
    using j by (auto simp: ys(3) zs_def x)
  with ys show ?case by (intro exI [of _ ys]) (auto simp: step)
qed

lemma fold_merge_next_id:
  assumes "distinct (map fst xs)" and "distinct (map fst (old_index_next_ids prev))"
  shows "\<exists>ys. fold merge_next_id xs prev = prev\<lparr>old_index_next_ids := ys\<rparr> \<and> distinct (map fst ys) \<and>
    map_of ys = (\<lambda>i. case map_of (old_index_next_ids prev) i of Some n \<Rightarrow> Some n | None \<Rightarrow> map_of xs i)"
  using assms
proof (induction xs arbitrary: prev)
  case Nil
  then show ?case by (intro exI [of _ "old_index_next_ids prev"]) (auto simp: fun_eq_iff split: option.splits)
next
  case (Cons x xs)
  obtain j n where x: "x = (j, n)" by fastforce
  from Cons.prems(1) have d: "distinct (map fst xs)" "map_of xs j = None"
    by (simp_all add: x map_of_eq_None_iff)
  define zs where "zs = (if map_of (old_index_next_ids prev) j = None
    then AList.update j n (old_index_next_ids prev) else old_index_next_ids prev)"
  have step: "merge_next_id x prev = prev\<lparr>old_index_next_ids := zs\<rparr>"
    by (simp add: merge_next_id_def x zs_def)
  have zs: "distinct (map fst zs)" using Cons.prems(2) by (simp add: zs_def distinct_update)
  from Cons.IH [OF d(1), of "prev\<lparr>old_index_next_ids := zs\<rparr>"] zs
  obtain ys where ys: "fold merge_next_id xs (prev\<lparr>old_index_next_ids := zs\<rparr>) = prev\<lparr>old_index_next_ids := ys\<rparr>"
    "distinct (map fst ys)" "map_of ys = (\<lambda>i. case map_of zs i of Some n \<Rightarrow> Some n | None \<Rightarrow> map_of xs i)"
    by (auto cong: if_cong option.case_cong)
  have "map_of ys i = (case map_of (old_index_next_ids prev) i of Some n \<Rightarrow> Some n | None \<Rightarrow> map_of (x # xs) i)" for i
    using d by (auto simp: ys(3) zs_def x split: option.splits)
  with ys show ?case by (intro exI [of _ ys]) (auto simp: step)
qed

lemma fold_merge_removed:
  assumes "keyed xs" and "keyed (old_values prev)" and "keyed (removed prev)" and "distinct (new_ids prev)"
  shows "\<exists>os ns rs. fold merge_removed xs prev = prev\<lparr>old_values := os, new_ids := ns, removed := rs\<rparr> \<and>
    keyed os \<and> keyed rs \<and> distinct ns \<and>
    set ns = {i \<in> set (new_ids prev). map_of xs i = None} \<and>
    map_of os = (\<lambda>i. if map_of xs i \<noteq> None \<and> i \<notin> set (new_ids prev) then None else map_of (old_values prev) i) \<and>
    map_of rs = (\<lambda>i. if map_of xs i \<noteq> None \<and> i \<notin> set (new_ids prev)
      then (case map_of (old_values prev) i of Some ob \<Rightarrow> Some ob | None \<Rightarrow> map_of xs i) else map_of (removed prev) i)"
  using assms
proof (induction xs arbitrary: prev)
  case Nil
  then show ?case
    by (intro exI [of _ "old_values prev"] exI [of _ "new_ids prev"] exI [of _ "removed prev"]) auto
next
  case (Cons x xs)
  obtain j ob where x: "x = (j, ob)" by fastforce
  from Cons.prems(1) have j: "oid ob = j" "map_of xs j = None" "keyed xs"
    by (simp_all add: x keyed_Cons)
  define nw ov rm where "nw = new_ids prev" and "ov = old_values prev" and "rm = removed prev"
  define n1 o1 r1 where "n1 = removeAll j nw" and "o1 = (if j \<in> set nw then ov else AList.delete j ov)"
    and "r1 = (if j \<in> set nw then rm else AList.update j (case map_of ov j of Some old \<Rightarrow> old | None \<Rightarrow> ob) rm)"
  have step: "\<exists>o2. merge_removed x prev = prev\<lparr>old_values := o2, new_ids := n1, removed := r1\<rparr> \<and> keyed o2 \<and> map_of o2 = map_of o1"
  proof -
    let ?o2 = "if j \<in> set nw \<or> map_of ov j = None then ov else AList.delete j ov"
    have "merge_removed x prev = prev\<lparr>old_values := ?o2, new_ids := n1, removed := r1\<rparr>"
      by (auto simp: merge_removed_def x j n1_def r1_def nw_def ov_def rm_def split: option.splits)
    moreover have "keyed ?o2" using Cons.prems(2) by (simp add: ov_def keyed_delete)
    moreover have "map_of ?o2 = map_of o1" by (auto simp: o1_def fun_eq_iff)
    ultimately show ?thesis by blast
  qed
  then obtain o2 where o2: "merge_removed x prev = prev\<lparr>old_values := o2, new_ids := n1, removed := r1\<rparr>"
    "keyed o2" "map_of o2 = map_of o1" by blast
  have r1: "keyed r1"
    using Cons.prems(2,3) j by (auto simp: r1_def ov_def rm_def keyed_update keyed_oid split: option.splits)
  have n1: "distinct n1" using Cons.prems(4) by (simp add: n1_def nw_def distinct_removeAll)
  from Cons.IH [OF j(3), of "prev\<lparr>old_values := o2, new_ids := n1, removed := r1\<rparr>"] o2(2) r1 n1
  obtain os ns rs where res: "fold merge_removed (x # xs) prev = prev\<lparr>old_values := os, new_ids := ns, removed := rs\<rparr>"
    "keyed os" "keyed rs" "distinct ns" "set ns = {i \<in> set n1. map_of xs i = None}"
    "map_of os = (\<lambda>i. if map_of xs i \<noteq> None \<and> i \<notin> set n1 then None else map_of o1 i)"
    "map_of rs = (\<lambda>i. if map_of xs i \<noteq> None \<and> i \<notin> set n1
      then (case map_of o1 i of Some ob \<Rightarrow> Some ob | None \<Rightarrow> map_of xs i) else map_of r1 i)"
    unfolding fold_Cons comp_apply o2(1) by (auto simp: o2(3) cong: if_cong option.case_cong)
  have "set ns = {i \<in> set (new_ids prev). map_of (x # xs) i = None}"
    using j by (auto simp: res(5) n1_def nw_def x)
  moreover have "map_of os i = (if map_of (x # xs) i \<noteq> None \<and> i \<notin> set (new_ids prev) then None
      else map_of (old_values prev) i)" for i
    using j unfolding res(6) n1_def o1_def nw_def ov_def x by (cases "i = j") auto
  moreover have "map_of rs i = (if map_of (x # xs) i \<noteq> None \<and> i \<notin> set (new_ids prev)
      then (case map_of (old_values prev) i of Some ob \<Rightarrow> Some ob | None \<Rightarrow> map_of (x # xs) i)
      else map_of (removed prev) i)" for i
    using j unfolding res(7) n1_def o1_def r1_def nw_def ov_def rm_def x
    by (cases "i = j") (auto split: option.splits)
  ultimately show ?case using res(1-4) by (intro exI [of _ os] exI [of _ ns] exI [of _ rs]) (auto simp del: map_of.simps)
qed

lemma fold_insert_new_ids:
  "set (fold List.insert xs ys) = set xs \<union> set ys"
  "distinct ys \<Longrightarrow> distinct (fold List.insert xs ys)"
  by (induction xs arbitrary: ys) auto

lemma merge_states_fields:
  assumes A: "state_lists_ok A" and B: "state_lists_ok B"
  defines "M \<equiv> merge_states A B"
  defines "old1 \<equiv> \<lambda>i. if i \<in> set (new_ids A) \<or> map_of (old_values A) i \<noteq> None
    then map_of (old_values A) i else map_of (old_values B) i"
  shows "state_lists_ok M"
    and "set (new_ids M) = {i \<in> set (new_ids B) \<union> set (new_ids A). map_of (removed B) i = None}"
    and "map_of (old_values M) i =
      (if map_of (removed B) i \<noteq> None \<and> i \<notin> set (new_ids B) \<union> set (new_ids A) then None else old1 i)"
    and "map_of (removed M) i = (if map_of (removed B) i \<noteq> None \<and> i \<notin> set (new_ids B) \<union> set (new_ids A)
      then (case old1 i of Some ob \<Rightarrow> Some ob | None \<Rightarrow> map_of (removed B) i) else map_of (removed A) i)"
    and "next_of M k = (case next_of A k of Some n \<Rightarrow> Some n | None \<Rightarrow> next_of B k)"
proof -
  from A have kA: "keyed (old_values A)" "keyed (removed A)" "distinct (new_ids A)"
    "distinct (map fst (old_index_next_ids A))" by (simp_all add: state_lists_ok_def)
  from B have kB: "keyed (old_values B)" "keyed (removed B)" "distinct (new_ids B)"
    "distinct (map fst (old_index_next_ids B))" by (simp_all add: state_lists_ok_def)
  let ?ns = "fold List.insert (new_ids B) (new_ids A)"
  obtain os1 where os1: "fold merge_old_value (old_values B) A = A\<lparr>old_values := os1\<rparr>" "keyed os1" "map_of os1 = old1"
    using fold_merge_old_value [OF kB(1) kA(1)] unfolding old1_def by blast
  have d2: "distinct (map fst (old_index_next_ids (A\<lparr>old_values := os1, new_ids := ?ns\<rparr>)))" using kA by simp
  obtain nx where nx: "fold merge_next_id (old_index_next_ids B) (A\<lparr>old_values := os1, new_ids := ?ns\<rparr>) =
      A\<lparr>old_values := os1, new_ids := ?ns, old_index_next_ids := nx\<rparr>" "distinct (map fst nx)"
    "map_of nx = (\<lambda>i. case map_of (old_index_next_ids A) i of Some n \<Rightarrow> Some n | None \<Rightarrow> map_of (old_index_next_ids B) i)"
    using fold_merge_next_id [OF kB(4) d2] by auto
  let ?p = "A\<lparr>old_values := os1, new_ids := ?ns, old_index_next_ids := nx\<rparr>"
  have d3: "keyed (old_values ?p)" "keyed (removed ?p)" "distinct (new_ids ?p)"
    using os1 kA fold_insert_new_ids(2) by simp_all
  obtain os2 ns2 rs2 where r: "fold merge_removed (removed B) ?p = ?p\<lparr>old_values := os2, new_ids := ns2, removed := rs2\<rparr>"
    "keyed os2" "keyed rs2" "distinct ns2"
    "set ns2 = {i \<in> set (new_ids ?p). map_of (removed B) i = None}"
    "map_of os2 = (\<lambda>i. if map_of (removed B) i \<noteq> None \<and> i \<notin> set (new_ids ?p) then None else map_of (old_values ?p) i)"
    "map_of rs2 = (\<lambda>i. if map_of (removed B) i \<noteq> None \<and> i \<notin> set (new_ids ?p)
      then (case map_of (old_values ?p) i of Some ob \<Rightarrow> Some ob | None \<Rightarrow> map_of (removed B) i) else map_of (removed ?p) i)"
    using fold_merge_removed [OF kB(2) d3] by blast
  have M: "M = ?p\<lparr>old_values := os2, new_ids := ns2, removed := rs2\<rparr>"
    unfolding M_def merge_states_def Let_def os1(1) r(1) [symmetric] by (simp add: nx(1))
  have "instance_of_id i = 0" if "map_of nx i \<noteq> None" for i
    using that A B by (auto simp: nx(3) state_lists_ok_def split: option.splits)
  then show "state_lists_ok M" using r nx(2) by (simp add: M state_lists_ok_def)
  show "set (new_ids M) = {i \<in> set (new_ids B) \<union> set (new_ids A). map_of (removed B) i = None}"
    using r(5) by (simp add: M fold_insert_new_ids(1))
  show "map_of (old_values M) i =
      (if map_of (removed B) i \<noteq> None \<and> i \<notin> set (new_ids B) \<union> set (new_ids A) then None else old1 i)"
    by (simp add: M r(6) os1(3) fold_insert_new_ids(1))
  show "map_of (removed M) i = (if map_of (removed B) i \<noteq> None \<and> i \<notin> set (new_ids B) \<union> set (new_ids A)
      then (case old1 i of Some ob \<Rightarrow> Some ob | None \<Rightarrow> map_of (removed B) i) else map_of (removed A) i)"
    by (simp add: M r(7) os1(3) fold_insert_new_ids(1))
  show "next_of M k = (case next_of A k of Some n \<Rightarrow> Some n | None \<Rightarrow> next_of B k)"
    by (simp add: M next_of_def nx(3) cong: option.case_cong)
qed

text \<open>An identifier that the upper state created was never known to the lower one.\<close>

lemma rewind_obj:
  "v_obj (rewind st v) i = (if i \<in> set (new_ids st) then None
     else case map_of (old_values st) i of Some ob \<Rightarrow> Some ob
     | None \<Rightarrow> (case map_of (removed st) i of Some ob \<Rightarrow> Some ob | None \<Rightarrow> v_obj v i))"
  by (simp add: rewind_def)

lemma rewind_next:
  "v_next (rewind st v) k = (case next_of st k of Some n \<Rightarrow> Some n | None \<Rightarrow> v_next v k)"
  by (simp add: rewind_def)

lemma created_above_unknown_below:
  assumes B: "state_fits B v" and A: "state_fits A (rewind B v)" and i: "i \<in> set (new_ids B)"
  shows "i \<notin> set (new_ids A)" and "map_of (old_values A) i = None" and "map_of (removed A) i = None"
    and "map_of (old_values B) i = None" and "map_of (removed B) i = None" and "v_obj v i \<noteq> None"
proof -
  have w: "v_obj (rewind B v) i = None" using i by (simp add: rewind_obj)
  show a: "i \<notin> set (new_ids A)" "map_of (old_values A) i = None"
    using fits_absent [OF A w] by blast+
  from state_fitsD(6) [OF B i] obtain n where n: "next_of B (key_of_id i) = Some n" "number n \<le> number i" by blast
  then have "v_next (rewind B v) (key_of_id i) = Some n" by (simp add: rewind_next)
  from fresh_not_removed [OF A this n(2) a] show "map_of (removed A) i = None" .
  show b: "map_of (old_values B) i = None" "v_obj v i \<noteq> None" using state_fitsD(2) [OF B i] by blast+
  then show "map_of (removed B) i = None" using fits_present [OF B] by blast
qed

lemma merge_rewind_obj:
  assumes B: "state_fits B v" and A: "state_fits A (rewind B v)"
  shows "v_obj (rewind (merge_states A B) v) i = v_obj (rewind A (rewind B v)) i"
proof -
  note fields = merge_states_fields [OF state_fitsD(1) [OF A] state_fitsD(1) [OF B]]
  note above = created_above_unknown_below [OF B A, of i]
  have a2: "i \<in> set (new_ids A) \<Longrightarrow> v_obj (rewind B v) i \<noteq> None \<and> map_of (old_values A) i = None"
    by (rule state_fitsD(2) [OF A])
  have a3: "map_of (old_values A) i \<noteq> None \<Longrightarrow> v_obj (rewind B v) i \<noteq> None" by (rule state_fitsD(3) [OF A])
  have a4: "map_of (removed A) i \<noteq> None \<Longrightarrow> v_obj (rewind B v) i = None" by (rule state_fitsD(4) [OF A])
  have b3: "map_of (old_values B) i \<noteq> None \<Longrightarrow> v_obj v i \<noteq> None" by (rule state_fitsD(3) [OF B])
  have b4: "map_of (removed B) i \<noteq> None \<Longrightarrow> v_obj v i = None" by (rule state_fitsD(4) [OF B])
  show ?thesis
  proof (cases "i \<in> set (new_ids B)")
    case True
    with above [OF True] show ?thesis by (simp add: rewind_obj fields)
  next
    case False
    with a2 a3 a4 b3 b4 show ?thesis
      by (auto simp: rewind_obj fields split: option.splits if_splits)
  qed
qed

lemma merge_rewind:
  assumes B: "state_fits B v" and A: "state_fits A (rewind B v)"
  shows "rewind (merge_states A B) v = rewind A (rewind B v)"
proof -
  have "v_obj (rewind (merge_states A B) v) = v_obj (rewind A (rewind B v))"
    by (rule ext) (rule merge_rewind_obj [OF B A])
  moreover have "v_next (rewind (merge_states A B) v) = v_next (rewind A (rewind B v))"
    by (rule ext) (simp add: rewind_next split: option.splits
        add: merge_states_fields(5) [OF state_fitsD(1) [OF A] state_fitsD(1) [OF B]])
  ultimately show ?thesis by (simp add: rewind_def)
qed

lemma merge_fits:
  assumes B: "state_fits B v" and A: "state_fits A (rewind B v)"
  shows "state_fits (merge_states A B) v"
proof (rule state_fitsI)
  let ?M = "merge_states A B"
  note fields = merge_states_fields [OF state_fitsD(1) [OF A] state_fitsD(1) [OF B]]
  note above = created_above_unknown_below [OF B A]
  note A2 = state_fitsD(2) [OF A] and A3 = state_fitsD(3) [OF A] and A4 = state_fitsD(4) [OF A]
  note B3 = state_fitsD(3) [OF B] and B4 = state_fitsD(4) [OF B]
  show "state_lists_ok ?M" by (rule fields(1))
  show "v_obj v i \<noteq> None \<and> map_of (old_values ?M) i = None" if i: "i \<in> set (new_ids ?M)" for i
  proof (cases "i \<in> set (new_ids B)")
    case True
    with above [OF True] show ?thesis by (simp add: fields)
  next
    case False
    with i have "i \<in> set (new_ids A)" "map_of (removed B) i = None" by (auto simp: fields)
    with False A2 [of i] B3 [of i] show ?thesis by (auto simp: fields rewind_obj split: option.splits)
  qed
  show "v_obj v i \<noteq> None" if i: "map_of (old_values ?M) i \<noteq> None" for i
  proof (cases "i \<in> set (new_ids B)")
    case True
    then show ?thesis by (rule above(6))
  next
    case False
    with i A2 [of i] A3 [of i] B3 [of i] show ?thesis
      by (auto simp: fields rewind_obj split: option.splits if_splits)
  qed
  show "v_obj v i = None" if i: "map_of (removed ?M) i \<noteq> None" for i
  proof (cases "i \<in> set (new_ids B)")
    case True
    with above [OF True] i show ?thesis by (simp add: fields)
  next
    case False
    with i A4 [of i] B4 [of i] show ?thesis
      by (auto simp: fields rewind_obj split: option.splits if_splits)
  qed
  show "\<exists>n'. v_next v k = Some n' \<and> number n \<le> number n'" if n: "next_of ?M k = Some n" for k n
    using n state_fitsD(5) [OF A, of k n] state_fitsD(5) [OF B, of k]
    by (fastforce simp: fields rewind_next split: option.splits)
  show "\<exists>n. next_of ?M (key_of_id i) = Some n \<and> number n \<le> number i" if i: "i \<in> set (new_ids ?M)" for i
  proof (cases "i \<in> set (new_ids B)")
    case True
    from state_fitsD(6) [OF B this] obtain n where n: "next_of B (key_of_id i) = Some n" "number n \<le> number i" by blast
    with state_fitsD(5) [OF A, of "key_of_id i"] show ?thesis
      by (fastforce simp: fields rewind_next split: option.splits)
  next
    case False
    with i have "i \<in> set (new_ids A)" by (auto simp: fields)
    from state_fitsD(6) [OF A this] show ?thesis by (auto simp: fields)
  qed
  show "view_wf (rewind ?M v)" using state_fitsD(7) [OF A] by (simp add: merge_rewind [OF B A])
qed

end
