(* ===== verification/Undo_Correct.thy ===== *)
theory Undo_Correct
  imports Undo_Database
begin

text \<open>
  Correctness of the object database and of its undo log: what every operation does to the view,
  that recording keeps the stack of snapshots, that replaying a state backwards succeeds and
  restores its snapshot, and the properties of sessions that follow.
\<close>

section \<open>Operations on views\<close>

definition clash_of :: "'p object_database \<Rightarrow> index_key \<Rightarrow> 'p clash option" where
  "clash_of db k = map_option idx_clash (indexes db k)"

lemma set_index_view:
  "v_obj (view_of (set_index k ix db)) i = (if key_of_id i = k then cont_find (idx_objects ix) i else v_obj (view_of db) i)"
  "v_next (view_of (set_index k ix db)) = (v_next (view_of db))(k \<mapsto> idx_next_id ix)"
  "clash_of (set_index k ix db) = (clash_of db)(k \<mapsto> idx_clash ix)"
  "undo_db (set_index k ix db) = undo_db db"
  by (auto simp: set_index_def view_of_def clash_of_def fun_eq_iff)

lemma undo_db_view [simp]:
  "view_of (db\<lparr>undo_db := u\<rparr>) = view_of db"
  "clash_of (db\<lparr>undo_db := u\<rparr>) = clash_of db"
  "indexes_ok (db\<lparr>undo_db := u\<rparr>) = indexes_ok db"
  by (simp_all add: view_of_def clash_of_def indexes_ok_def fun_eq_iff)

lemma indexes_okD: "indexes_ok db \<Longrightarrow> indexes db k = Some ix \<Longrightarrow> cont_inv k (idx_objects ix)"
  unfolding indexes_ok_def by blast

lemma view_wf_next: "view_wf v \<Longrightarrow> v_next v k = Some n \<Longrightarrow> key_of_id n = k"
  unfolding view_wf_def by blast

lemma indexes_ok_set_index:
  "indexes_ok db \<Longrightarrow> cont_inv k (idx_objects ix) \<Longrightarrow> indexes_ok (set_index k ix db)"
  by (simp add: indexes_ok_def set_index_def)

lemma view_objD:
  assumes "v_obj (view_of db) i = Some ob"
  obtains ix where "indexes db (key_of_id i) = Some ix" and "cont_find (idx_objects ix) i = Some ob"
  using assms by (auto simp: view_of_def split: option.splits)

lemma view_obj_index:
  "indexes db k = Some ix \<Longrightarrow> key_of_id i = k \<Longrightarrow> v_obj (view_of db) i = cont_find (idx_objects ix) i"
  by (simp add: view_of_def)

lemma view_obj_oid: "indexes_ok db \<Longrightarrow> v_obj (view_of db) i = Some ob \<Longrightarrow> oid ob = i"
  by (erule view_objD) (rule cont.found [OF indexes_okD], assumption+, simp_all)

lemma get_object_view:
  "v_obj (view_of db) i = Some ob \<Longrightarrow> get_object i db = Inr ob"
  by (erule view_objD) (simp add: get_object_def find_object_def get_index_def)

lemma get_object_eq:
  "get_object i db = Inr ob \<longleftrightarrow> v_obj (view_of db) i = Some ob"
  by (auto simp: get_object_def find_object_def get_index_def view_of_def result_simps split: option.splits)

lemma db_create_view:
  assumes ok: "indexes_ok db" and wf: "view_wf (view_of db)"
    and f: "\<And>x. oid (f x) = oid x" and run: "db_create k f db = Inr (db', ob)"
  obtains i where "v_next (view_of db) k = Some i" and "key_of_id i = k" and "oid ob = i"
    and "indexes_ok db'" and "clash_of db' = clash_of db"
    and "v_obj (view_of db') = (v_obj (view_of db))(i \<mapsto> ob)"
    and "v_next (view_of db') = (v_next (view_of db))(k \<mapsto> incr_id i)"
    and "on_create ob (undo_db db) = Inr (undo_db db')"
proof -
  from run obtain ix c u where ix: "indexes db k = Some ix"
    and c: "cont_create (idx_clash ix) (idx_default ix) (idx_next_id ix) f (idx_objects ix) = Inr (c, ob)"
    and u: "on_create ob (undo_db db) = Inr u"
    and db': "db' = (set_index k (ix\<lparr>idx_objects := c, idx_next_id := incr_id (idx_next_id ix)\<rparr>) db)\<lparr>undo_db := u\<rparr>"
    by (auto simp: db_create_def get_index_def Let_def result_simps set_index_view split: prod.splits)
  let ?i = "idx_next_id ix"
  have next_i: "v_next (view_of db) k = Some ?i" using ix by (simp add: view_of_def)
  then have key: "key_of_id ?i = k" by (rule view_wf_next [OF wf])
  have inv: "cont_inv k (idx_objects ix)" by (rule indexes_okD [OF ok]) (simp add: ix)
  have none: "cont_find (idx_objects ix) ?i = None"
    using fresh_next [OF wf, of ?i] next_i key view_obj_index [OF ix key] by simp
  have law: "ob = f \<lparr>oid = ?i, contents = idx_default ix\<rparr> \<and> cont_inv k c \<and>
      (\<forall>j. key_of_id j = k \<longrightarrow> cont_find c j = (if j = ?i then Some ob else cont_find (idx_objects ix) j))"
    by (rule cont.create [OF inv key none _ c]) (simp add: f)
  show ?thesis
  proof (rule that [OF next_i key])
    show "oid ob = ?i" using law f by simp
    show "indexes_ok db'" using ok law by (simp add: db' indexes_ok_set_index)
    show "clash_of db' = clash_of db" using ix by (auto simp: db' set_index_view clash_of_def)
    show "v_obj (view_of db') = (v_obj (view_of db))(?i \<mapsto> ob)"
      using law key by (auto simp: db' set_index_view view_obj_index [OF ix] fun_eq_iff)
    show "v_next (view_of db') = (v_next (view_of db))(k \<mapsto> incr_id ?i)" by (simp add: db' set_index_view)
    show "on_create ob (undo_db db) = Inr (undo_db db')" using u by (simp add: db')
  qed
qed

lemma db_modify_view:
  assumes ok: "indexes_ok db" and run: "db_modify i m db = Inr db'"
    and ob: "v_obj (view_of db) i = Some ob" and m: "oid (m ob) = i"
  shows "indexes_ok db' \<and> clash_of db' = clash_of db \<and>
    v_obj (view_of db') = (v_obj (view_of db))(i \<mapsto> m ob) \<and> v_next (view_of db') = v_next (view_of db) \<and>
    undo_db db' = on_modify ob (undo_db db)"
proof -
  from ob obtain ix where ix: "indexes db (key_of_id i) = Some ix" "cont_find (idx_objects ix) i = Some ob"
    by (rule view_objD)
  with run get_object_view [OF ob] obtain c where c: "cont_modify (idx_clash ix) i m (idx_objects ix) = Inr c"
    and db': "db' = (set_index (key_of_id i) (ix\<lparr>idx_objects := c\<rparr>) db)\<lparr>undo_db := on_modify ob (undo_db db)\<rparr>"
    by (auto simp: db_modify_def get_index_def Let_def result_simps)
  have inv: "cont_inv (key_of_id i) (idx_objects ix)" by (rule indexes_okD [OF ok]) (simp add: ix)
  note law = cont.modify [OF inv refl ix(2) m c]
  have "v_obj (view_of db') = (v_obj (view_of db))(i \<mapsto> m ob)"
    using law by (auto simp: db' set_index_view view_obj_index [OF ix(1)] fun_eq_iff)
  moreover have "v_next (view_of db') = v_next (view_of db)"
    using ix by (auto simp: db' set_index_view) (auto simp: view_of_def)
  moreover have "clash_of db' = clash_of db" using ix by (auto simp: db' set_index_view clash_of_def)
  ultimately show ?thesis using ok law by (simp add: db' indexes_ok_set_index)
qed

lemma db_modify_succeeds:
  assumes ok: "indexes_ok db" and ob: "v_obj (view_of db) i = Some ob" and m: "oid (m ob) = i"
    and no: "\<And>c j o'. clash_of db (key_of_id i) = Some c \<Longrightarrow> j \<noteq> i \<Longrightarrow> v_obj (view_of db) j = Some o' \<Longrightarrow> \<not> c o' (m ob)"
  shows "\<exists>db'. db_modify i m db = Inr db'"
proof -
  from ob obtain ix where ix: "indexes db (key_of_id i) = Some ix" "cont_find (idx_objects ix) i = Some ob"
    by (rule view_objD)
  have inv: "cont_inv (key_of_id i) (idx_objects ix)" by (rule indexes_okD [OF ok]) (simp add: ix)
  have clash: "clash_of db (key_of_id i) = Some (idx_clash ix)" using ix by (simp add: clash_of_def)
  have "\<forall>j o'. key_of_id j = key_of_id i \<longrightarrow> j \<noteq> i \<longrightarrow> cont_find (idx_objects ix) j = Some o' \<longrightarrow> \<not> idx_clash ix o' (m ob)"
    using no [OF clash] view_obj_index [OF ix(1)] by metis
  from cont.modify_succeeds [where m = m and clash = "idx_clash ix", OF inv refl ix(2) m this]
  have "\<exists>c'. cont_modify (idx_clash ix) i m (idx_objects ix) = Inr c'" .
  then show ?thesis
    using ix get_object_view [OF ob] by (auto simp: db_modify_def get_index_def Let_def)
qed

lemma db_remove_view:
  assumes ok: "indexes_ok db" and run: "db_remove i db = Inr db'" and ob: "v_obj (view_of db) i = Some ob"
  shows "indexes_ok db' \<and> clash_of db' = clash_of db \<and>
    v_obj (view_of db') = (v_obj (view_of db))(i := None) \<and> v_next (view_of db') = v_next (view_of db) \<and>
    undo_db db' = on_remove ob (undo_db db)"
proof -
  from ob obtain ix where ix: "indexes db (key_of_id i) = Some ix" by (rule view_objD)
  with run get_object_view [OF ob] have db': "db' = (set_index (key_of_id i)
      (ix\<lparr>idx_objects := cont_remove i (idx_objects ix)\<rparr>) db)\<lparr>undo_db := on_remove ob (undo_db db)\<rparr>"
    by (auto simp: db_remove_def get_index_def result_simps)
  have inv: "cont_inv (key_of_id i) (idx_objects ix)" by (rule indexes_okD [OF ok]) (simp add: ix)
  note law = cont.remove [OF inv refl]
  have "v_obj (view_of db') = (v_obj (view_of db))(i := None)"
    using law by (auto simp: db' set_index_view view_obj_index [OF ix] fun_eq_iff)
  moreover have "v_next (view_of db') = v_next (view_of db)"
    using ix by (auto simp: db' set_index_view) (auto simp: view_of_def)
  moreover have "clash_of db' = clash_of db" using ix by (auto simp: db' set_index_view clash_of_def)
  ultimately show ?thesis using ok law by (simp add: db' indexes_ok_set_index)
qed

lemma db_remove_succeeds: "v_obj (view_of db) i = Some ob \<Longrightarrow> \<exists>db'. db_remove i db = Inr db'"
  by (frule get_object_view) (erule view_objD, simp add: db_remove_def get_index_def)

lemma db_insert_effect:
  assumes ok: "indexes_ok db" and none: "v_obj (view_of db) (oid ob) = None"
    and next_i: "v_next (view_of db) (key_of_id (oid ob)) \<noteq> None" and dis: "undo_disabled (undo_db db)"
    and no: "(\<forall>c j o'. clash_of db (key_of_id (oid ob)) = Some c \<longrightarrow> v_obj (view_of db) j = Some o' \<longrightarrow> \<not> c o' ob) \<or>
      (\<exists>db'. db_insert ob db = Inr db')"
  shows "\<exists>db'. db_insert ob db = Inr db' \<and> indexes_ok db' \<and> clash_of db' = clash_of db \<and>
    v_obj (view_of db') = (v_obj (view_of db))(oid ob \<mapsto> ob) \<and> v_next (view_of db') = v_next (view_of db) \<and>
    undo_db db' = undo_db db"
proof -
  let ?k = "key_of_id (oid ob)"
  from next_i obtain ix where ix: "indexes db ?k = Some ix" by (auto simp: view_of_def)
  have inv: "cont_inv ?k (idx_objects ix)" by (rule indexes_okD [OF ok]) (simp add: ix)
  have find: "cont_find (idx_objects ix) (oid ob) = None" using none view_obj_index [OF ix refl] by simp
  have clash: "clash_of db ?k = Some (idx_clash ix)" using ix by (simp add: clash_of_def)
  have "\<exists>c. cont_insert (idx_clash ix) ob (idx_objects ix) = Inr c"
    using no
  proof
    assume "\<forall>c j o'. clash_of db ?k = Some c \<longrightarrow> v_obj (view_of db) j = Some o' \<longrightarrow> \<not> c o' ob"
    then have "\<forall>i o'. key_of_id i = ?k \<longrightarrow> cont_find (idx_objects ix) i = Some o' \<longrightarrow> \<not> idx_clash ix o' ob"
      using clash view_obj_index [OF ix] by metis
    then show ?thesis by (rule cont.insert_succeeds [OF inv refl find])
  next
    assume "\<exists>db'. db_insert ob db = Inr db'"
    with ix show ?thesis by (auto simp: db_insert_def get_index_def bindE_eq_Inr)
  qed
  then obtain c where run: "cont_insert (idx_clash ix) ob (idx_objects ix) = Inr c" by blast
  with cont.insert [OF inv refl find run] have c: "cont_insert (idx_clash ix) ob (idx_objects ix) = Inr c" "cont_inv ?k c"
    "\<And>j. key_of_id j = ?k \<Longrightarrow> cont_find c j = (if j = oid ob then Some ob else cont_find (idx_objects ix) j)"
    by blast+
  let ?db = "set_index ?k (ix\<lparr>idx_objects := c\<rparr>) db"
  have "db_insert ob db = Inr (?db\<lparr>undo_db := undo_db db\<rparr>)"
    using ix c(1) dis by (simp add: db_insert_def get_index_def Let_def on_create_def set_index_view)
  moreover have "v_obj (view_of ?db) = (v_obj (view_of db))(oid ob \<mapsto> ob)"
    using c(3) by (auto simp: set_index_view view_obj_index [OF ix] fun_eq_iff)
  moreover have "v_next (view_of ?db) = v_next (view_of db)"
    using ix by (auto simp: set_index_view) (auto simp: view_of_def)
  moreover have "clash_of ?db = clash_of db" using ix by (auto simp: set_index_view clash_of_def)
  ultimately show ?thesis using ok c(2) by (simp add: indexes_ok_set_index)
qed

section \<open>Recording keeps the snapshots\<close>

lemma set_back_snapshots:
  assumes fits: "stack_fits v (rev (undo_stack u))" and wf: "view_wf v"
    and step: "\<And>st. state_fits st v \<Longrightarrow> rewind (f st) v' = rewind st v \<and> state_fits (f st) v'"
    and u': "u' = set_back (f (last (undo_stack (ensure_state u)))) (ensure_state u)"
  shows "stack_fits v' (rev (undo_stack u'))"
    and "snapshots v' (rev (undo_stack u')) = (if undo_stack u = [] then [v] else snapshots v (rev (undo_stack u)))"
    and "undo_stack u' \<noteq> []" and "undo_disabled u' = undo_disabled u" and "active_sessions u' = active_sessions u"
    and "max_size u' = max_size u"
proof -
  have "stack_fits v' (rev (undo_stack u')) \<and> snapshots v' (rev (undo_stack u')) =
    (if undo_stack u = [] then [v] else snapshots v (rev (undo_stack u)))"
  proof (cases "undo_stack u" rule: rev_cases)
    case Nil
    with u' step [OF state_fits_empty [OF wf]] show ?thesis by (simp add: ensure_state_def set_back_def)
  next
    case (snoc sts st)
    with fits have "state_fits st v" by simp
    from step [OF this] snoc fits u' show ?thesis by (simp add: ensure_state_def set_back_def)
  qed
  then show "stack_fits v' (rev (undo_stack u'))"
    and "snapshots v' (rev (undo_stack u')) = (if undo_stack u = [] then [v] else snapshots v (rev (undo_stack u)))"
    by simp_all
  show "undo_stack u' \<noteq> []" "undo_disabled u' = undo_disabled u" "active_sessions u' = active_sessions u"
    "max_size u' = max_size u"
    using u' by (simp_all add: set_back_def ensure_state_def)
qed

text \<open>The snapshots after a recorded mutation: a first one is pushed when there was none.\<close>

definition recorded_views :: "'p object_database \<Rightarrow> 'p view list" where
  "recorded_views db = (if undo_disabled (undo_db db) then [] else
     if undo_stack (undo_db db) = [] then [view_of db] else saved_views db)"

lemma db_inv_record:
  assumes inv: "db_inv db" and ok: "indexes_ok db'" and wf: "view_wf (view_of db')"
    and step: "\<And>st. state_fits st (view_of db) \<Longrightarrow>
      rewind (f st) (view_of db') = rewind st (view_of db) \<and> state_fits (f st) (view_of db')"
    and u': "undo_db db' = (if undo_disabled (undo_db db) then undo_db db
      else set_back (f (last (undo_stack (ensure_state (undo_db db))))) (ensure_state (undo_db db)))"
  shows "db_inv db'" and "saved_views db' = recorded_views db"
    and "active_sessions (undo_db db') = active_sessions (undo_db db)"
    and "undo_disabled (undo_db db') = undo_disabled (undo_db db)"
proof -
  have inv': "stack_fits (view_of db) (rev (undo_stack (undo_db db)))" "view_wf (view_of db)"
    "undo_disabled (undo_db db) \<Longrightarrow> undo_stack (undo_db db) = []"
    using inv by (simp_all add: db_inv_def)
  have "db_inv db' \<and> saved_views db' = recorded_views db \<and>
    active_sessions (undo_db db') = active_sessions (undo_db db) \<and>
    undo_disabled (undo_db db') = undo_disabled (undo_db db)"
  proof (cases "undo_disabled (undo_db db)")
    case True
    with inv'(3) u' ok wf show ?thesis by (simp add: db_inv_def saved_views_def recorded_views_def)
  next
    case False
    with u' have u: "undo_db db' = set_back (f (last (undo_stack (ensure_state (undo_db db))))) (ensure_state (undo_db db))"
      by simp
    note snap = set_back_snapshots [OF inv'(1,2) step u]
    from snap False ok wf show ?thesis by (simp add: db_inv_def saved_views_def recorded_views_def)
  qed
  then show "db_inv db'" "saved_views db' = recorded_views db"
    "active_sessions (undo_db db') = active_sessions (undo_db db)"
    "undo_disabled (undo_db db') = undo_disabled (undo_db db)" by blast+
qed

lemma view_wf_create:
  assumes wf: "view_wf v" and i: "v_next v (key_of_id i) = Some i" and ob: "oid ob = i"
    and v': "v_obj v' = (v_obj v)(i \<mapsto> ob)" "v_next v' = (v_next v)(key_of_id i \<mapsto> incr_id i)"
    and lt: "number i < number (incr_id i)" "key_of_id (incr_id i) = key_of_id i"
  shows "view_wf v'"
  unfolding view_wf_def
proof (intro conjI allI impI)
  fix j o' assume j: "v_obj v' j = Some o'"
  show "oid o' = j" using j v' ob view_wfD(1) [OF wf, of j o'] by (auto split: if_splits)
  show "\<exists>n. v_next v' (key_of_id j) = Some n \<and> number j < number n"
    using j v' i lt view_wfD(2) [OF wf, of j o'] by (auto split: if_splits)
next
  fix k n assume "v_next v' k = Some n"
  then show "key_of_id n = k" using v' lt view_wf_next [OF wf, of k n] by (auto split: if_splits)
qed

lemma view_wf_modify:
  assumes "view_wf v" and "v_obj v i = Some ob" and "oid ob' = i"
    and v': "v_obj v' = (v_obj v)(i \<mapsto> ob')" "v_next v' = v_next v"
  shows "view_wf v'"
  unfolding view_wf_def
proof (intro conjI allI impI)
  fix j o' assume j: "v_obj v' j = Some o'"
  show "oid o' = j" using j v' assms(3) view_wfD(1) [OF assms(1), of j o'] by (auto split: if_splits)
  show "\<exists>n. v_next v' (key_of_id j) = Some n \<and> number j < number n"
    using j v' view_wfD(2) [OF assms(1,2)] view_wfD(2) [OF assms(1), of j o'] by (auto split: if_splits)
next
  fix k n assume "v_next v' k = Some n"
  then show "key_of_id n = k" using v' view_wf_next [OF assms(1), of k n] by simp
qed

lemma view_wf_remove:
  assumes "view_wf v" and v': "v_obj v' = (v_obj v)(i := None)" "v_next v' = v_next v"
  shows "view_wf v'"
  unfolding view_wf_def
proof (intro conjI allI impI)
  fix j o' assume "v_obj v' j = Some o'"
  then have j: "v_obj v j = Some o'" by (simp add: v' split: if_splits)
  show "oid o' = j" by (rule view_wfD(1) [OF assms(1) j])
  show "\<exists>n. v_next v' (key_of_id j) = Some n \<and> number j < number n"
    unfolding v' by (rule view_wfD(2) [OF assms(1) j])
next
  fix k n assume "v_next v' k = Some n"
  then show "key_of_id n = k" using v' view_wf_next [OF assms(1), of k n] by simp
qed

lemmas db_invD = db_inv_def [THEN iffD1, THEN conjunct1] db_inv_def [THEN iffD1, THEN conjunct2, THEN conjunct1]

lemma db_modify_inv:
  assumes inv: "db_inv db" and run: "db_modify i m db = Inr db'" and m: "\<And>x. oid (m x) = oid x"
  shows "db_inv db'" and "saved_views db' = recorded_views db"
    and "active_sessions (undo_db db') = active_sessions (undo_db db)"
    and "undo_disabled (undo_db db') = undo_disabled (undo_db db)"
    and "\<exists>ob. v_obj (view_of db) i = Some ob \<and> v_obj (view_of db') = (v_obj (view_of db))(i \<mapsto> m ob) \<and>
      v_next (view_of db') = v_next (view_of db)"
proof -
  note ok = db_invD [OF inv]
  from run obtain ob where ob: "v_obj (view_of db) i = Some ob"
    by (auto simp: db_modify_def result_simps get_object_eq)
  have o: "oid ob = i" "oid (m ob) = i" using view_obj_oid [OF ok(1) ob] m by simp_all
  note eff = db_modify_view [OF ok(1) run ob o(2)]
  have wf: "view_wf (view_of db')" using view_wf_modify [OF ok(2) ob o(2)] eff by blast
  have step: "rewind (record_modify ob st) (view_of db') = rewind st (view_of db) \<and>
      state_fits (record_modify ob st) (view_of db')" if "state_fits st (view_of db)" for st
    using record_modify_fits [OF that ob o(1)] eff by blast
  have u: "undo_db db' = (if undo_disabled (undo_db db) then undo_db db
      else set_back (record_modify ob (last (undo_stack (ensure_state (undo_db db))))) (ensure_state (undo_db db)))"
    using eff by (simp add: on_modify_def Let_def)
  show "db_inv db'" "saved_views db' = recorded_views db"
    "active_sessions (undo_db db') = active_sessions (undo_db db)"
    "undo_disabled (undo_db db') = undo_disabled (undo_db db)"
    using db_inv_record [OF inv _ wf step u] eff by blast+
  show "\<exists>ob. v_obj (view_of db) i = Some ob \<and> v_obj (view_of db') = (v_obj (view_of db))(i \<mapsto> m ob) \<and>
      v_next (view_of db') = v_next (view_of db)" using ob eff by blast
qed

lemma db_remove_inv:
  assumes inv: "db_inv db" and run: "db_remove i db = Inr db'"
  shows "db_inv db'" and "saved_views db' = recorded_views db"
    and "active_sessions (undo_db db') = active_sessions (undo_db db)"
    and "undo_disabled (undo_db db') = undo_disabled (undo_db db)"
    and "v_obj (view_of db) i \<noteq> None" and "v_obj (view_of db') = (v_obj (view_of db))(i := None)"
    and "v_next (view_of db') = v_next (view_of db)"
proof -
  note ok = db_invD [OF inv]
  from run obtain ob where ob: "v_obj (view_of db) i = Some ob"
    by (auto simp: db_remove_def result_simps get_object_eq)
  have o: "oid ob = i" by (rule view_obj_oid [OF ok(1) ob])
  note eff = db_remove_view [OF ok(1) run ob]
  have wf: "view_wf (view_of db')" using view_wf_remove [OF ok(2)] eff by blast
  have step: "rewind (record_remove ob st) (view_of db') = rewind st (view_of db) \<and>
      state_fits (record_remove ob st) (view_of db')" if "state_fits st (view_of db)" for st
    using record_remove_fits [OF that ob o] eff by blast
  have u: "undo_db db' = (if undo_disabled (undo_db db) then undo_db db
      else set_back (record_remove ob (last (undo_stack (ensure_state (undo_db db))))) (ensure_state (undo_db db)))"
    using eff by (simp add: on_remove_def Let_def)
  show "db_inv db'" "saved_views db' = recorded_views db"
    "active_sessions (undo_db db') = active_sessions (undo_db db)"
    "undo_disabled (undo_db db') = undo_disabled (undo_db db)"
    using db_inv_record [OF inv _ wf step u] eff by blast+
  show "v_obj (view_of db) i \<noteq> None" "v_obj (view_of db') = (v_obj (view_of db))(i := None)"
    "v_next (view_of db') = v_next (view_of db)" using ob eff by simp_all
qed

definition room_in_index :: "index_key \<Rightarrow> 'p object_database \<Rightarrow> bool" where
  "room_in_index k db \<longleftrightarrow> (case indexes db k of None \<Rightarrow> False
     | Some ix \<Rightarrow> instance_of_id (idx_next_id ix) < max_instance_id)"

lemma db_create_inv:
  assumes inv: "db_inv db" and run: "db_create k f db = Inr (db', ob)" and f: "\<And>x. oid (f x) = oid x"
    and room: "room_in_index k db"
  shows "db_inv db'" and "saved_views db' = recorded_views db"
    and "active_sessions (undo_db db') = active_sessions (undo_db db)"
    and "undo_disabled (undo_db db') = undo_disabled (undo_db db)"
    and "v_next (view_of db) k = Some (oid ob)" and "v_obj (view_of db) (oid ob) = None"
    and "v_obj (view_of db') = (v_obj (view_of db))(oid ob \<mapsto> ob)"
    and "v_next (view_of db') = (v_next (view_of db))(k \<mapsto> incr_id (oid ob))"
proof -
  note ok = db_invD [OF inv]
  from db_create_view [OF ok f run] obtain i where i: "v_next (view_of db) k = Some i" "key_of_id i = k" "oid ob = i"
    and eff: "indexes_ok db'" "v_obj (view_of db') = (v_obj (view_of db))(i \<mapsto> ob)"
      "v_next (view_of db') = (v_next (view_of db))(k \<mapsto> incr_id i)"
      "on_create ob (undo_db db) = Inr (undo_db db')" by metis
  have next_i: "v_next (view_of db) (key_of_id i) = Some i" using i by simp
  have "instance_of_id i < max_instance_id"
    using room i(1) by (auto simp: room_in_index_def view_of_def split: option.splits)
  note lt = incr_id_same_index [OF this]
  have eff': "v_next (view_of db') = (v_next (view_of db))(key_of_id i \<mapsto> incr_id i)" using eff i by simp
  have wf: "view_wf (view_of db')" by (rule view_wf_create [OF ok(2) next_i i(3) eff(2) eff' lt(3) lt(1)])
  let ?f = "record_create (key_index_id (key_of_id i)) i"
  have step: "rewind (?f st) (view_of db') = rewind st (view_of db) \<and> state_fits (?f st) (view_of db')"
    if "state_fits st (view_of db)" for st
    using record_create_rewind [OF that ok(2) next_i eff(2) eff'] record_create_fits [OF that ok(2) next_i eff(2) eff' lt(3)]
    by blast
  have u: "undo_db db' = (if undo_disabled (undo_db db) then undo_db db
      else set_back (?f (last (undo_stack (ensure_state (undo_db db))))) (ensure_state (undo_db db)))"
    using eff(4) i(3) by (simp add: on_create_def Let_def index_id_eq split: if_splits)
  show "db_inv db'" "saved_views db' = recorded_views db"
    "active_sessions (undo_db db') = active_sessions (undo_db db)"
    "undo_disabled (undo_db db') = undo_disabled (undo_db db)"
    using db_inv_record [OF inv eff(1) wf step u] by blast+
  show "v_next (view_of db) k = Some (oid ob)" "v_obj (view_of db) (oid ob) = None"
    "v_obj (view_of db') = (v_obj (view_of db))(oid ob \<mapsto> ob)"
    "v_next (view_of db') = (v_next (view_of db))(k \<mapsto> incr_id (oid ob))"
    using i eff fresh_next [OF ok(2) next_i] by simp_all
qed

section \<open>Replaying a state backwards\<close>

text \<open>
  What the replay loops need: the undo log is off, and the objects of the view and those still to
  be restored come from one pool \<open>P\<close> in which objects with different identifiers do not clash.
\<close>

definition clash_free :: "(index_key \<Rightarrow> 'p clash option) \<Rightarrow> 'p object set \<Rightarrow> bool" where
  "clash_free cl P \<longleftrightarrow> (\<forall>k c x y. cl k = Some c \<longrightarrow> x \<in> P \<longrightarrow> y \<in> P \<longrightarrow> oid x \<noteq> oid y \<longrightarrow> \<not> c x y)"

definition replaying :: "(index_key \<Rightarrow> 'p clash option) \<Rightarrow> 'p object set \<Rightarrow> 'p undo_database \<Rightarrow> 'p object_database \<Rightarrow> bool" where
  "replaying cl P u db \<longleftrightarrow> indexes_ok db \<and> clash_of db = cl \<and> ran (v_obj (view_of db)) \<subseteq> P \<and>
     undo_db db = u \<and> undo_disabled u"

lemma clash_freeD: "clash_free cl P \<Longrightarrow> cl k = Some c \<Longrightarrow> x \<in> P \<Longrightarrow> y \<in> P \<Longrightarrow> oid x \<noteq> oid y \<Longrightarrow> \<not> c x y"
  unfolding clash_free_def by blast

lemma replaying_mem: "replaying cl P u db \<Longrightarrow> v_obj (view_of db) i = Some ob \<Longrightarrow> ob \<in> P \<and> oid ob = i"
  by (auto simp: replaying_def ran_def intro: view_obj_oid)

lemma map_add_Cons_fresh: "map_of xs i = None \<Longrightarrow> m(i \<mapsto> ob) ++ map_of xs = m ++ map_of ((i, ob) # xs)"
  by (auto simp: map_add_def fun_eq_iff split: option.splits)

lemma ran_updI: "ran m \<subseteq> P \<Longrightarrow> x \<in> P \<Longrightarrow> ran (m(i \<mapsto> x)) \<subseteq> P"
  by (auto simp: ran_def)

lemma ran_delI: "ran m \<subseteq> P \<Longrightarrow> ran (m(i := None)) \<subseteq> P"
  by (auto simp: ran_def)

lemma replay_modify:
  assumes r: "replaying cl P u db" and free: "clash_free cl P \<or> (\<exists>db'. db_modify (oid ob) (\<lambda>_. ob) db = Inr db')"
    and old: "v_obj (view_of db) (oid ob) \<noteq> None" and ob: "ob \<in> P"
  shows "\<exists>db'. db_modify (oid ob) (\<lambda>_. ob) db = Inr db' \<and> replaying cl P u db' \<and>
    v_obj (view_of db') = (v_obj (view_of db))(oid ob \<mapsto> ob) \<and> v_next (view_of db') = v_next (view_of db)"
proof -
  from old obtain o1 where o1: "v_obj (view_of db) (oid ob) = Some o1" by blast
  have ok: "indexes_ok db" and cl: "clash_of db = cl" using r by (simp_all add: replaying_def)
  have "\<exists>db'. db_modify (oid ob) (\<lambda>_. ob) db = Inr db'" if "clash_free cl P"
  proof (rule db_modify_succeeds [OF ok o1 refl])
    fix c j o' assume "clash_of db (key_of_id (oid ob)) = Some c" "j \<noteq> oid ob" "v_obj (view_of db) j = Some o'"
    with replaying_mem [OF r, of j o'] have "cl (key_of_id (oid ob)) = Some c" "o' \<in> P" "oid o' \<noteq> oid ob"
      by (simp_all add: cl)
    then show "\<not> c o' ob" using clash_freeD [OF that] ob by blast
  qed
  with free obtain db' where run: "db_modify (oid ob) (\<lambda>_. ob) db = Inr db'" by blast
  from db_modify_view [OF ok run o1 refl] r ob have "replaying cl P u db'"
    by (simp add: replaying_def on_modify_def ran_updI)
  with run db_modify_view [OF ok run o1 refl] show ?thesis by blast
qed

lemma replay_old_values:
  assumes "replaying cl P u db" and "clash_free cl P \<or> (\<exists>db'. foldE (\<lambda>(_, ob). db_modify (oid ob) (\<lambda>_. ob)) xs db = Inr db')" and "keyed xs"
    and "\<And>i ob. map_of xs i = Some ob \<Longrightarrow> ob \<in> P \<and> v_obj (view_of db) i \<noteq> None"
  shows "\<exists>db'. foldE (\<lambda>(_, ob). db_modify (oid ob) (\<lambda>_. ob)) xs db = Inr db' \<and> replaying cl P u db' \<and>
    v_obj (view_of db') = (v_obj (view_of db)) ++ map_of xs \<and> v_next (view_of db') = v_next (view_of db)"
  using assms
proof (induction xs arbitrary: db)
  case Nil
  then show ?case by simp
next
  case (Cons x xs)
  obtain i ob where x: "x = (i, ob)" by fastforce
  from Cons.prems(3) have i: "oid ob = i" "map_of xs i = None" "keyed xs" by (simp_all add: x keyed_Cons)
  have "ob \<in> P \<and> v_obj (view_of db) (oid ob) \<noteq> None" using Cons.prems(4) [of i ob] i by (simp add: x)
  moreover have "clash_free cl P \<or> (\<exists>db'. db_modify (oid ob) (\<lambda>_. ob) db = Inr db')"
    using Cons.prems(2) by (auto simp: x bindE_eq_Inr)
  ultimately obtain db1 where db1: "db_modify (oid ob) (\<lambda>_. ob) db = Inr db1"
    "replaying cl P u db1" "v_obj (view_of db1) = (v_obj (view_of db))(oid ob \<mapsto> ob)"
    "v_next (view_of db1) = v_next (view_of db)" using replay_modify [OF Cons.prems(1)] by blast
  have rest: "clash_free cl P \<or> (\<exists>db'. foldE (\<lambda>(_, ob). db_modify (oid ob) (\<lambda>_. ob)) xs db1 = Inr db')"
    using Cons.prems(2) db1(1) by (auto simp: x)
  have "o' \<in> P \<and> v_obj (view_of db1) j \<noteq> None" if "map_of xs j = Some o'" for j o'
    using that Cons.prems(4) [of j o'] i by (cases "j = i") (simp_all add: x db1)
  from Cons.IH [OF db1(2) rest i(3) this] show ?case
    unfolding db1(3,4) i(1) map_add_Cons_fresh [OF i(2)] x using db1(1) by (simp del: map_of.simps)
qed

lemma replay_new_ids:
  assumes "replaying cl P u db" and "distinct is" and "\<And>i. i \<in> set is \<Longrightarrow> v_obj (view_of db) i \<noteq> None"
  shows "\<exists>db'. foldE db_remove is db = Inr db' \<and> replaying cl P u db' \<and>
    v_obj (view_of db') = (\<lambda>i. if i \<in> set is then None else v_obj (view_of db) i) \<and>
    v_next (view_of db') = v_next (view_of db)"
  using assms
proof (induction "is" arbitrary: db)
  case Nil
  then show ?case by simp
next
  case (Cons i "is")
  from Cons.prems(3) [of i] obtain ob where ob: "v_obj (view_of db) i = Some ob" by auto
  from db_remove_succeeds [OF ob] obtain db1 where db1: "db_remove i db = Inr db1" by blast
  have ok: "indexes_ok db" using Cons.prems(1) by (simp add: replaying_def)
  note eff = db_remove_view [OF ok db1 ob]
  with Cons.prems(1) have r1: "replaying cl P u db1"
    by (simp add: replaying_def on_remove_def ran_delI)
  have "v_obj (view_of db1) j \<noteq> None" if "j \<in> set is" for j
    using that Cons.prems(2,3) eff by auto
  from Cons.IH [OF r1 _ this] Cons.prems(2) obtain db' where db': "foldE db_remove is db1 = Inr db'" "replaying cl P u db'"
    "v_obj (view_of db') = (\<lambda>i. if i \<in> set is then None else v_obj (view_of db1) i)"
    "v_next (view_of db') = v_next (view_of db1)" by auto
  have "v_obj (view_of db') = (\<lambda>j. if j \<in> set (i # is) then None else v_obj (view_of db) j)"
    using eff by (auto simp: db'(3))
  with db' db1 eff show ?case by simp
qed

lemma replay_next_ids:
  assumes "replaying cl P u db" and "distinct (map fst xs)"
    and "\<And>i. map_of xs i \<noteq> None \<Longrightarrow> i = key_index_id (key_of_id i) \<and> v_next (view_of db) (key_of_id i) \<noteq> None"
  shows "\<exists>db'. foldE (\<lambda>(i, n). set_next_id (key_of_id i) n) xs db = Inr db' \<and> replaying cl P u db' \<and>
    v_obj (view_of db') = v_obj (view_of db) \<and>
    v_next (view_of db') = v_next (view_of db) ++ (\<lambda>k. map_of xs (key_index_id k))"
  using assms
proof (induction xs arbitrary: db)
  case Nil
  then show ?case by (simp add: map_add_def)
next
  case (Cons x xs)
  obtain i n where x: "x = (i, n)" by fastforce
  from Cons.prems(2) have d: "distinct (map fst xs)" "map_of xs i = None" by (simp_all add: x map_of_eq_None_iff)
  let ?k = "key_of_id i"
  from Cons.prems(3) [of i] have i: "i = key_index_id ?k" "v_next (view_of db) ?k \<noteq> None" by (simp_all add: x)
  then obtain ix where ix: "indexes db ?k = Some ix" by (auto simp: view_of_def)
  let ?db = "set_index ?k (ix\<lparr>idx_next_id := n\<rparr>) db"
  have run: "set_next_id ?k n db = Inr ?db" using ix by (simp add: set_next_id_def get_index_def)
  have ok: "indexes_ok db" using Cons.prems(1) by (simp add: replaying_def)
  have obj: "v_obj (view_of ?db) = v_obj (view_of db)"
    by (auto simp: set_index_view view_obj_index [OF ix] fun_eq_iff)
  have nx: "v_next (view_of ?db) = (v_next (view_of db))(?k \<mapsto> n)" by (simp add: set_index_view)
  have "clash_of ?db = clash_of db" using ix by (auto simp: set_index_view clash_of_def)
  then have r: "replaying cl P u ?db"
    using Cons.prems(1) obj indexes_okD [OF ok ix] by (simp add: replaying_def indexes_ok_set_index set_index_view(4))
  have "j = key_index_id (key_of_id j) \<and> v_next (view_of ?db) (key_of_id j) \<noteq> None" if "map_of xs j \<noteq> None" for j
    using that Cons.prems(3) [of j] d by (cases "j = i") (auto simp: x nx)
  from Cons.IH [OF r d(1) this] obtain db' where
    db': "foldE (\<lambda>(i, n). set_next_id (key_of_id i) n) xs ?db = Inr db'" "replaying cl P u db'"
      "v_obj (view_of db') = v_obj (view_of ?db)"
      "v_next (view_of db') = v_next (view_of ?db) ++ (\<lambda>k. map_of xs (key_index_id k))" by blast
  have "v_next (view_of db') k = (v_next (view_of db) ++ (\<lambda>k. map_of (x # xs) (key_index_id k))) k" for k
  proof (cases "k = ?k")
    case True
    with d i show ?thesis by (simp add: db'(4) nx map_add_def x)
  next
    case False
    then have "key_index_id k \<noteq> i" using i(1) by (metis key_index_id_inject)
    with False show ?thesis by (simp add: db'(4) nx map_add_def x cong: option.case_cong)
  qed
  then have "v_next (view_of db') = v_next (view_of db) ++ (\<lambda>k. map_of (x # xs) (key_index_id k))" by (rule ext)
  with db' run obj show ?case by (simp add: x)
qed

lemma replay_removed:
  assumes "replaying cl P u db" and "clash_free cl P \<or> (\<exists>db'. foldE (\<lambda>(_, ob). db_insert ob) xs db = Inr db')" and "keyed xs"
    and "\<And>i ob. map_of xs i = Some ob \<Longrightarrow>
      ob \<in> P \<and> v_obj (view_of db) i = None \<and> v_next (view_of db) (key_of_id i) \<noteq> None"
  shows "\<exists>db'. foldE (\<lambda>(_, ob). db_insert ob) xs db = Inr db' \<and> replaying cl P u db' \<and>
    v_obj (view_of db') = (v_obj (view_of db)) ++ map_of xs \<and> v_next (view_of db') = v_next (view_of db)"
  using assms
proof (induction xs arbitrary: db)
  case Nil
  then show ?case by simp
next
  case (Cons x xs)
  obtain i ob where x: "x = (i, ob)" by fastforce
  from Cons.prems(3) have i: "oid ob = i" "map_of xs i = None" "keyed xs" by (simp_all add: x keyed_Cons)
  have ob: "ob \<in> P" "v_obj (view_of db) (oid ob) = None" "v_next (view_of db) (key_of_id (oid ob)) \<noteq> None"
    using Cons.prems(4) [of i ob] i by (simp_all add: x)
  have st: "indexes_ok db" "undo_disabled (undo_db db)" "clash_of db = cl" using Cons.prems(1) by (auto simp: replaying_def)
  have "\<not> c o' ob" if free: "clash_free cl P" and that: "clash_of db (key_of_id (oid ob)) = Some c" "v_obj (view_of db) j = Some o'" for c j o'
  proof -
    have "o' \<in> P" "oid o' = j" using replaying_mem [OF Cons.prems(1) that(2)] by blast+
    moreover have "j \<noteq> oid ob" using that(2) ob(2) by (metis option.distinct(1))
    moreover have "cl (key_of_id (oid ob)) = Some c" using that(1) st(3) by simp
    ultimately show ?thesis using clash_freeD [OF free] ob(1) by blast
  qed
  then have "(\<forall>c j o'. clash_of db (key_of_id (oid ob)) = Some c \<longrightarrow> v_obj (view_of db) j = Some o' \<longrightarrow> \<not> c o' ob) \<or>
      (\<exists>db'. db_insert ob db = Inr db')"
    using Cons.prems(2) by (auto simp: x bindE_eq_Inr)
  from db_insert_effect [where ob = ob and db = db, OF st(1) ob(2,3) st(2) this] obtain db1 where db1: "db_insert ob db = Inr db1"
    "indexes_ok db1" "clash_of db1 = clash_of db" "v_obj (view_of db1) = (v_obj (view_of db))(oid ob \<mapsto> ob)"
    "v_next (view_of db1) = v_next (view_of db)" "undo_db db1 = undo_db db" by blast
  have r1: "replaying cl P u db1"
    using Cons.prems(1) db1 ob by (simp add: replaying_def ran_updI)
  have rest: "clash_free cl P \<or> (\<exists>db'. foldE (\<lambda>(_, ob). db_insert ob) xs db1 = Inr db')"
    using Cons.prems(2) db1(1) by (auto simp: x)
  have "o' \<in> P \<and> v_obj (view_of db1) j = None \<and> v_next (view_of db1) (key_of_id j) \<noteq> None"
    if "map_of xs j = Some o'" for j o'
    using that Cons.prems(4) [of j o'] i by (cases "j = i") (simp_all add: x db1)
  from Cons.IH [OF r1 rest i(3) this] show ?case
    unfolding db1(4,5) i(1) map_add_Cons_fresh [OF i(2)] x using db1(1) by (simp del: map_of.simps)
qed

lemma replay_backwards_rewinds:
  assumes r: "replaying cl P u db" and free: "clash_free cl P \<or> (\<exists>db'. replay_backwards st db = Inr db')"
    and fits: "state_fits st (view_of db)"
    and pool: "snd ` set (old_values st) \<union> snd ` set (removed st) \<subseteq> P"
  shows "\<exists>db'. replay_backwards st db = Inr db' \<and> replaying cl P u db' \<and> view_of db' = rewind st (view_of db)"
proof -
  let ?v = "view_of db"
  have lists: "keyed (old_values st)" "keyed (removed st)" "distinct (new_ids st)"
    "distinct (map fst (old_index_next_ids st))"
    "\<And>i. map_of (old_index_next_ids st) i \<noteq> None \<Longrightarrow> instance_of_id i = 0"
    using state_fitsD(1) [OF fits] unfolding state_lists_ok_def by blast+
  have inP: "map_of (old_values st) i = Some ob \<Longrightarrow> ob \<in> P" "map_of (removed st) i = Some ob \<Longrightarrow> ob \<in> P" for i ob
    using pool by (force dest: map_of_SomeD)+
  have "ob \<in> P \<and> v_obj ?v i \<noteq> None" if "map_of (old_values st) i = Some ob" for i ob
    using inP(1) [OF that] state_fitsD(3) [OF fits, of i] that by simp
  moreover have "clash_free cl P \<or> (\<exists>db'. foldE (\<lambda>(_, ob). db_modify (oid ob) (\<lambda>_. ob)) (old_values st) db = Inr db')"
    using free by (auto simp: replay_backwards_def restore_old_values_def bindE_eq_Inr)
  ultimately obtain db1 where
    db1: "restore_old_values st db = Inr db1" "replaying cl P u db1"
      "v_obj (view_of db1) = v_obj ?v ++ map_of (old_values st)" "v_next (view_of db1) = v_next ?v"
    unfolding restore_old_values_def using replay_old_values [where xs = "old_values st", OF r _ lists(1)] by blast
  have "v_obj (view_of db1) i \<noteq> None" if "i \<in> set (new_ids st)" for i
    using state_fitsD(2) [OF fits that] by (simp add: db1(3) map_add_def)
  from replay_new_ids [OF db1(2) lists(3) this] obtain db2 where
    db2: "remove_new_ids st db1 = Inr db2" "replaying cl P u db2"
      "v_obj (view_of db2) = (\<lambda>i. if i \<in> set (new_ids st) then None else v_obj (view_of db1) i)"
      "v_next (view_of db2) = v_next (view_of db1)"
    unfolding remove_new_ids_def by blast
  have "i = key_index_id (key_of_id i) \<and> v_next (view_of db2) (key_of_id i) \<noteq> None"
    if "map_of (old_index_next_ids st) i \<noteq> None" for i
  proof -
    have i: "key_index_id (key_of_id i) = i" by (rule key_index_id_of [OF lists(5) [OF that]])
    with that obtain n where "next_of st (key_of_id i) = Some n" by (auto simp: next_of_def)
    from state_fitsD(5) [OF fits this] i show ?thesis by (auto simp: db2 db1)
  qed
  from replay_next_ids [OF db2(2) lists(4) this] obtain db3 where
    db3: "restore_next_ids st db2 = Inr db3" "replaying cl P u db3" "v_obj (view_of db3) = v_obj (view_of db2)"
      "v_next (view_of db3) = v_next (view_of db2) ++ next_of st"
    unfolding restore_next_ids_def next_of_def [abs_def] by blast
  have nx: "v_next (view_of db3) = v_next (rewind st ?v)"
    by (auto simp: db3 db2 db1 rewind_next map_add_def fun_eq_iff split: option.splits)
  have "ob \<in> P \<and> v_obj (view_of db3) i = None \<and> v_next (view_of db3) (key_of_id i) \<noteq> None"
    if i: "map_of (removed st) i = Some ob" for i ob
  proof -
    have none: "v_obj ?v i = None" using state_fitsD(4) [OF fits, of i] i by simp
    note absent = fits_absent [OF fits none]
    have "v_obj (rewind st ?v) i = Some ob" using absent i by (simp add: rewind_obj)
    from view_wfD(2) [OF state_fitsD(7) [OF fits] this] have "v_next (view_of db3) (key_of_id i) \<noteq> None"
      by (auto simp: nx)
    with absent none inP(2) [OF i] show ?thesis by (simp add: db3(3) db2(3) db1(3) map_add_def)
  qed
  moreover have "clash_free cl P \<or> (\<exists>db'. foldE (\<lambda>(_, ob). db_insert ob) (removed st) db3 = Inr db')"
    using free db1(1) db2(1) db3(1) by (auto simp: replay_backwards_def insert_removed_def)
  ultimately obtain db4 where
    db4: "insert_removed st db3 = Inr db4" "replaying cl P u db4"
      "v_obj (view_of db4) = v_obj (view_of db3) ++ map_of (removed st)" "v_next (view_of db4) = v_next (view_of db3)"
    unfolding insert_removed_def using replay_removed [where xs = "removed st", OF db3(2) _ lists(2)] by blast
  have "v_obj (view_of db4) i = v_obj (rewind st ?v) i" for i
  proof (cases "map_of (removed st) i")
    case None
    then show ?thesis by (simp add: db4 db3 db2 db1 rewind_obj map_add_def split: option.splits)
  next
    case (Some ob)
    then have "v_obj ?v i = None" using state_fitsD(4) [OF fits, of i] by simp
    from fits_absent [OF fits this] Some show ?thesis by (simp add: db4 rewind_obj map_add_def)
  qed
  then have "v_obj (view_of db4) = v_obj (rewind st ?v)" by (rule ext)
  with nx db4(4) have "view_of db4 = rewind st ?v" by (simp add: view.equality)
  with db4(2) show ?thesis by (auto simp: replay_backwards_def db1(1) db2(1) db3(1) db4(1))
qed

section \<open>Sessions\<close>

definition no_clashes :: "'p object_database \<Rightarrow> bool" where
  "no_clashes db \<longleftrightarrow> undo_stack (undo_db db) = [] \<or>
     (let st = last (undo_stack (undo_db db)) in clash_free (clash_of db)
       (ran (v_obj (view_of db)) \<union> snd ` set (old_values st) \<union> snd ` set (removed st)))"

lemma pop_state:
  assumes inv: "db_inv db" and ne: "undo_stack (undo_db db) \<noteq> []"
    and free: "no_clashes db \<or> (\<exists>db'. replay_backwards (last (undo_stack (undo_db db))) (with_undo disable db) = Inr db')"
  shows "\<exists>db'. replay_backwards (last (undo_stack (undo_db db))) (with_undo disable db) = Inr db' \<and>
    indexes_ok db' \<and> saved_views db = view_of db' # snapshots (view_of db') (rev (butlast (undo_stack (undo_db db)))) \<and>
    view_wf (view_of db') \<and> stack_fits (view_of db') (rev (butlast (undo_stack (undo_db db)))) \<and>
    undo_db db' = disable (undo_db db)"
proof -
  let ?st = "last (undo_stack (undo_db db))" and ?below = "butlast (undo_stack (undo_db db))"
  let ?P = "ran (v_obj (view_of db)) \<union> snd ` set (old_values ?st) \<union> snd ` set (removed ?st)"
  have stack: "undo_stack (undo_db db) = ?below @ [?st]" using ne by simp
  have rev_stack: "rev (undo_stack (undo_db db)) = ?st # rev ?below" by (subst stack) simp
  from inv have fits: "state_fits ?st (view_of db)" "stack_fits (rewind ?st (view_of db)) (rev ?below)"
    unfolding db_inv_def rev_stack by simp_all
  have r: "replaying (clash_of db) ?P (disable (undo_db db)) (with_undo disable db)"
    using db_invD(1) [OF inv] by (auto simp: replaying_def with_undo_def disable_def)
  have "clash_free (clash_of db) ?P \<or> (\<exists>db'. replay_backwards ?st (with_undo disable db) = Inr db')"
    using free ne by (auto simp: no_clashes_def Let_def)
  from replay_backwards_rewinds [OF r this] fits(1) obtain db' where
    "replay_backwards ?st (with_undo disable db) = Inr db'" "view_of db' = rewind ?st (view_of db)"
    "replaying (clash_of db) ?P (disable (undo_db db)) db'" by (auto simp: with_undo_def)
  with fits state_fitsD(7) [OF fits(1)] show ?thesis
    by (simp add: saved_views_def rev_stack replaying_def)
qed

lemma undo_pops:
  assumes inv: "db_inv db" and en: "\<not> undo_disabled (undo_db db)" and act: "active_sessions (undo_db db) > 0"
    and ne: "undo_stack (undo_db db) \<noteq> []" and free: "no_clashes db \<or> (\<exists>db'. undo db = Inr db')"
  shows "\<exists>db'. undo db = Inr db' \<and> db_inv db' \<and> saved_views db = view_of db' # saved_views db' \<and>
    active_sessions (undo_db db') = active_sessions (undo_db db) - 1 \<and> \<not> undo_disabled (undo_db db') \<and>
    undo_stack (undo_db db') = butlast (undo_stack (undo_db db))"
proof -
  have "no_clashes db \<or> (\<exists>db'. replay_backwards (last (undo_stack (undo_db db))) (with_undo disable db) = Inr db')"
    using free en act ne by (auto simp: undo_def bindE_eq_Inr)
  from pop_state [OF inv ne this] obtain db' where
    db': "replay_backwards (last (undo_stack (undo_db db))) (with_undo disable db) = Inr db'" "indexes_ok db'"
      "saved_views db = view_of db' # snapshots (view_of db') (rev (butlast (undo_stack (undo_db db))))"
      "view_wf (view_of db')" "stack_fits (view_of db') (rev (butlast (undo_stack (undo_db db))))"
      "undo_db db' = disable (undo_db db)" by blast
  let ?db = "with_undo (\<lambda>u. (enable (pop_back u))\<lparr>active_sessions := active_sessions u - 1\<rparr>) db'"
  have "undo db = Inr ?db" using en act ne db'(1) by (simp add: undo_def)
  moreover have "undo_db ?db = (undo_db db)\<lparr>undo_disabled := False, undo_stack := butlast (undo_stack (undo_db db)),
      active_sessions := active_sessions (undo_db db) - 1\<rparr>"
    by (simp add: with_undo_def db'(6) enable_def disable_def pop_back_def)
  moreover have "view_of ?db = view_of db'" "indexes_ok ?db = indexes_ok db'" by (simp_all add: with_undo_def)
  ultimately show ?thesis using db' by (simp add: db_inv_def saved_views_def)
qed

lemma trim_stack_drop: "trim_stack n xs = drop (length xs - n) xs"
proof (induction xs)
  case (Cons x xs)
  then show ?case by (cases "length (x # xs) > n") (simp_all add: Suc_diff_le)
qed simp

lemma start_session_inv:
  assumes inv: "db_inv db" and en: "\<not> undo_disabled (undo_db db)"
    and size: "length (undo_stack (undo_db db)) \<le> max_size (undo_db db)"
    and start: "start_undo_session force (undo_db db) = (s, u)"
  shows "db_inv (db\<lparr>undo_db := u\<rparr>)" and "saved_views (db\<lparr>undo_db := u\<rparr>) = view_of db # saved_views db"
    and "active_sessions u = active_sessions (undo_db db) + 1" and "\<not> undo_disabled u"
    and "undo_stack u = undo_stack (undo_db db) @ [empty_undo_state]"
    and "apply_undo s" and "\<not> disable_on_exit s"
proof -
  have u: "u = (undo_db db)\<lparr>undo_stack := undo_stack (undo_db db) @ [empty_undo_state],
      active_sessions := active_sessions (undo_db db) + 1\<rparr>" and s: "s = \<lparr>apply_undo = True, disable_on_exit = False\<rparr>"
    using start en size
    by (auto simp: start_undo_session_def Let_def trim_stack_drop split: if_splits intro!: undo_database.equality)
  show "db_inv (db\<lparr>undo_db := u\<rparr>)" "saved_views (db\<lparr>undo_db := u\<rparr>) = view_of db # saved_views db"
    "active_sessions u = active_sessions (undo_db db) + 1" "\<not> undo_disabled u"
    "undo_stack u = undo_stack (undo_db db) @ [empty_undo_state]" "apply_undo s" "\<not> disable_on_exit s"
    using inv en by (simp_all add: u s db_inv_def saved_views_def)
qed

lemma merge_pops_below:
  assumes inv: "db_inv db" and act: "active_sessions (undo_db db) > 0" and two: "length (undo_stack (undo_db db)) \<ge> 2"
  shows "\<exists>u. merge (undo_db db) = Inr u \<and> db_inv (db\<lparr>undo_db := u\<rparr>) \<and>
    saved_views (db\<lparr>undo_db := u\<rparr>) = tl (saved_views db) \<and> active_sessions u = active_sessions (undo_db db) - 1 \<and>
    undo_disabled u = undo_disabled (undo_db db) \<and> length (undo_stack u) = length (undo_stack (undo_db db)) - 1"
proof -
  obtain sts' B where s1: "undo_stack (undo_db db) = sts' @ [B]"
    using two by (cases "undo_stack (undo_db db)" rule: rev_cases) auto
  obtain sts A where "sts' = sts @ [A]" using two s1 by (cases sts' rule: rev_cases) auto
  with s1 have stack: "undo_stack (undo_db db) = sts @ [A, B]" by simp
  let ?u = "(undo_db db)\<lparr>undo_stack := sts @ [merge_states A B], active_sessions := active_sessions (undo_db db) - 1\<rparr>"
  have "merge (undo_db db) = Inr ?u" using act by (simp add: merge_def stack butlast_append)
  moreover from inv have B: "state_fits B (view_of db)" and A: "state_fits A (rewind B (view_of db))"
    by (simp_all add: db_inv_def stack)
  then have "db_inv (db\<lparr>undo_db := ?u\<rparr>)"
    using inv merge_fits [OF B A] merge_rewind [OF B A] by (simp add: db_inv_def stack)
  moreover have "saved_views (db\<lparr>undo_db := ?u\<rparr>) = tl (saved_views db)"
    using merge_rewind [OF B A] by (simp add: saved_views_def stack)
  ultimately show ?thesis by (simp add: stack)
qed

text \<open>
  What may happen inside a session: mutations, and inner sessions that are undone or merged. Inner
  sessions start while the stack is within its limit (\<open>start_undo_session\<close> drops the oldest state
  otherwise). Constructors and modifiers do not change the identifier of their object.
\<close>

inductive mutates :: "'p object_database \<Rightarrow> 'p object_database \<Rightarrow> bool" where
  create: "db_create k f db = Inr (db', ob) \<Longrightarrow> (\<And>x. oid (f x) = oid x) \<Longrightarrow> room_in_index k db \<Longrightarrow> mutates db db'"
| modify: "db_modify i m db = Inr db' \<Longrightarrow> (\<And>x. oid (m x) = oid x) \<Longrightarrow> mutates db db'"
| remove: "db_remove i db = Inr db' \<Longrightarrow> mutates db db'"

definition within_limit :: "'p object_database \<Rightarrow> bool" where
  "within_limit db \<longleftrightarrow> length (undo_stack (undo_db db)) \<le> max_size (undo_db db)"

inductive work :: "'p object_database \<Rightarrow> 'p object_database \<Rightarrow> bool" where
  idle: "work db db"
| mutate: "work db db1 \<Longrightarrow> mutates db1 db2 \<Longrightarrow> work db db2"
| inner_undo: "work db db1 \<Longrightarrow> within_limit db1 \<Longrightarrow> start_undo_session force (undo_db db1) = (s, u) \<Longrightarrow>
    work (db1\<lparr>undo_db := u\<rparr>) db2 \<Longrightarrow> undo db2 = Inr db3 \<Longrightarrow> work db db3"
| inner_merge: "work db db1 \<Longrightarrow> within_limit db1 \<Longrightarrow> start_undo_session force (undo_db db1) = (s, u) \<Longrightarrow>
    work (db1\<lparr>undo_db := u\<rparr>) db2 \<Longrightarrow> merge (undo_db db2) = Inr u' \<Longrightarrow> work db (db2\<lparr>undo_db := u'\<rparr>)"

lemma mutates_inv:
  assumes "mutates db db'" and "db_inv db"
  shows "db_inv db' \<and> saved_views db' = recorded_views db \<and>
    active_sessions (undo_db db') = active_sessions (undo_db db) \<and> undo_disabled (undo_db db') = undo_disabled (undo_db db)"
  using assms
proof (cases rule: mutates.cases)
  case (create k f ob)
  from db_create_inv [OF assms(2) create] show ?thesis by simp
next
  case (modify i m)
  from db_modify_inv [OF assms(2) modify] show ?thesis by simp
next
  case (remove i)
  from db_remove_inv [OF assms(2) remove] show ?thesis by simp
qed

definition in_session :: "'p object_database \<Rightarrow> bool" where
  "in_session db \<longleftrightarrow> db_inv db \<and> \<not> undo_disabled (undo_db db) \<and> active_sessions (undo_db db) > 0 \<and> saved_views db \<noteq> []"

lemma saved_views_Nil [simp]: "saved_views db = [] \<longleftrightarrow> undo_stack (undo_db db) = []"
  by (cases "undo_stack (undo_db db)" rule: rev_cases) (simp_all add: saved_views_def)

lemma length_snapshots [simp]: "length (snapshots v sts) = length sts"
  by (induction sts arbitrary: v) simp_all

lemma length_saved_views: "length (saved_views db) = length (undo_stack (undo_db db))"
  by (simp add: saved_views_def)

lemma start_in_session:
  assumes "in_session db" and "within_limit db" and "start_undo_session force (undo_db db) = (s, u)"
  shows "in_session (db\<lparr>undo_db := u\<rparr>)" and "saved_views (db\<lparr>undo_db := u\<rparr>) = view_of db # saved_views db"
    and "active_sessions u = active_sessions (undo_db db) + 1"
  using assms start_session_inv [of db force s u] by (simp_all add: in_session_def within_limit_def)

lemma work_keeps_snapshots:
  assumes "work db db'" and "in_session db"
  shows "in_session db' \<and> saved_views db' = saved_views db \<and> active_sessions (undo_db db') = active_sessions (undo_db db)"
  using assms
proof (induction rule: work.induct)
  case (idle db)
  then show ?case by simp
next
  case (mutate db db1 db2)
  then have 1: "in_session db1" "saved_views db1 = saved_views db" "active_sessions (undo_db db1) = active_sessions (undo_db db)"
    by blast+
  from 1(1) mutates_inv [OF mutate.hyps(2)] have "db_inv db2" "saved_views db2 = saved_views db1"
    "active_sessions (undo_db db2) = active_sessions (undo_db db1)" "\<not> undo_disabled (undo_db db2)"
    by (auto simp: in_session_def recorded_views_def)
  with 1 show ?case by (simp add: in_session_def del: saved_views_Nil)
next
  case (inner_undo db db1 force s u db2 db3)
  then have 1: "in_session db1" "saved_views db1 = saved_views db" "active_sessions (undo_db db1) = active_sessions (undo_db db)"
    by blast+
  note start = start_in_session [OF 1(1) inner_undo.hyps(2,3)]
  with inner_undo.IH(2) have 2: "in_session db2" "saved_views db2 = view_of db1 # saved_views db1"
    "active_sessions (undo_db db2) = active_sessions (undo_db db1) + 1" by simp_all
  from 2(1) undo_pops [of db2] inner_undo.hyps(5)
  have "db_inv db3" "saved_views db2 = view_of db3 # saved_views db3" "\<not> undo_disabled (undo_db db3)"
    "active_sessions (undo_db db3) = active_sessions (undo_db db2) - 1"
    by (auto simp: in_session_def)
  with 1 2 show ?case by (simp add: in_session_def del: saved_views_Nil)
next
  case (inner_merge db db1 force s u db2 u')
  then have 1: "in_session db1" "saved_views db1 = saved_views db" "active_sessions (undo_db db1) = active_sessions (undo_db db)"
    by blast+
  note start = start_in_session [OF 1(1) inner_merge.hyps(2,3)]
  with inner_merge.IH(2) have 2: "in_session db2" "saved_views db2 = view_of db1 # saved_views db1"
    "active_sessions (undo_db db2) = active_sessions (undo_db db1) + 1" by simp_all
  from 1(1) 2(2) have "length (undo_stack (undo_db db2)) \<ge> 2"
    unfolding length_saved_views [symmetric] in_session_def by (cases "saved_views db1") (simp_all del: saved_views_Nil)
  from merge_pops_below [OF _ _ this] 2(1) inner_merge.hyps(5)
  have "db_inv (db2\<lparr>undo_db := u'\<rparr>)" "saved_views (db2\<lparr>undo_db := u'\<rparr>) = tl (saved_views db2)"
    "active_sessions u' = active_sessions (undo_db db2) - 1" "\<not> undo_disabled u'"
    by (auto simp: in_session_def)
  with 1 2 show ?case by (simp add: in_session_def del: saved_views_Nil)
qed

section \<open>Examples used by the witnesses\<close>

text \<open>One index of space 1, type 2 whose objects hold a number, optionally a unique one.\<close>

definition example_clash :: "bool \<Rightarrow> nat clash" where
  "example_clash unique x y \<longleftrightarrow> unique \<and> contents x = contents y"

definition example_db :: "bool \<Rightarrow> nat object_database" where
  "example_db unique = \<lparr>
     indexes = [(1, 2) \<mapsto> \<lparr>idx_objects = Generic [\<lparr>oid = \<lparr>number = 0x0102000000000000\<rparr>, contents = 7\<rparr>],
       idx_next_id = \<lparr>number = 0x0102000000000001\<rparr>, idx_default = 0, idx_clash = example_clash unique\<rparr>],
     undo_db = \<lparr>active_sessions = 0, undo_disabled = False, undo_stack = [], max_size = 256\<rparr>\<rparr>"

definition run_or :: "'a \<Rightarrow> 'a result \<Rightarrow> 'a" where
  "run_or d r = (case r of Inr x \<Rightarrow> x | Inl _ \<Rightarrow> d)"

definition example_started :: "bool \<Rightarrow> nat object_database" where
  "example_started unique = with_undo (\<lambda>u. snd (start_undo_session False u)) (example_db unique)"

definition example_modified :: "bool \<Rightarrow> nat object_database" where
  "example_modified unique = run_or (example_started unique)
     (db_modify \<lparr>number = 0x0102000000000000\<rparr> (\<lambda>x. x\<lparr>contents := 8\<rparr>) (example_started unique))"

definition example_worked :: "bool \<Rightarrow> nat object_database" where
  "example_worked unique = run_or (example_modified unique)
     (map_sum id fst (db_create (1, 2) (\<lambda>x. x\<lparr>contents := 7\<rparr>) (example_modified unique)))"

lemma example_key:
  "key_of_id \<lparr>number = 0x0102000000000000\<rparr> = (1, 2)" "key_of_id \<lparr>number = 0x0102000000000001\<rparr> = (1, 2)"
  "incr_id \<lparr>number = 0x0102000000000001\<rparr> = \<lparr>number = 0x0102000000000002\<rparr>"
  by code_simp+

lemmas example_defs = example_db_def example_started_def example_modified_def example_worked_def run_or_def
  with_undo_def start_undo_session_def Let_def

lemmas eval_defs = db_modify_def db_create_def get_object_def find_object_def get_index_def generic_find_def
  generic_modify_eq generic_create_def generic_remove_def admits_def on_modify_def on_create_def
  set_index_def set_back_def ensure_state_def record_modify_def record_create_def index_id_eq

lemma example_worked_eq:
  "example_worked unique = \<lparr>
     indexes = [(1, 2) \<mapsto> \<lparr>idx_objects = Generic [\<lparr>oid = \<lparr>number = 0x0102000000000001\<rparr>, contents = 7\<rparr>,
         \<lparr>oid = \<lparr>number = 0x0102000000000000\<rparr>, contents = 8\<rparr>],
       idx_next_id = \<lparr>number = 0x0102000000000002\<rparr>, idx_default = 0, idx_clash = example_clash unique\<rparr>],
     undo_db = \<lparr>active_sessions = 1, undo_disabled = False, undo_stack = [
       \<lparr>old_values = [(\<lparr>number = 0x0102000000000000\<rparr>, \<lparr>oid = \<lparr>number = 0x0102000000000000\<rparr>, contents = 7\<rparr>)],
        old_index_next_ids = [(key_index_id (1, 2), \<lparr>number = 0x0102000000000001\<rparr>)],
        new_ids = [\<lparr>number = 0x0102000000000001\<rparr>], removed = []\<rparr>], max_size = 256\<rparr>\<rparr>"
  by (simp add: example_defs eval_defs example_key example_clash_def empty_undo_state_def)

lemma example_inv: "db_inv (example_db unique)"
proof -
  have "indexes_ok (example_db unique)"
    by (simp add: indexes_ok_def example_db_def cont_inv.simps example_key)
  moreover have "view_wf (view_of (example_db unique))"
    by (auto simp: view_wf_def view_of_def example_db_def generic_find_def example_key split: if_splits)
  ultimately show ?thesis by (simp add: db_inv_def) (simp add: example_db_def)
qed

lemma example_started_inv: "db_inv (example_started unique)"
proof -
  let ?u = "snd (start_undo_session False (undo_db (example_db unique)))"
  have "start_undo_session False (undo_db (example_db unique)) = (\<lparr>apply_undo = True, disable_on_exit = False\<rparr>, ?u)"
    by (simp add: example_db_def start_undo_session_def Let_def)
  from start_session_inv(1) [OF example_inv _ _ this] show ?thesis
    by (simp add: example_started_def with_undo_def) (simp add: example_db_def)
qed

lemma example_mutates: "mutates (example_started unique) (example_modified unique)"
  by (rule mutates.modify [where i = "\<lparr>number = 0x0102000000000000\<rparr>" and m = "\<lambda>x. x\<lparr>contents := 8\<rparr>"])
    (simp_all add: example_defs eval_defs example_key example_clash_def)

lemma example_modified_inv: "db_inv (example_modified unique)"
  using mutates_inv [OF example_mutates example_started_inv] by blast

lemma example_work: "work (example_started unique) (example_worked unique)"
proof (rule work.mutate [OF work.mutate [OF work.idle]])
  show "mutates (example_started unique) (example_modified unique)" by (rule example_mutates)
  have "instance_of_id \<lparr>number = 0x0102000000000001\<rparr> < max_instance_id" by code_simp
  then show "mutates (example_modified unique) (example_worked unique)"
    by (intro mutates.create [where k = "(1, 2)" and f = "\<lambda>x. x\<lparr>contents := 7\<rparr>"
          and ob = "\<lparr>oid = \<lparr>number = 0x0102000000000001\<rparr>, contents = 7\<rparr>"])
      (simp_all add: example_defs eval_defs example_key example_clash_def room_in_index_def)
qed

lemma example_no_clashes: "no_clashes (example_worked False)"
  by (simp add: no_clashes_def clash_free_def Let_def) (simp add: example_worked_eq clash_of_def example_clash_def)

lemma example_in_session: "in_session (example_worked unique)"
proof -
  let ?u = "snd (start_undo_session False (undo_db (example_db unique)))"
  have start: "start_undo_session False (undo_db (example_db unique)) = (\<lparr>apply_undo = True, disable_on_exit = False\<rparr>, ?u)"
    by (simp add: example_db_def start_undo_session_def Let_def)
  have "example_started unique = (example_db unique)\<lparr>undo_db := ?u\<rparr>" by (simp add: example_started_def with_undo_def)
  with start_session_inv [OF example_inv _ _ start] have "in_session (example_started unique)"
    by (simp add: in_session_def) (simp add: example_db_def)
  with work_keeps_snapshots [OF example_work] show ?thesis by blast
qed

definition example_nested :: "nat object_database" where
  "example_nested = with_undo (\<lambda>u. snd (start_undo_session False u)) (example_worked False)"

lemma example_nested_inv: "db_inv example_nested" "active_sessions (undo_db example_nested) = 2"
  "length (undo_stack (undo_db example_nested)) = 2"
proof -
  let ?u = "snd (start_undo_session False (undo_db (example_worked False)))"
  have start: "start_undo_session False (undo_db (example_worked False)) = (\<lparr>apply_undo = True, disable_on_exit = False\<rparr>, ?u)"
    by (simp add: example_worked_eq start_undo_session_def Let_def)
  have "within_limit (example_worked False)" by (simp add: within_limit_def example_worked_eq)
  from start_in_session [OF example_in_session this start] show "db_inv example_nested"
    by (simp add: in_session_def example_nested_def with_undo_def)
  show "active_sessions (undo_db example_nested) = 2" "length (undo_stack (undo_db example_nested)) = 2"
    by (simp_all add: example_nested_def with_undo_def start_undo_session_def Let_def example_worked_eq)
qed

section \<open>Properties\<close>

text \<open>
  C3. Undoing a session, whatever was created, modified and removed in it and whatever inner sessions
  were undone or merged. Whenever the undo returns, every object and every next identifier is what it
  was when the session started, the older snapshots and the invariant are kept and the session is over.
  It does return when no two of the objects that exist or are to be restored clash in a unique key
  (\<open>no_clashes\<close>); the last property shows that it can fail otherwise. Sessions start while the stack is
  within its limit, so that no state is dropped.
\<close>

theorem session_undo_restores:
  assumes "db_inv db" and "\<not> undo_disabled (undo_db db)" and "within_limit db"
    and "start_undo_session force (undo_db db) = (s, u)" and "work (db\<lparr>undo_db := u\<rparr>) db1"
  shows "(\<forall>s' db2. session_undo s db1 = Inr (s', db2) \<longrightarrow> view_of db2 = view_of db \<and>
      saved_views db2 = saved_views db \<and> db_inv db2 \<and> active_sessions (undo_db db2) = active_sessions (undo_db db)) \<and>
    (no_clashes db1 \<longrightarrow> (\<exists>s' db2. session_undo s db1 = Inr (s', db2)))"
proof -
  note start = start_session_inv [OF assms(1,2) assms(3) [unfolded within_limit_def] assms(4)]
  then have "in_session (db\<lparr>undo_db := u\<rparr>)" by (simp add: in_session_def)
  from work_keeps_snapshots [OF assms(5) this] start
  have w: "in_session db1" "saved_views db1 = view_of db # saved_views db" "active_sessions (undo_db db1) = active_sessions (undo_db db) + 1"
    by simp_all
  have run: "session_undo s db1 = bindE (undo db1) (\<lambda>db. Inr (s\<lparr>apply_undo := False\<rparr>, db))"
    using start(6) by (simp add: session_undo_def)
  have "\<exists>db2. undo db1 = Inr db2 \<and> db_inv db2 \<and> saved_views db1 = view_of db2 # saved_views db2 \<and>
      active_sessions (undo_db db2) = active_sessions (undo_db db1) - 1"
    if "no_clashes db1 \<or> (\<exists>db2. undo db1 = Inr db2)"
    using undo_pops [OF _ _ _ _ that] w(1) by (auto simp: in_session_def)
  with w(2,3) show ?thesis unfolding run bindE_eq_Inr by auto
qed

theorem session_undo_restores_witness:
  "\<exists>s' db2. session_undo \<lparr>apply_undo = True, disable_on_exit = False\<rparr> (example_worked False) = Inr (s', db2) \<and>
    view_of db2 = view_of (example_db False) \<and> saved_views db2 = saved_views (example_db False) \<and> db_inv db2 \<and>
    active_sessions (undo_db db2) = active_sessions (undo_db (example_db False))"
proof -
  let ?u = "snd (start_undo_session False (undo_db (example_db False)))"
  have en: "\<not> undo_disabled (undo_db (example_db False))" "within_limit (example_db False)"
    by (simp_all add: example_db_def within_limit_def)
  have start: "start_undo_session False (undo_db (example_db False)) = (\<lparr>apply_undo = True, disable_on_exit = False\<rparr>, ?u)"
    by (simp add: example_db_def start_undo_session_def Let_def)
  have "example_started False = (example_db False)\<lparr>undo_db := ?u\<rparr>" by (simp add: example_started_def with_undo_def)
  with example_work [of False] have "work ((example_db False)\<lparr>undo_db := ?u\<rparr>) (example_worked False)" by simp
  from session_undo_restores [OF example_inv en start this] example_no_clashes show ?thesis by blast
qed

text \<open>
  C9. Merging the innermost session into the one below it leaves every object as it is and composes
  the two undo states: the invariant holds, the snapshot of the inner session is gone, and every
  older snapshot is what it was, so a later undo of the outer session goes back to the outer start.
\<close>

theorem merge_drops_inner_snapshot:
  assumes "db_inv db" and "active_sessions (undo_db db) > 0" and "length (undo_stack (undo_db db)) \<ge> 2"
  shows "\<exists>u. merge (undo_db db) = Inr u \<and> db_inv (db\<lparr>undo_db := u\<rparr>) \<and>
    saved_views (db\<lparr>undo_db := u\<rparr>) = tl (saved_views db) \<and> active_sessions u = active_sessions (undo_db db) - 1 \<and>
    undo_disabled u = undo_disabled (undo_db db) \<and> length (undo_stack u) = length (undo_stack (undo_db db)) - 1"
  by (rule merge_pops_below [OF assms])

theorem merge_drops_inner_snapshot_witness:
  "\<exists>u. merge (undo_db example_nested) = Inr u \<and> db_inv (example_nested\<lparr>undo_db := u\<rparr>) \<and>
    saved_views (example_nested\<lparr>undo_db := u\<rparr>) = tl (saved_views example_nested) \<and> active_sessions u = 1 \<and>
    undo_disabled u = undo_disabled (undo_db example_nested) \<and> length (undo_stack u) = 1"
  using merge_drops_inner_snapshot [OF example_nested_inv(1)] by (simp add: example_nested_inv)

text \<open>
  C11. Creating, modifying and removing objects keep the invariant of the database and leave every
  snapshot as it was; when the undo log is on and empty the first mutation records one.
\<close>

theorem mutation_keeps_snapshots:
  assumes "mutates db db'" and "db_inv db"
  shows "db_inv db' \<and> saved_views db' = recorded_views db \<and>
    active_sessions (undo_db db') = active_sessions (undo_db db) \<and>
    undo_disabled (undo_db db') = undo_disabled (undo_db db)"
  by (rule mutates_inv [OF assms])

theorem mutation_keeps_snapshots_witness:
  "db_inv (example_modified False) \<and> saved_views (example_modified False) = recorded_views (example_started False) \<and>
    active_sessions (undo_db (example_modified False)) = active_sessions (undo_db (example_started False)) \<and>
    undo_disabled (undo_db (example_modified False)) = undo_disabled (undo_db (example_started False))"
  by (rule mutation_keeps_snapshots [OF example_mutates example_started_inv])

text \<open>
  C27. \<open>pop_commit\<close> takes back the last committed session. With no active session and a non-empty
  stack: whenever it returns, the database is the most recent snapshot, the older snapshots and the
  invariant are kept, and the undo log is enabled. It does return when no two of the objects that
  exist or are to be restored clash in a unique key (\<open>no_clashes\<close>).
\<close>

theorem pop_commit_restores:
  assumes "db_inv db" and "active_sessions (undo_db db) = 0" and "undo_stack (undo_db db) \<noteq> []"
  shows "(\<forall>db'. pop_commit db = Inr db' \<longrightarrow> db_inv db' \<and> saved_views db = view_of db' # saved_views db' \<and>
      active_sessions (undo_db db') = 0 \<and> \<not> undo_disabled (undo_db db')) \<and>
    (no_clashes db \<longrightarrow> (\<exists>db'. pop_commit db = Inr db'))"
proof -
  let ?st = "last (undo_stack (undo_db db))" and ?below = "butlast (undo_stack (undo_db db))"
  let ?pop = "with_undo (\<lambda>u. enable (pop_back u))"
  have run: "pop_commit db = bindE (replay_backwards ?st (with_undo disable db)) (\<lambda>db. Inr (?pop db))"
    using assms(2,3) by (simp add: pop_commit_def)
  have "\<exists>db'. replay_backwards ?st (with_undo disable db) = Inr db' \<and> db_inv (?pop db') \<and>
      saved_views db = view_of (?pop db') # saved_views (?pop db') \<and> active_sessions (undo_db (?pop db')) = 0 \<and> \<not> undo_disabled (undo_db (?pop db'))"
    if "no_clashes db \<or> (\<exists>db'. replay_backwards ?st (with_undo disable db) = Inr db')"
  proof -
    from pop_state [OF assms(1,3) that] obtain db' where
      db': "replay_backwards ?st (with_undo disable db) = Inr db'" "indexes_ok db'"
        "saved_views db = view_of db' # snapshots (view_of db') (rev ?below)"
        "view_wf (view_of db')" "stack_fits (view_of db') (rev ?below)" "undo_db db' = disable (undo_db db)" by blast
    moreover have "undo_db (?pop db') = (undo_db db)\<lparr>undo_disabled := False, undo_stack := ?below\<rparr>"
      by (simp add: with_undo_def db'(6) enable_def disable_def pop_back_def)
    moreover have "view_of (?pop db') = view_of db'" "indexes_ok (?pop db') = indexes_ok db'" by (simp_all add: with_undo_def)
    ultimately show ?thesis using assms(2) by (simp add: db_inv_def saved_views_def)
  qed
  then show ?thesis unfolding run bindE_eq_Inr by auto
qed

definition example_committed :: "nat object_database" where
  "example_committed = run_or (example_worked False)
     (map_sum id snd (session_commit \<lparr>apply_undo = True, disable_on_exit = False\<rparr> (example_worked False)))"

theorem pop_commit_restores_witness:
  "\<exists>db'. pop_commit example_committed = Inr db' \<and> db_inv db' \<and>
    saved_views example_committed = view_of db' # saved_views db' \<and>
    active_sessions (undo_db db') = 0 \<and> \<not> undo_disabled (undo_db db')"
proof -
  have eq: "example_committed = (example_worked False)\<lparr>undo_db := (undo_db (example_worked False))\<lparr>active_sessions := 0\<rparr>\<rparr>"
    by (simp add: example_committed_def run_or_def session_commit_def commit_def example_worked_eq)
  have "db_inv example_committed"
    using example_in_session [of False] by (simp add: eq in_session_def db_inv_def)
  moreover have "active_sessions (undo_db example_committed) = 0" "undo_stack (undo_db example_committed) \<noteq> []"
    by (simp_all add: eq) (simp add: example_worked_eq)
  moreover have "no_clashes example_committed" using example_no_clashes by (simp add: eq no_clashes_def)
  ultimately show ?thesis using pop_commit_restores [of example_committed] by blast
qed

text \<open>
  Starting a session that takes effect bounds the memory of the undo log: the stack holds at
  most \<open>max_size\<close> older states, namely the most recent ones, and one new empty state; a session
  started while the log is disabled and not forced leaves it unchanged.
\<close>

theorem start_undo_session_stack:
  "undo_stack (snd (start_undo_session force u)) =
     (if undo_disabled u \<and> \<not> force then undo_stack u
      else drop (length (undo_stack u) - max_size u) (undo_stack u) @ [empty_undo_state]) \<and>
   length (undo_stack (snd (start_undo_session force u))) \<le>
     (if undo_disabled u \<and> \<not> force then length (undo_stack u) else max_size u + 1)"
  by (auto simp: start_undo_session_def Let_def trim_stack_drop)

text \<open>
  Creating an object assigns it the next identifier of its index, which no object had, adds
  exactly that object, and moves the next identifier on by one; it can then be looked up.
\<close>

theorem create_then_get:
  assumes "db_inv db" and "db_create k f db = Inr (db', ob)" and "\<And>x. oid (f x) = oid x" and "room_in_index k db"
  shows "v_next (view_of db) k = Some (oid ob) \<and> v_obj (view_of db) (oid ob) = None \<and>
    get_object (oid ob) db' = Inr ob \<and> v_obj (view_of db') = (v_obj (view_of db))(oid ob \<mapsto> ob) \<and>
    v_next (view_of db') = (v_next (view_of db))(k \<mapsto> incr_id (oid ob)) \<and> db_inv db'"
  using db_create_inv [OF assms] by (simp add: get_object_eq)

theorem create_then_get_witness:
  "let r = db_create (1, 2) (\<lambda>x. x\<lparr>contents := 7\<rparr>) (example_modified False); db' = fst (run_or undefined r)
   in get_object \<lparr>number = 0x0102000000000001\<rparr> db' = Inr \<lparr>oid = \<lparr>number = 0x0102000000000001\<rparr>, contents = 7\<rparr> \<and> db_inv db'"
proof -
  let ?ob = "\<lparr>oid = \<lparr>number = 0x0102000000000001\<rparr>, contents = 7\<rparr>"
  let ?f = "\<lambda>x :: nat object. x\<lparr>contents := 7\<rparr>"
  have run: "db_create (1, 2) ?f (example_modified False) = Inr (example_worked False, ?ob)"
    by (simp add: example_defs eval_defs example_key example_clash_def)
  have inv: "db_inv (example_modified False)"
    by (rule example_modified_inv)
  have "instance_of_id \<lparr>number = 0x0102000000000001\<rparr> < max_instance_id" by code_simp
  then have room: "room_in_index (1, 2) (example_modified False)"
    by (simp add: example_defs eval_defs example_key example_clash_def room_in_index_def)
  from create_then_get [OF inv run _ room] show ?thesis by (simp add: run run_or_def)
qed

section \<open>When undo fails\<close>

text \<open>The index \<open>k\<close> is a multi_index container in which \<open>c\<close> tells which objects share a unique key.\<close>

definition unique_index :: "index_key \<Rightarrow> 'p clash \<Rightarrow> 'p object_database \<Rightarrow> bool" where
  "unique_index k c db \<longleftrightarrow> (\<exists>ix xs. indexes db k = Some ix \<and> idx_objects ix = Generic xs \<and> idx_clash ix = c)"

lemma unique_index_modify: "db_modify i m db = Inr db' \<Longrightarrow> unique_index k c db \<Longrightarrow> unique_index k c db'"
  by (auto simp: unique_index_def db_modify_def get_index_def Let_def set_index_def result_simps)

lemma db_modify_missing: "v_obj (view_of db) i = None \<Longrightarrow> \<exists>e. db_modify i m db = Inl e"
  using get_object_eq [of i db] by (cases "get_object i db") (auto simp: db_modify_def)

lemma db_modify_error:
  assumes "v_obj (view_of db) i = Some ob" "db_modify i m db = Inl e"
  shows "e = Assert_Exception ''Could not modify object, most likely a index constraint was violated''"
proof -
  from assms(1) obtain ix where ix: "indexes db (key_of_id i) = Some ix" "cont_find (idx_objects ix) i = Some ob" by (rule view_objD)
  with assms(2) get_object_view [OF assms(1)] have "cont_modify (idx_clash ix) i m (idx_objects ix) = Inl e"
    by (cases "cont_modify (idx_clash ix) i m (idx_objects ix)") (auto simp: db_modify_def get_index_def Let_def)
  from cont_modify_error(1) [OF ix(2) this] show ?thesis .
qed

lemma db_modify_clashes:
  assumes "unique_index (key_of_id i) c db" "key_of_id j = key_of_id i" "j \<noteq> i"
    and "v_obj (view_of db) i = Some ob" "v_obj (view_of db) j = Some o'" "c o' (m ob)"
  shows "\<exists>e. db_modify i m db = Inl e"
proof -
  from assms(1) obtain ix xs where ix: "indexes db (key_of_id i) = Some ix" "idx_objects ix = Generic xs" "idx_clash ix = c"
    by (auto simp: unique_index_def)
  then have "generic_find xs i = Some ob" "generic_find xs j = Some o'"
    using assms(2,4,5) view_obj_index [OF ix(1)] by (metis cont_find.simps(2))+
  from generic_modify_clashes [where m = m and clash = c, OF this assms(3,6)] ix get_object_view [OF assms(4)]
  show ?thesis by (simp add: db_modify_def get_index_def Let_def)
qed

lemma restore_clashes:
  assumes "indexes_ok db" "keyed xs" "\<And>i. map_of xs i \<noteq> None \<Longrightarrow> v_obj (view_of db) i \<noteq> None"
    and "map_of xs i = Some old" "unique_index (key_of_id i) c db" "key_of_id j = key_of_id i"
    and "map_of xs j = None" "v_obj (view_of db) j = Some ob" "c ob old"
  shows "foldE (\<lambda>(_, ob). db_modify (oid ob) (\<lambda>_. ob)) xs db =
    Inl (Assert_Exception ''Could not modify object, most likely a index constraint was violated'')"
  using assms
proof (induction xs arbitrary: db)
  case (Cons x xs)
  obtain i' o1 where x: "x = (i', o1)" by fastforce
  from Cons.prems(2) have k: "oid o1 = i'" "map_of xs i' = None" "keyed xs" by (simp_all add: x keyed_Cons)
  from Cons.prems(3) [of i'] obtain o2 where o2: "v_obj (view_of db) i' = Some o2" by (auto simp: x)
  have j: "j \<noteq> i'" "map_of xs j = None" using Cons.prems(7) by (auto simp: x split: if_splits)
  show ?case
  proof (cases "db_modify i' (\<lambda>_. o1) db")
    case (Inl e)
    with db_modify_error [OF o2 Inl] show ?thesis by (simp add: x k)
  next
    case (Inr db1)
    have "i \<noteq> i'"
    proof
      assume "i = i'"
      with Cons.prems(4) have "o1 = old" by (simp add: x)
      with db_modify_clashes [OF Cons.prems(5) Cons.prems(6) _ _ Cons.prems(8), of o2 "\<lambda>_. o1"] o2 j(1) Cons.prems(9) \<open>i = i'\<close> Inr
      show False by auto
    qed
    note eff = db_modify_view [OF Cons.prems(1) Inr o2 k(1)]
    have pres: "v_obj (view_of db1) l \<noteq> None" if "map_of xs l \<noteq> None" for l
      using that Cons.prems(3) [of l] eff by (auto simp: x)
    have obs: "map_of xs i = Some old" "v_obj (view_of db1) j = Some ob"
      using Cons.prems(4,8) eff j(1) \<open>i \<noteq> i'\<close> by (simp_all add: x)
    have ok: "indexes_ok db1" using eff by blast
    from Cons.IH [OF ok k(3) pres obs(1) unique_index_modify [OF Inr Cons.prems(5)] Cons.prems(6) j(2) obs(2) Cons.prems(9)]
    show ?thesis using Inr by (simp add: x k)
  qed
qed simp

lemma session_state:
  assumes "in_session db"
  shows "undo_stack (undo_db db) \<noteq> []" "state_fits (last (undo_stack (undo_db db))) (view_of db)" "indexes_ok db"
proof -
  show ne: "undo_stack (undo_db db) \<noteq> []" using assms by (simp add: in_session_def)
  obtain sts st where "undo_stack (undo_db db) = sts @ [st]" using ne by (cases "undo_stack (undo_db db)" rule: rev_cases) auto
  with assms show "state_fits (last (undo_stack (undo_db db))) (view_of db)" "indexes_ok db"
    by (simp_all add: in_session_def db_inv_def)
qed

text \<open>
  C38. The undo log restores old values before it removes new objects. So whenever an object was
  modified in a session, its index has unique keys, and an object created in the session now shares a
  unique key with the old value, undoing the session fails: restoring the old object violates the
  uniqueness constraint.
\<close>

theorem undo_fails_on_reused_unique_key:
  assumes "in_session db" and "map_of (old_values (last (undo_stack (undo_db db)))) i = Some old"
    and "j \<in> set (new_ids (last (undo_stack (undo_db db))))" and "v_obj (view_of db) j = Some ob"
    and "key_of_id j = key_of_id i" and "unique_index (key_of_id i) c db" and "c ob old"
  shows "undo db = Inl (Assert_Exception ''Could not modify object, most likely a index constraint was violated'')"
proof -
  let ?st = "last (undo_stack (undo_db db))" and ?db = "with_undo disable db"
  note s = session_state [OF assms(1)]
  have fits: "state_lists_ok ?st" "map_of (old_values ?st) j = None" "\<And>l. map_of (old_values ?st) l \<noteq> None \<Longrightarrow> v_obj (view_of db) l \<noteq> None"
    using state_fitsD [OF s(2)] assms(3) by blast+
  have db: "indexes_ok ?db" "view_of ?db = view_of db" "unique_index (key_of_id i) c ?db"
    using s(3) assms(6) by (simp_all add: with_undo_def unique_index_def)
  have "restore_old_values ?st ?db = Inl (Assert_Exception ''Could not modify object, most likely a index constraint was violated'')"
    unfolding restore_old_values_def
    by (rule restore_clashes [OF db(1) _ _ assms(2) db(3) assms(5) fits(2) _ assms(7)])
      (use fits assms(4) in \<open>simp_all add: state_lists_ok_def db(2)\<close>)
  with assms(1) s(1) show ?thesis by (simp add: undo_def replay_backwards_def in_session_def)
qed

theorem undo_fails_on_reused_unique_key_witness:
  "work (example_started True) (example_worked True) \<and>
   undo (example_worked True) = Inl (Assert_Exception ''Could not modify object, most likely a index constraint was violated'')"
proof
  show "work (example_started True) (example_worked True)" by (rule example_work)
  show "undo (example_worked True) = Inl (Assert_Exception ''Could not modify object, most likely a index constraint was violated'')"
  proof (rule undo_fails_on_reused_unique_key [OF example_in_session])
    let ?i = "\<lparr>number = 0x0102000000000000\<rparr>" and ?j = "\<lparr>number = 0x0102000000000001\<rparr>"
    show "map_of (old_values (last (undo_stack (undo_db (example_worked True))))) ?i = Some \<lparr>oid = ?i, contents = 7\<rparr>"
      "?j \<in> set (new_ids (last (undo_stack (undo_db (example_worked True)))))" by (simp_all add: example_worked_eq)
    show "v_obj (view_of (example_worked True)) ?j = Some \<lparr>oid = ?j, contents = 7\<rparr>"
      by (simp add: example_worked_eq view_of_def example_key generic_find_def)
    show "key_of_id ?j = key_of_id ?i" by (simp add: example_key)
    show "unique_index (key_of_id ?i) (example_clash True) (example_worked True)" by (simp add: unique_index_def example_worked_eq example_key)
    show "example_clash True \<lparr>oid = ?j, contents = 7\<rparr> \<lparr>oid = ?i, contents = 7\<rparr>" by (simp add: example_clash_def)
  qed
qed

text \<open>
  The failed modification itself: the container erases the object, but the undo log expects it. So
  once a modification has thrown inside a session, the session can no longer be undone.
\<close>

lemma fold_modify_absent:
  assumes "foldE (\<lambda>(_, ob). db_modify (oid ob) (\<lambda>_. ob)) xs db = Inr db'" "indexes_ok db" "keyed xs" "v_obj (view_of db) i = None"
  shows "indexes_ok db' \<and> map_of xs i = None \<and> v_obj (view_of db') i = None"
  using assms
proof (induction xs arbitrary: db)
  case (Cons x xs)
  obtain i' o1 where x: "x = (i', o1)" by fastforce
  from Cons.prems(3) have k: "oid o1 = i'" "keyed xs" by (simp_all add: x keyed_Cons)
  from Cons.prems(1) obtain db1 where r: "db_modify i' (\<lambda>_. o1) db = Inr db1" "foldE (\<lambda>(_, ob). db_modify (oid ob) (\<lambda>_. ob)) xs db1 = Inr db'"
    by (auto simp: x k bindE_eq_Inr)
  obtain o2 where o2: "v_obj (view_of db) i' = Some o2" using db_modify_missing [of db i' "\<lambda>_. o1"] r(1) by (cases "v_obj (view_of db) i'") auto
  note eff = db_modify_view [OF Cons.prems(2) r(1) o2 k(1)]
  have "i \<noteq> i'" using o2 Cons.prems(4) by auto
  with Cons.IH [OF r(2) _ k(2)] eff Cons.prems(4) show ?case by (simp add: x)
qed simp

lemma fold_remove_present: "foldE db_remove is db = Inr db' \<Longrightarrow> indexes_ok db \<Longrightarrow> v_obj (view_of db) i = None \<Longrightarrow> i \<notin> set is"
proof (induction "is" arbitrary: db)
  case (Cons l "is")
  from Cons.prems(1) obtain db1 where r: "db_remove l db = Inr db1" "foldE db_remove is db1 = Inr db'" by (auto simp: bindE_eq_Inr)
  then obtain ob where ob: "v_obj (view_of db) l = Some ob" using get_object_eq [of l db] by (auto simp: db_remove_def bindE_eq_Inr)
  note eff = db_remove_view [OF Cons.prems(2) r(1) ob]
  with Cons.IH [OF r(2)] Cons.prems(3) ob show ?case by auto
qed simp

lemma failed_modify_blocks_undo:
  assumes "in_session db" and "v_obj (view_of db) i = Some ob" and "oid (m ob) = i" and "db_modify i m db = Inl e"
  shows "\<exists>e'. undo (db_modify_left i m db) = Inl e'"
proof -
  let ?db = "db_modify_left i m db" and ?st = "last (undo_stack (undo_db db))"
  note s = session_state [OF assms(1)]
  from assms(2) obtain ix where ix: "indexes db (key_of_id i) = Some ix" "cont_find (idx_objects ix) i = Some ob" by (rule view_objD)
  have "cont_modify (idx_clash ix) i m (idx_objects ix) = Inl e"
    using assms(4) ix get_object_view [OF assms(2)]
    by (cases "cont_modify (idx_clash ix) i m (idx_objects ix)") (auto simp: db_modify_def get_index_def Let_def)
  from cont_modify_error(2) [OF ix(2) this] obtain xs where xs: "idx_objects ix = Generic xs" "\<not> admits (idx_clash ix) (generic_remove i xs) (m ob)" by blast
  then have left: "cont_modify_left (idx_clash ix) (m ob) (idx_objects ix) = cont_remove i (idx_objects ix)"
    by (simp add: multi_index_modify_def Let_def assms(3))
  have db: "?db = (set_index (key_of_id i) (ix\<lparr>idx_objects := cont_remove i (idx_objects ix)\<rparr>) db)\<lparr>undo_db := on_modify ob (undo_db db)\<rparr>"
    using get_object_view [OF assms(2)] ix(1) by (simp add: db_modify_left_def left)
  note law = cont.remove [OF indexes_okD [OF s(3) ix(1)] refl]
  have gone: "indexes_ok ?db" "v_obj (view_of ?db) i = None"
    using s(3) law by (simp_all add: db indexes_ok_set_index set_index_view)
  have st: "undo_stack (undo_db ?db) \<noteq> []" "last (undo_stack (undo_db ?db)) = record_modify ob ?st"
    "\<not> undo_disabled (undo_db ?db)" "active_sessions (undo_db ?db) > 0"
    using assms(1) s(1) by (simp_all add: db on_modify_def in_session_def ensure_state_def set_back_def Let_def)
  have oid: "oid ob = i" by (rule view_obj_oid [OF s(3) assms(2)])
  have keyed: "keyed (old_values (record_modify ob ?st))"
    using state_fitsD(1) [OF s(2)] keyed_update [OF _ oid] by (simp add: record_modify_def state_lists_ok_def oid)
  have rec: "i \<in> set (new_ids (record_modify ob ?st)) \<or> map_of (old_values (record_modify ob ?st)) i \<noteq> None"
    by (auto simp: record_modify_def oid update_conv')
  show ?thesis
  proof (rule ccontr)
    assume "\<nexists>e'. undo ?db = Inl e'"
    then obtain db' where "undo ?db = Inr db'" by (cases "undo ?db") auto
    then obtain db1 db2 where r: "restore_old_values (record_modify ob ?st) (with_undo disable ?db) = Inr db1"
      "remove_new_ids (record_modify ob ?st) db1 = Inr db2"
      using st by (auto simp: undo_def replay_backwards_def bindE_eq_Inr)
    have w: "indexes_ok (with_undo disable ?db)" "v_obj (view_of (with_undo disable ?db)) i = None" using gone by (simp_all add: with_undo_def)
    from fold_modify_absent [OF r(1) [unfolded restore_old_values_def] w(1) keyed w(2)] rec
      fold_remove_present [OF r(2) [unfolded remove_new_ids_def]]
    show False by blast
  qed
qed

end
