(* ===== verification/Block.thy ===== *)
theory Block
  imports Prelude
begin

text \<open>
  Block headers, block identifiers and the Merkle root of a block:
  \<^verbatim>\<open>libraries/chain/protocol/block.cpp\<close> and \<^verbatim>\<open>protocol/block_header.hpp\<close>. The hash functions and the
  byte swap come from libraries and are the fields of \<open>crypto_ops\<close>; what is used of the byte swap is
  that swapping twice is the identity.
\<close>

section \<open>Blocks and their identifiers\<close>

text \<open>A block identifier is five 32-bit words; the first carries the block number.\<close>

record block_id_type =
  hash0 :: "32 word"
  hash_rest :: "128 word"

record 'tx signed_block =
  previous :: block_id_type
  timestamp :: "32 word"
  block_witness :: "64 word"
  transaction_merkle_root :: "160 word"
  witness_signature :: "8 word list"
  transactions :: "'tx list"

record 'tx crypto_ops =
  endian_reverse :: "32 word \<Rightarrow> 32 word"
  sha224_rest :: "'tx signed_block \<Rightarrow> 128 word"
  merkle_digest :: "'tx \<Rightarrow> 256 word"
  hash_pair :: "256 word \<Rightarrow> 256 word \<Rightarrow> 256 word"
  checksum_hash :: "256 word \<Rightarrow> 160 word"

definition crypto_spec :: "'tx crypto_ops \<Rightarrow> bool" where
  "crypto_spec cr \<longleftrightarrow> (\<forall>w. endian_reverse cr (endian_reverse cr w) = w)"

definition null_block_id :: block_id_type where
  "null_block_id = \<lparr>hash0 = 0, hash_rest = 0\<rparr>"

definition num_from_id :: "'tx crypto_ops \<Rightarrow> block_id_type \<Rightarrow> 32 word" where
  "num_from_id cr i = endian_reverse cr (hash0 i)"

definition block_num :: "'tx crypto_ops \<Rightarrow> 'tx signed_block \<Rightarrow> 32 word" where
  "block_num cr b = num_from_id cr (previous b) + 1"

definition block_id :: "'tx crypto_ops \<Rightarrow> 'tx signed_block \<Rightarrow> block_id_type" where
  "block_id cr b = \<lparr>hash0 = endian_reverse cr (block_num cr b), hash_rest = sha224_rest cr b\<rparr>"

section \<open>The Merkle root\<close>

text \<open>
  \<open>for( i = 0; i < i_max; i += 2 ) ids[k++] = hash( ids[i], ids[i+1] )\<close>, in place, then the odd
  element is moved up; the outer loop runs until one hash is left.
\<close>

function hash_pairs :: "('d \<Rightarrow> 'd \<Rightarrow> 'd) \<Rightarrow> nat \<Rightarrow> nat \<Rightarrow> nat \<Rightarrow> 'd list \<Rightarrow> 'd list \<times> nat" where
  "hash_pairs h i i_max k ids =
     (if i < i_max then hash_pairs h (i + 2) i_max (k + 1) (ids[k := h (ids ! i) (ids ! (i + 1))])
      else (ids, k))"
  by auto
termination by (relation "measure (\<lambda>(h, i, i_max, k, ids). i_max - i)") auto

declare hash_pairs.simps [simp del]

definition merkle_round :: "('d \<Rightarrow> 'd \<Rightarrow> 'd) \<Rightarrow> nat \<Rightarrow> 'd list \<Rightarrow> 'd list \<times> nat" where
  "merkle_round h n ids =
     (let i_max = n - n mod 2; (ids, k) = hash_pairs h 0 i_max 0 ids
      in if n mod 2 = 1 then (ids[k := ids ! i_max], k + 1) else (ids, k))"

lemma snd_hash_pairs: "snd (hash_pairs h i i_max k ids) = k + (i_max + 1 - i) div 2"
proof (induction h i i_max k ids rule: hash_pairs.induct)
  case (1 h i i_max k ids)
  show ?case
  proof (cases "i < i_max")
    case True
    then have "(i_max + 1 - i) div 2 = Suc ((i_max + 1 - (i + 2)) div 2)" by (simp add: div_if)
    with 1 [OF True] True show ?thesis by (simp add: hash_pairs.simps [of h i])
  next
    case False
    then show ?thesis by (simp add: hash_pairs.simps [of h i])
  qed
qed

lemma snd_merkle_round: "snd (merkle_round h n ids) = (n + 1) div 2"
proof -
  have "snd (hash_pairs h 0 (n - n mod 2) 0 ids) = n div 2"
    unfolding snd_hash_pairs by presburger
  then show ?thesis by (auto simp: merkle_round_def Let_def split: prod.splits) presburger+
qed

function merkle_loop :: "('d \<Rightarrow> 'd \<Rightarrow> 'd) \<Rightarrow> nat \<Rightarrow> 'd list \<Rightarrow> 'd list" where
  "merkle_loop h n ids =
     (if n > 1 then let r = merkle_round h n ids in merkle_loop h (snd r) (fst r) else ids)"
  by auto
termination by (relation "measure (\<lambda>(h, n, ids). n)") (auto simp: snd_merkle_round)

declare merkle_loop.simps [simp del]

definition calculate_merkle_root :: "'tx crypto_ops \<Rightarrow> 'tx list \<Rightarrow> 160 word" where
  "calculate_merkle_root cr txs =
     (if txs = [] then 0
      else checksum_hash cr (merkle_loop (hash_pair cr) (length txs) (map (merkle_digest cr) txs) ! 0))"

text \<open>The reference: hash neighbours level by level, an odd last element is passed up unchanged.\<close>

fun pair_up :: "('d \<Rightarrow> 'd \<Rightarrow> 'd) \<Rightarrow> 'd list \<Rightarrow> 'd list" where
  "pair_up h [] = []"
| "pair_up h [x] = [x]"
| "pair_up h (x # y # xs) = h x y # pair_up h xs"

lemma length_pair_up: "length (pair_up h xs) = (length xs + 1) div 2"
  by (induction h xs rule: pair_up.induct) auto

function tree_root :: "('d \<Rightarrow> 'd \<Rightarrow> 'd) \<Rightarrow> 'd list \<Rightarrow> 'd" where
  "tree_root h xs = (if length xs > 1 then tree_root h (pair_up h xs) else xs ! 0)"
  by auto
termination by (relation "measure (\<lambda>(h, xs). length xs)") (auto simp: length_pair_up)

declare tree_root.simps [simp del]

section \<open>Lemmas\<close>

lemma num_from_id_block_id: "crypto_spec cr \<Longrightarrow> num_from_id cr (block_id cr b) = block_num cr b"
  by (simp add: num_from_id_def block_id_def crypto_spec_def)

lemma hash_pairs_in_place:
  assumes "k \<le> i" and "length ids = length done + length gap + length (xs @ ys)" and "even (length xs)"
    and "ids = done @ gap @ xs @ ys" and "length done = k" and "length (done @ gap) = i" and "i_max = i + length xs"
  shows "\<exists>rest. fst (hash_pairs h i i_max k ids) = done @ pair_up h xs @ rest \<and>
    drop i_max (fst (hash_pairs h i i_max k ids)) = ys"
  using assms
proof (induction h xs arbitrary: i k ids "done" gap rule: pair_up.induct)
  case (1 h)
  then show ?case by (subst (1 2) hash_pairs.simps) auto
next
  case (2 h x)
  then show ?case by simp
next
  case (3 h x y xs)
  let ?ids = "ids[k := h (ids ! i) (ids ! (i + 1))]"
  have at: "ids ! i = x" "ids ! (i + 1) = y"
    using "3.prems" by (auto simp: nth_append)
  obtain g where g: "length g + 1 = length (gap @ [x, y])" "?ids = (done @ [h x y]) @ g @ xs @ ys"
  proof (cases gap)
    case Nil
    then show ?thesis using "3.prems" at by (intro that [of "[y]"]) (auto simp: list_update_append)
  next
    case (Cons z zs)
    then show ?thesis using "3.prems" at by (intro that [of "zs @ [x, y]"]) (auto simp: list_update_append)
  qed
  have step: "hash_pairs h i i_max k ids = hash_pairs h (i + 2) i_max (k + 1) ?ids"
    using "3.prems" by (subst hash_pairs.simps) simp
  have "\<exists>rest. fst (hash_pairs h (i + 2) i_max (k + 1) ?ids) = (done @ [h x y]) @ pair_up h xs @ rest \<and>
      drop i_max (fst (hash_pairs h (i + 2) i_max (k + 1) ?ids)) = ys"
    by (rule "3.IH" [where gap = g]) (use "3.prems" g in auto)
  then show ?case unfolding step by simp
qed

lemma pair_up_append: "even (length xs) \<Longrightarrow> pair_up h (xs @ ys) = pair_up h xs @ pair_up h ys"
  by (induction h xs rule: pair_up.induct) auto

lemma merkle_round_pair_up:
  assumes "n \<le> length ids"
  shows "take ((n + 1) div 2) (fst (merkle_round h n ids)) = pair_up h (take n ids)"
    and "(n + 1) div 2 \<le> length (fst (merkle_round h n ids))"
proof -
  let ?m = "n - n mod 2"
  let ?r = "fst (hash_pairs h 0 ?m 0 ids)"
  have m: "?m \<le> length ids" "even ?m" using assms by presburger+
  have "\<exists>rest. ?r = [] @ pair_up h (take ?m ids) @ rest \<and> drop ?m ?r = drop ?m ids"
    by (rule hash_pairs_in_place [where gap = "[]"]) (use m in auto)
  then obtain rest where r: "?r = pair_up h (take ?m ids) @ rest" "drop ?m ?r = drop ?m ids" by auto
  have len: "length (pair_up h (take ?m ids)) = ?m div 2" using m by (simp add: length_pair_up)
  have k: "snd (hash_pairs h 0 ?m 0 ids) = ?m div 2" unfolding snd_hash_pairs using m(2) by presburger
  have "take ((n + 1) div 2) (fst (merkle_round h n ids)) = pair_up h (take n ids) \<and>
    (n + 1) div 2 \<le> length (fst (merkle_round h n ids))"
  proof (cases "n mod 2 = 1")
    case True
    then have n: "n = Suc ?m" "(n + 1) div 2 = Suc (?m div 2)" by presburger+
    have lt: "?m < length ids" using n(1) assms by simp
    with r(2) have lr: "?m < length ?r" by (metis drop_eq_Nil not_le)
    have "?r ! ?m = ids ! ?m" using r(2) lt lr by (metis hd_drop_conv_nth)
    moreover have "take n ids = take ?m ids @ [ids ! ?m]"
      using lt by (subst n(1)) (simp add: take_Suc_conv_app_nth)
    then have "pair_up h (take n ids) = pair_up h (take ?m ids) @ [ids ! ?m]"
      using m by (simp add: pair_up_append)
    moreover have "fst (merkle_round h n ids) = ?r[?m div 2 := ?r ! ?m]"
      using True k by (auto simp: merkle_round_def Let_def split: prod.splits)
    moreover have "?m div 2 < length ?r" using lr by presburger
    ultimately show ?thesis using n(2) r(1) len
      by (simp add: take_Suc_conv_app_nth Suc_le_eq)
  next
    case False
    then have n: "?m = n" "(n + 1) div 2 = ?m div 2" by presburger+
    moreover have "fst (merkle_round h n ids) = ?r"
      using False by (simp add: merkle_round_def Let_def split: prod.splits)
    ultimately show ?thesis using r(1) len by simp
  qed
  then show "take ((n + 1) div 2) (fst (merkle_round h n ids)) = pair_up h (take n ids)"
    "(n + 1) div 2 \<le> length (fst (merkle_round h n ids))" by blast+
qed

lemma merkle_loop_tree_root:
  "0 < n \<Longrightarrow> n \<le> length ids \<Longrightarrow> merkle_loop h n ids ! 0 = tree_root h (take n ids)"
proof (induction h n ids rule: merkle_loop.induct)
  case (1 h n ids)
  show ?case
  proof (cases "n > 1")
    case True
    let ?r = "merkle_round h n ids"
    note round = merkle_round_pair_up [OF "1.prems"(2), of h]
    have "merkle_loop h (snd ?r) (fst ?r) ! 0 = tree_root h (take (snd ?r) (fst ?r))"
      by (rule "1.IH" [OF True refl]) (use True round in \<open>simp_all add: snd_merkle_round\<close>)
    with True round "1.prems" show ?thesis
      by (simp add: merkle_loop.simps [of h n] tree_root.simps [of h "take n ids"] snd_merkle_round Let_def)
  next
    case False
    with "1.prems" show ?thesis by (simp add: merkle_loop.simps [of h n] tree_root.simps [of h "take n ids"])
  qed
qed

section \<open>Properties\<close>

text \<open>
  C31. The in-place computation of the Merkle root is the level-by-level tree hash: no entry of the
  array is overwritten before it is read, and a block without transactions has the null root.
\<close>

theorem merkle_root_is_tree_root:
  "calculate_merkle_root cr txs =
     (if txs = [] then 0 else checksum_hash cr (tree_root (hash_pair cr) (map (merkle_digest cr) txs)))"
  by (simp add: calculate_merkle_root_def merkle_loop_tree_root)

text \<open>The number of a block can be read from its identifier, and is one more than that of its predecessor.\<close>

theorem block_id_carries_number:
  assumes "crypto_spec cr"
  shows "num_from_id cr (block_id cr b) = block_num cr b \<and>
    (previous b' = block_id cr b \<longrightarrow> block_num cr b' = block_num cr b + 1)"
  using num_from_id_block_id [OF assms] by (simp add: block_num_def)

definition example_crypto :: "nat crypto_ops" where
  "example_crypto = \<lparr>
     endian_reverse = word_reverse,
     sha224_rest = (\<lambda>b. of_nat (sum_list (transactions b))), merkle_digest = of_nat,
     hash_pair = (\<lambda>x y. 3 * x + 5 * y), checksum_hash = ucast\<rparr>"

lemma example_crypto_spec [simp]: "crypto_spec example_crypto"
  by (simp add: crypto_spec_def example_crypto_def)

definition example_block :: "block_id_type \<Rightarrow> nat \<Rightarrow> nat signed_block" where
  "example_block prev x = \<lparr>previous = prev, timestamp = 0, block_witness = 0, transaction_merkle_root = 0,
     witness_signature = [], transactions = [x]\<rparr>"

theorem block_id_carries_number_witness:
  "block_num example_crypto (example_block (block_id example_crypto (example_block null_block_id 1)) 2) =
     block_num example_crypto (example_block null_block_id 1) + 1"
  using block_id_carries_number [OF example_crypto_spec, of "example_block null_block_id 1"
      "example_block (block_id example_crypto (example_block null_block_id 1)) 2"]
  by (simp add: example_block_def)

end
