(* ===== verification/Fork_Database.thy ===== *)
theory Fork_Database
  imports Block
begin

text \<open>
  The tree of recent blocks: \<^verbatim>\<open>libraries/chain/fork_database.cpp\<close>. Items are shared objects that
  point to their predecessor weakly, so the model has an explicit heap: an \<open>item_ptr\<close> is the position
  of an item in the list of all items ever allocated, and a weak pointer can be locked while the item
  is owned by one of the two indexes, by the head, or by a caller (\<open>held\<close>). The two multi-index
  containers are lists in the order of their \<^verbatim>\<open>block_num\<close> index.
\<close>

section \<open>State\<close>

type_synonym item_ptr = nat

record 'tx fork_item =
  prev :: "item_ptr option"
  num :: "32 word"
  invalid :: bool
  item_id :: block_id_type
  data :: "'tx signed_block"

record 'tx fork_database =
  heap :: "'tx fork_item list"
  fork_max_size :: "32 word"
  unlinked_index :: "item_ptr list"
  fork_index :: "item_ptr list"
  fork_head :: "item_ptr option"
  held :: "item_ptr list"

definition new_fork_database :: "'tx fork_database" where
  "new_fork_database = \<lparr>heap = [], fork_max_size = 1024, unlinked_index = [], fork_index = [],
     fork_head = None, held = []\<rparr>"

definition make_item :: "'tx crypto_ops \<Rightarrow> 'tx signed_block \<Rightarrow> 'tx fork_item" where
  "make_item cr b = \<lparr>prev = None, num = block_num cr b, invalid = False, item_id = block_id cr b, data = b\<rparr>"

definition previous_id :: "'tx fork_item \<Rightarrow> block_id_type" where
  "previous_id it = previous (data it)"

definition alive :: "'tx fork_database \<Rightarrow> item_ptr \<Rightarrow> bool" where
  "alive fdb p \<longleftrightarrow> p \<in> set (fork_index fdb) \<or> p \<in> set (unlinked_index fdb) \<or> fork_head fdb = Some p \<or> p \<in> set (held fdb)"

definition lock :: "'tx fork_database \<Rightarrow> item_ptr option \<Rightarrow> item_ptr option" where
  "lock fdb w = (case w of None \<Rightarrow> None | Some p \<Rightarrow> if alive fdb p then Some p else None)"

definition find_id :: "'tx fork_item list \<Rightarrow> block_id_type \<Rightarrow> item_ptr list \<Rightarrow> item_ptr option" where
  "find_id items i ps = List.find (\<lambda>p. item_id (items ! p) = i) ps"

fun insert_by_num :: "'tx fork_item list \<Rightarrow> item_ptr \<Rightarrow> item_ptr list \<Rightarrow> item_ptr list" where
  "insert_by_num items p [] = [p]"
| "insert_by_num items p (q # qs) =
     (if num (items ! p) < num (items ! q) then p # q # qs else q # insert_by_num items p qs)"

text \<open>Inserting into the container: refused when the identifier is already there.\<close>

definition index_insert :: "'tx fork_item list \<Rightarrow> item_ptr \<Rightarrow> item_ptr list \<Rightarrow> item_ptr list" where
  "index_insert items p ps = (if find_id items (item_id (items ! p)) ps = None then insert_by_num items p ps else ps)"

section \<open>Operations\<close>

definition reset :: "'tx fork_database \<Rightarrow> 'tx fork_database" where
  "reset fdb = fdb\<lparr>fork_head := None, fork_index := []\<rparr>"

definition pop_block :: "'tx fork_database \<Rightarrow> 'tx fork_database result" where
  "pop_block fdb =
     (case fork_head fdb of
        None \<Rightarrow> Inl (Assert_Exception ''no blocks to pop'')
      | Some h \<Rightarrow>
          (case lock fdb (prev (heap fdb ! h)) of
             None \<Rightarrow> Inl (Assert_Exception ''poping block would leave head block null'')
           | Some p \<Rightarrow> Inr (fdb\<lparr>fork_head := Some p\<rparr>)))"

definition start_block :: "'tx crypto_ops \<Rightarrow> 'tx signed_block \<Rightarrow> 'tx fork_database \<Rightarrow> 'tx fork_database" where
  "start_block cr b fdb =
     (let p = length (heap fdb); fdb = fdb\<lparr>heap := heap fdb @ [make_item cr b]\<rparr>
      in fdb\<lparr>fork_index := index_insert (heap fdb) p (fork_index fdb), fork_head := Some p\<rparr>)"

definition push_linked :: "item_ptr \<Rightarrow> 'tx fork_database \<Rightarrow> 'tx fork_database" where
  "push_linked p fdb =
     (let fdb = fdb\<lparr>fork_index := index_insert (heap fdb) p (fork_index fdb)\<rparr>
      in case fork_head fdb of
           None \<Rightarrow> fdb\<lparr>fork_head := Some p\<rparr>
         | Some h \<Rightarrow>
             if num (heap fdb ! p) > num (heap fdb ! h)
             then let n = num (heap fdb ! p); min_num = n - min (fork_max_size fdb) n
               in fdb\<lparr>fork_head := Some p,
                    fork_index := dropWhile (\<lambda>q. num (heap fdb ! q) < min_num) (fork_index fdb),
                    unlinked_index := filter (\<lambda>q. num (heap fdb ! q) \<noteq> n - fork_max_size fdb) (unlinked_index fdb)\<rparr>
             else fdb)"

definition too_old :: "32 word \<Rightarrow> 32 word \<Rightarrow> 32 word \<Rightarrow> bool" where
  "too_old n head_num max_sz \<longleftrightarrow> int (unat n) \<le> max 0 (int (unat head_num) - int (unat max_sz))"

definition push_item :: "item_ptr \<Rightarrow> 'tx fork_database \<Rightarrow> 'tx fork_database result" where
  "push_item p fdb =
     fc_assert (case fork_head fdb of None \<Rightarrow> True
         | Some h \<Rightarrow> \<not> too_old (num (heap fdb ! p)) (num (heap fdb ! h)) (fork_max_size fdb))
       ''attempting to push a block that is too old''
      (if fork_head fdb \<noteq> None \<and> previous_id (heap fdb ! p) \<noteq> null_block_id
       then bindE (option_or Unlinkable_Block_Exception
                    (find_id (heap fdb) (previous_id (heap fdb ! p)) (fork_index fdb))) (\<lambda>q.
            fc_assert (\<not> invalid (heap fdb ! q)) ''!(*itr)->invalid''
              (Inr (push_linked p (fdb\<lparr>heap := (heap fdb)[p := (heap fdb ! p)\<lparr>prev := Some q\<rparr>]\<rparr>))))
       else Inr (push_linked p fdb))"

definition push_block :: "'tx crypto_ops \<Rightarrow> 'tx signed_block \<Rightarrow> 'tx fork_database
    \<Rightarrow> ('tx fork_database \<times> item_ptr option) result" where
  "push_block cr b fdb =
     bindE (push_item (length (heap fdb)) (fdb\<lparr>heap := heap fdb @ [make_item cr b]\<rparr>))
       (\<lambda>fdb. Inr (fdb, fork_head fdb))"

definition set_max_size :: "32 word \<Rightarrow> 'tx fork_database \<Rightarrow> 'tx fork_database" where
  "set_max_size s fdb =
     (let fdb = fdb\<lparr>fork_max_size := s\<rparr>
      in case fork_head fdb of
           None \<Rightarrow> fdb
         | Some h \<Rightarrow>
             let old = (\<lambda>q. int (unat (num (heap fdb ! q))) < max 0 (int (unat (num (heap fdb ! h))) - int (unat s)))
             in fdb\<lparr>fork_index := dropWhile old (fork_index fdb), unlinked_index := dropWhile old (unlinked_index fdb)\<rparr>)"

definition fetch_block :: "block_id_type \<Rightarrow> 'tx fork_database \<Rightarrow> item_ptr option" where
  "fetch_block i fdb =
     (case find_id (heap fdb) i (fork_index fdb) of
        Some p \<Rightarrow> Some p
      | None \<Rightarrow> find_id (heap fdb) i (unlinked_index fdb))"

definition is_known_block :: "block_id_type \<Rightarrow> 'tx fork_database \<Rightarrow> bool" where
  "is_known_block i fdb \<longleftrightarrow>
     find_id (heap fdb) i (fork_index fdb) \<noteq> None \<or> find_id (heap fdb) i (unlinked_index fdb) \<noteq> None"

definition fetch_block_by_number :: "32 word \<Rightarrow> 'tx fork_database \<Rightarrow> item_ptr list" where
  "fetch_block_by_number n fdb =
     takeWhile (\<lambda>p. num (heap fdb ! p) = n) (dropWhile (\<lambda>p. num (heap fdb ! p) \<noteq> n) (fork_index fdb))"

definition set_head :: "item_ptr option \<Rightarrow> 'tx fork_database \<Rightarrow> 'tx fork_database" where
  "set_head h fdb = fdb\<lparr>fork_head := h\<rparr>"

definition remove :: "block_id_type \<Rightarrow> 'tx fork_database \<Rightarrow> 'tx fork_database" where
  "remove i fdb = fdb\<lparr>fork_index := filter (\<lambda>p. item_id (heap fdb ! p) \<noteq> i) (fork_index fdb)\<rparr>"

text \<open>
  The three loops of \<open>fetch_branch_from\<close>, with fuel: every step follows a predecessor pointer, which
  leads to an item allocated earlier, so the number of allocated items is enough.
\<close>

definition out_of_fuel :: chain_error where
  "out_of_fuel = Undefined_Behaviour ''the branch does not end''"

fun walk_down :: "'tx crypto_ops \<Rightarrow> 'tx fork_database \<Rightarrow> nat \<Rightarrow> 32 word \<Rightarrow> item_ptr \<Rightarrow> (item_ptr list \<times> item_ptr) result" where
  "walk_down cr fdb 0 target p = Inl out_of_fuel"
| "walk_down cr fdb (Suc n) target p =
     (if block_num cr (data (heap fdb ! p)) > target
      then case lock fdb (prev (heap fdb ! p)) of
          None \<Rightarrow> Inl (Assert_Exception ''first_branch'')
        | Some q \<Rightarrow> bindE (walk_down cr fdb n target q) (\<lambda>(ps, r). Inr (p # ps, r))
      else Inr ([], p))"

fun walk_both :: "'tx fork_database \<Rightarrow> nat \<Rightarrow> item_ptr \<Rightarrow> item_ptr \<Rightarrow> (item_ptr list \<times> item_ptr list) result" where
  "walk_both fdb 0 p q = Inl out_of_fuel"
| "walk_both fdb (Suc n) p q =
     (if previous (data (heap fdb ! p)) \<noteq> previous (data (heap fdb ! q))
      then case lock fdb (prev (heap fdb ! p)) of
          None \<Rightarrow> Inl (Assert_Exception ''first_branch'')
        | Some p' \<Rightarrow>
            (case lock fdb (prev (heap fdb ! q)) of
               None \<Rightarrow> Inl (Assert_Exception ''second_branch'')
             | Some q' \<Rightarrow> bindE (walk_both fdb n p' q') (\<lambda>(ps, qs). Inr (p # ps, q # qs)))
      else Inr ([p], [q]))"

definition fetch_branch_from :: "'tx crypto_ops \<Rightarrow> block_id_type \<Rightarrow> block_id_type \<Rightarrow> 'tx fork_database
    \<Rightarrow> (item_ptr list \<times> item_ptr list) result" where
  "fetch_branch_from cr first second fdb =
     (let fuel = Suc (length (heap fdb)) in
      bindE (option_or (Assert_Exception ''first_branch_itr'') (find_id (heap fdb) first (fork_index fdb))) (\<lambda>p.
      bindE (option_or (Assert_Exception ''second_branch_itr'') (find_id (heap fdb) second (fork_index fdb))) (\<lambda>q.
      bindE (walk_down cr fdb fuel (block_num cr (data (heap fdb ! q))) p) (\<lambda>(ps, p).
      bindE (walk_down cr fdb fuel (block_num cr (data (heap fdb ! p))) q) (\<lambda>(qs, q).
      bindE (walk_both fdb fuel p q) (\<lambda>(ps', qs'). Inr (ps @ ps', qs @ qs')))))))"

text \<open>
  \<open>_push_next\<close>: push what the unlinked index has for a new item; one item leaves that index with every
  step. (The call in \<open>_push_block\<close> is commented out.)
\<close>

fun push_next :: "nat \<Rightarrow> block_id_type \<Rightarrow> 'tx fork_database \<Rightarrow> 'tx fork_database result" where
  "push_next 0 new_id fdb = Inl out_of_fuel"
| "push_next (Suc n) new_id fdb =
     (case List.find (\<lambda>p. previous_id (heap fdb ! p) = new_id) (unlinked_index fdb) of
        None \<Rightarrow> Inr fdb
      | Some p \<Rightarrow> bindE (push_item p (fdb\<lparr>unlinked_index := remove1 p (unlinked_index fdb)\<rparr>)) (push_next n new_id))"

section \<open>Invariant\<close>

definition item_ok :: "'tx crypto_ops \<Rightarrow> 'tx fork_item list \<Rightarrow> item_ptr \<Rightarrow> bool" where
  "item_ok cr items p \<longleftrightarrow>
     num (items ! p) = block_num cr (data (items ! p)) \<and> item_id (items ! p) = block_id cr (data (items ! p)) \<and>
     (\<forall>q. prev (items ! p) = Some q \<longrightarrow>
        q < p \<and> item_id (items ! q) = previous (data (items ! p)) \<and> num (items ! p) \<noteq> 0)"

definition index_ok :: "'tx fork_item list \<Rightarrow> item_ptr list \<Rightarrow> bool" where
  "index_ok items ps \<longleftrightarrow> sorted_wrt (\<lambda>p q. num (items ! p) \<le> num (items ! q)) ps \<and>
     distinct (map (\<lambda>p. item_id (items ! p)) ps)"

definition fork_inv :: "'tx crypto_ops \<Rightarrow> 'tx fork_database \<Rightarrow> bool" where
  "fork_inv cr fdb \<longleftrightarrow>
     (\<forall>p < length (heap fdb). item_ok cr (heap fdb) p) \<and>
     (\<forall>p. alive fdb p \<longrightarrow> p < length (heap fdb)) \<and>
     index_ok (heap fdb) (fork_index fdb) \<and> unlinked_index fdb = []"

text \<open>All items go back to blocks of number \<open>n0\<close> with one common predecessor \<open>r\<close>.\<close>

definition rooted_at :: "32 word \<Rightarrow> block_id_type \<Rightarrow> 'tx fork_database \<Rightarrow> bool" where
  "rooted_at n0 r fdb \<longleftrightarrow> (\<forall>p. alive fdb p \<longrightarrow> n0 \<le> num (heap fdb ! p) \<and>
     (n0 < num (heap fdb ! p) \<longrightarrow> (\<exists>q \<in> set (fork_index fdb). prev (heap fdb ! p) = Some q)) \<and>
     (num (heap fdb ! p) = n0 \<longrightarrow> previous (data (heap fdb ! p)) = r))"

text \<open>A branch: every item but the last is followed by the item its predecessor pointer locks to.\<close>

fun chain :: "'tx fork_database \<Rightarrow> item_ptr list \<Rightarrow> bool" where
  "chain fdb (p # q # ps) \<longleftrightarrow> lock fdb (prev (heap fdb ! p)) = Some q \<and> chain fdb (q # ps)"
| "chain fdb ps \<longleftrightarrow> True"

section \<open>The invariant is kept\<close>

lemma find_id_None: "find_id items i ps = None \<longleftrightarrow> i \<notin> (\<lambda>p. item_id (items ! p)) ` set ps"
  by (auto simp: find_id_def find_None_iff)

lemma find_id_Some: "find_id items i ps = Some p \<Longrightarrow> p \<in> set ps \<and> item_id (items ! p) = i"
  by (auto simp: find_id_def find_Some_iff)

lemma find_id_in:
  assumes "p \<in> set ps" and "distinct (map (\<lambda>p. item_id (items ! p)) ps)"
  shows "find_id items (item_id (items ! p)) ps = Some p"
proof -
  have "find_id items (item_id (items ! p)) ps \<noteq> None" using assms(1) by (auto simp: find_id_None)
  then obtain q where q: "find_id items (item_id (items ! p)) ps = Some q" by blast
  from find_id_Some [OF this] assms have "q = p" by (auto dest: inj_onD simp: distinct_map)
  with q show ?thesis by simp
qed

lemma set_insert_by_num [simp]: "set (insert_by_num items p ps) = insert p (set ps)"
  by (induction ps) auto

lemma sorted_insert_by_num:
  "sorted_wrt (\<lambda>p q. num (items ! p) \<le> num (items ! q)) ps \<Longrightarrow>
   sorted_wrt (\<lambda>p q. num (items ! p) \<le> num (items ! q)) (insert_by_num items p ps)"
  by (induction ps) auto

lemma distinct_insert_by_num:
  "distinct (map f ps) \<Longrightarrow> f p \<notin> f ` set ps \<Longrightarrow> distinct (map f (insert_by_num items p ps))"
  by (induction ps) auto

lemma index_insert_ok: "index_ok items ps \<Longrightarrow> index_ok items (index_insert items p ps)"
  by (simp add: index_ok_def index_insert_def find_id_None sorted_insert_by_num distinct_insert_by_num)

lemma set_index_insert: "set (index_insert items p ps) \<subseteq> insert p (set ps)"
  by (auto simp: index_insert_def)

lemma index_ok_dropWhile: "index_ok items ps \<Longrightarrow> index_ok items (dropWhile P ps)"
  unfolding index_ok_def
  by (metis sorted_wrt_append takeWhile_dropWhile_id distinct_append map_append)

lemma index_ok_filter: "index_ok items ps \<Longrightarrow> index_ok items (filter P ps)"
  by (simp add: index_ok_def sorted_wrt_filter distinct_map_filter)

lemma fork_invD:
  assumes "fork_inv cr fdb"
  shows "p < length (heap fdb) \<Longrightarrow> item_ok cr (heap fdb) p" and "alive fdb p \<Longrightarrow> p < length (heap fdb)"
    and "index_ok (heap fdb) (fork_index fdb)" and "unlinked_index fdb = []"
  using assms by (simp_all add: fork_inv_def)

lemma item_ok_append:
  assumes "p < length items" and "item_ok cr items p"
  shows "item_ok cr (items @ suffix) p"
proof -
  have "(items @ suffix) ! q = items ! q" if "q \<le> p" for q using assms(1) that by (simp add: nth_append)
  with assms(2) show ?thesis by (auto simp: item_ok_def)
qed

lemma index_ok_cong:
  "(\<And>p. p \<in> set ps \<Longrightarrow> num (items ! p) = num (items' ! p) \<and> item_id (items ! p) = item_id (items' ! p)) \<Longrightarrow>
   index_ok items ps = index_ok items' ps"
proof (induction ps)
  case (Cons p ps)
  then have "index_ok items ps = index_ok items' ps" by simp
  moreover have "(\<forall>q \<in> set ps. num (items ! p) \<le> num (items ! q)) \<longleftrightarrow> (\<forall>q \<in> set ps. num (items' ! p) \<le> num (items' ! q))"
    using Cons.prems by (intro ball_cong) simp_all
  moreover have "(\<lambda>p. item_id (items ! p)) ` set ps = (\<lambda>p. item_id (items' ! p)) ` set ps"
    using Cons.prems by (intro image_cong) simp_all
  ultimately show ?case using Cons.prems [of p] by (auto simp: index_ok_def)
qed (simp add: index_ok_def)

lemma index_ok_append: "(\<And>p. p \<in> set ps \<Longrightarrow> p < length items) \<Longrightarrow> index_ok (items @ suffix) ps = index_ok items ps"
  by (rule index_ok_cong) (simp add: nth_append)

lemma alloc_inv:
  assumes inv: "fork_inv cr fdb"
  shows "fork_inv cr (fdb\<lparr>heap := heap fdb @ [make_item cr b]\<rparr>)"
proof -
  let ?fdb = "fdb\<lparr>heap := heap fdb @ [make_item cr b]\<rparr>"
  have "item_ok cr (heap ?fdb) p" if "p < length (heap ?fdb)" for p
  proof (cases "p < length (heap fdb)")
    case True
    then show ?thesis using fork_invD(1) [OF inv True] by (simp add: item_ok_append)
  next
    case False
    with that have "heap ?fdb ! p = make_item cr b" by (simp add: nth_append not_less less_Suc_eq)
    then show ?thesis by (simp add: item_ok_def make_item_def)
  qed
  moreover have "alive ?fdb p = alive fdb p" for p by (simp add: alive_def)
  then have "alive ?fdb p \<Longrightarrow> p < length (heap ?fdb)" for p
    using fork_invD(2) [OF inv, of p] by simp
  moreover have "p < length (heap fdb)" if "p \<in> set (fork_index fdb)" for p
    using fork_invD(2) [OF inv, of p] that by (simp add: alive_def)
  then have "index_ok (heap ?fdb) (fork_index ?fdb)"
    using index_ok_append [of "fork_index fdb" "heap fdb" "[make_item cr b]"] fork_invD(3) [OF inv] by simp
  ultimately show ?thesis using fork_invD(4) [OF inv] by (simp add: fork_inv_def)
qed

lemma link_inv:
  assumes inv: "fork_inv cr fdb" and p: "p < length (heap fdb)" and q: "q < p"
    and id: "item_id (heap fdb ! q) = previous (data (heap fdb ! p))" and n: "num (heap fdb ! p) \<noteq> 0"
  shows "fork_inv cr (fdb\<lparr>heap := (heap fdb)[p := (heap fdb ! p)\<lparr>prev := Some q\<rparr>]\<rparr>)"
proof -
  let ?items = "(heap fdb)[p := (heap fdb ! p)\<lparr>prev := Some q\<rparr>]"
  have same: "num (?items ! r) = num (heap fdb ! r)" "item_id (?items ! r) = item_id (heap fdb ! r)"
    "data (?items ! r) = data (heap fdb ! r)" "r \<noteq> p \<Longrightarrow> prev (?items ! r) = prev (heap fdb ! r)"
    "prev (?items ! p) = Some q" for r
    using p by (auto simp: nth_list_update)
  have "item_ok cr ?items r" if "r < length (heap fdb)" for r
    using fork_invD(1) [OF inv that] q id n same by (cases "r = p") (auto simp: item_ok_def)
  moreover have "index_ok ?items (fork_index fdb)" using fork_invD(3) [OF inv] by (simp add: index_ok_def same)
  ultimately show ?thesis using fork_invD(2,4) [OF inv] by (simp add: fork_inv_def alive_def)
qed

lemma push_linked_inv:
  assumes inv: "fork_inv cr fdb" and p: "p < length (heap fdb)"
  shows "fork_inv cr (push_linked p fdb)"
proof -
  have heap: "heap (push_linked p fdb) = heap fdb"
    by (simp add: push_linked_def Let_def split: option.splits)
  have sub: "alive (push_linked p fdb) r \<Longrightarrow> alive fdb r \<or> r = p" for r
    using set_index_insert [of "heap fdb" p "fork_index fdb"]
    by (auto simp: push_linked_def Let_def alive_def split: option.splits if_splits dest!: set_dropWhileD)
  have "index_ok (heap fdb) (fork_index (push_linked p fdb))"
    using index_insert_ok [OF fork_invD(3) [OF inv]]
    by (auto simp: push_linked_def Let_def index_ok_dropWhile split: option.splits)
  moreover have "unlinked_index (push_linked p fdb) = []"
    using fork_invD(4) [OF inv] by (simp add: push_linked_def Let_def split: option.splits)
  ultimately show ?thesis using fork_invD(1,2) [OF inv] sub p by (auto simp: fork_inv_def heap)
qed

lemma not_too_old_pos: "\<not> too_old n h m \<Longrightarrow> n \<noteq> 0"
  by (auto simp: too_old_def)

lemma push_item_cases:
  assumes run: "push_item p fdb = Inr fdb'"
  obtains "fdb' = push_linked p fdb" "fork_head fdb = None \<or> previous_id (heap fdb ! p) = null_block_id"
  | h q where "fork_head fdb = Some h" "\<not> too_old (num (heap fdb ! p)) (num (heap fdb ! h)) (fork_max_size fdb)"
      "find_id (heap fdb) (previous_id (heap fdb ! p)) (fork_index fdb) = Some q" "\<not> invalid (heap fdb ! q)"
      "fdb' = push_linked p (fdb\<lparr>heap := (heap fdb)[p := (heap fdb ! p)\<lparr>prev := Some q\<rparr>]\<rparr>)"
  using run by (auto simp: push_item_def result_simps split: if_splits option.splits)

lemma push_block_inv:
  assumes inv: "fork_inv cr fdb" and run: "push_block cr b fdb = Inr (fdb', h)"
  shows "fork_inv cr fdb'"
proof -
  let ?p = "length (heap fdb)" and ?fdb = "fdb\<lparr>heap := heap fdb @ [make_item cr b]\<rparr>"
  note a = alloc_inv [OF inv, of b]
  from run have "push_item ?p ?fdb = Inr fdb'" by (auto simp: push_block_def result_simps)
  then show ?thesis
  proof (cases rule: push_item_cases)
    case 1
    then show ?thesis using push_linked_inv [OF a] by simp
  next
    case (2 hd q)
    from find_id_Some [OF 2(3)] have q: "q \<in> set (fork_index ?fdb)" "item_id (heap ?fdb ! q) = previous_id (heap ?fdb ! ?p)"
      by simp_all
    have "q < ?p" using fork_invD(2) [OF inv, of q] q(1) by (simp add: alive_def)
    from link_inv [OF a _ this _ not_too_old_pos [OF 2(2)]] q(2)
    have "fork_inv cr (?fdb\<lparr>heap := (heap ?fdb)[?p := (heap ?fdb ! ?p)\<lparr>prev := Some q\<rparr>]\<rparr>)"
      by (simp add: previous_id_def)
    from push_linked_inv [OF this, of ?p] show ?thesis using 2(5) by simp
  qed
qed

lemma start_block_inv:
  assumes inv: "fork_inv cr fdb"
  shows "fork_inv cr (start_block cr b fdb)"
proof -
  let ?fdb = "fdb\<lparr>heap := heap fdb @ [make_item cr b]\<rparr>"
  note a = alloc_inv [OF inv, of b]
  have eq: "start_block cr b fdb = ?fdb\<lparr>fork_index := index_insert (heap ?fdb) (length (heap fdb)) (fork_index fdb),
      fork_head := Some (length (heap fdb))\<rparr>"
    by (simp add: start_block_def Let_def)
  have "alive (start_block cr b fdb) r \<Longrightarrow> r < length (heap ?fdb)" for r
    using set_index_insert [of "heap ?fdb" "length (heap fdb)" "fork_index fdb"] fork_invD(2) [OF a, of r]
    by (auto simp: eq alive_def)
  then show ?thesis using fork_invD(1,3,4) [OF a] by (auto simp: eq fork_inv_def index_insert_ok)
qed

lemma lock_alive: "lock fdb w = Some p \<longleftrightarrow> w = Some p \<and> alive fdb p"
  by (auto simp: lock_def split: option.splits)

lemma shrink_inv:
  assumes "fork_inv cr fdb" and "heap fdb' = heap fdb" and "\<And>p. alive fdb' p \<Longrightarrow> alive fdb p"
    and "index_ok (heap fdb) (fork_index fdb')" and "unlinked_index fdb' = []"
  shows "fork_inv cr fdb'"
  using assms by (simp add: fork_inv_def)

lemma pop_block_inv: "fork_inv cr fdb \<Longrightarrow> pop_block fdb = Inr fdb' \<Longrightarrow> fork_inv cr fdb'"
  by (frule shrink_inv) (auto simp: pop_block_def alive_def lock_alive fork_inv_def split: option.splits)

lemma remove_inv: "fork_inv cr fdb \<Longrightarrow> fork_inv cr (remove i fdb)"
  by (frule shrink_inv) (auto simp: remove_def alive_def fork_inv_def index_ok_filter)

lemma reset_inv: "fork_inv cr fdb \<Longrightarrow> fork_inv cr (reset fdb)"
  by (frule shrink_inv) (auto simp: reset_def alive_def fork_inv_def index_ok_def)

lemma set_max_size_inv: "fork_inv cr fdb \<Longrightarrow> fork_inv cr (set_max_size n fdb)"
  by (frule shrink_inv)
    (auto simp: set_max_size_def Let_def alive_def fork_inv_def index_ok_dropWhile split: option.splits dest: set_dropWhileD)

lemma set_head_inv: "fork_inv cr fdb \<Longrightarrow> alive fdb p \<Longrightarrow> fork_inv cr (set_head (Some p) fdb)"
  by (frule shrink_inv) (auto simp: set_head_def alive_def fork_inv_def)

section \<open>Branches\<close>

lemma prev_step:
  assumes cr: "crypto_spec cr" and inv: "fork_inv cr fdb" and p: "alive fdb p"
    and q: "lock fdb (prev (heap fdb ! p)) = Some q"
  shows "q < p" and "alive fdb q" and "unat (num (heap fdb ! p)) = Suc (unat (num (heap fdb ! q)))"
    and "item_id (heap fdb ! q) = previous (data (heap fdb ! p))"
proof -
  from q have pq: "prev (heap fdb ! p) = Some q" and al: "alive fdb q" by (simp_all add: lock_alive)
  note okp = fork_invD(1) [OF inv fork_invD(2) [OF inv p]] and okq = fork_invD(1) [OF inv fork_invD(2) [OF inv al]]
  from okp pq show lt: "q < p" and id: "item_id (heap fdb ! q) = previous (data (heap fdb ! p))"
    by (simp_all add: item_ok_def)
  show "alive fdb q" by (rule al)
  have "num (heap fdb ! p) = num_from_id cr (item_id (heap fdb ! q)) + 1"
    using okp id by (simp add: item_ok_def block_num_def)
  also have "num_from_id cr (item_id (heap fdb ! q)) = num (heap fdb ! q)"
    using okq num_from_id_block_id [OF cr] by (simp add: item_ok_def)
  finally have eq: "num (heap fdb ! p) = num (heap fdb ! q) + 1" .
  have "num (heap fdb ! p) \<noteq> 0" using okp pq unfolding item_ok_def by blast
  with eq show "unat (num (heap fdb ! p)) = Suc (unat (num (heap fdb ! q)))"
    by (metis Suc_eq_plus1 add.commute unatSuc)
qed

lemma item_num: "fork_inv cr fdb \<Longrightarrow> alive fdb p \<Longrightarrow> block_num cr (data (heap fdb ! p)) = num (heap fdb ! p)"
  using fork_invD(1,2) by (metis item_ok_def)

lemma walk_down_result:
  assumes cr: "crypto_spec cr" and inv: "fork_inv cr fdb"
  shows "alive fdb p \<Longrightarrow> target \<le> num (heap fdb ! p) \<Longrightarrow> walk_down cr fdb n target p = Inr (ps, r) \<Longrightarrow>
    chain fdb (ps @ [r]) \<and> hd (ps @ [r]) = p \<and> alive fdb r \<and> num (heap fdb ! r) = target \<and>
    (\<forall>x \<in> set ps. target < num (heap fdb ! x))"
proof (induction n arbitrary: p ps)
  case (Suc n)
  show ?case
  proof (cases "num (heap fdb ! p) > target")
    case True
    with Suc.prems item_num [OF inv Suc.prems(1)] obtain q ps' where q: "lock fdb (prev (heap fdb ! p)) = Some q"
      and w: "walk_down cr fdb n target q = Inr (ps', r)" "ps = p # ps'"
      by (auto simp: result_simps split: option.splits)
    note st = prev_step [OF cr inv Suc.prems(1) q]
    have "target \<le> num (heap fdb ! q)" using st(3) True by (simp add: word_le_nat_alt word_less_nat_alt)
    from Suc.IH [OF st(2) this w(1)] have "chain fdb (ps' @ [r])" "hd (ps' @ [r]) = q" "alive fdb r"
      "num (heap fdb ! r) = target" "\<forall>x \<in> set ps'. target < num (heap fdb ! x)" by blast+
    with q True w(2) show ?thesis by (cases ps') auto
  next
    case False
    with Suc.prems item_num [OF inv Suc.prems(1)] show ?thesis by auto
  qed
qed simp

lemma walk_down_fuel:
  assumes cr: "crypto_spec cr" and inv: "fork_inv cr fdb"
  shows "alive fdb p \<Longrightarrow> p < n \<Longrightarrow> walk_down cr fdb n target p \<noteq> Inl out_of_fuel"
proof (induction n arbitrary: p)
  case (Suc n)
  show ?case
  proof (cases "lock fdb (prev (heap fdb ! p))")
    case None
    then show ?thesis by (simp add: out_of_fuel_def)
  next
    case (Some q)
    note st = prev_step [OF cr inv Suc.prems(1) Some]
    with Suc.prems(2) have "q < n" by simp
    from Suc.IH [OF st(2) this] Some show ?thesis by (auto simp: bindE_eq_Inl)
  qed
qed simp

lemma walk_down_succeeds:
  assumes cr: "crypto_spec cr" and inv: "fork_inv cr fdb" and root: "rooted_at n0 r0 fdb" and t: "n0 \<le> target"
  shows "alive fdb p \<Longrightarrow> p < n \<Longrightarrow> \<exists>res. walk_down cr fdb n target p = Inr res"
proof (induction n arbitrary: p)
  case (Suc n)
  show ?case
  proof (cases "num (heap fdb ! p) > target")
    case True
    with t root Suc.prems(1) obtain q where "q \<in> set (fork_index fdb)" "prev (heap fdb ! p) = Some q"
      unfolding rooted_at_def by (metis le_less_trans)
    then have q: "lock fdb (prev (heap fdb ! p)) = Some q" by (simp add: lock_alive alive_def)
    note st = prev_step [OF cr inv Suc.prems(1) q]
    with Suc.prems(2) have "q < n" by simp
    from Suc.IH [OF st(2) this] q show ?thesis by auto
  next
    case False
    with item_num [OF inv Suc.prems(1)] show ?thesis by simp
  qed
qed simp

lemma walk_both_result:
  assumes cr: "crypto_spec cr" and inv: "fork_inv cr fdb"
  shows "alive fdb p \<Longrightarrow> alive fdb q \<Longrightarrow> num (heap fdb ! p) = num (heap fdb ! q) \<Longrightarrow>
    walk_both fdb n p q = Inr (ps, qs) \<Longrightarrow>
    chain fdb ps \<and> chain fdb qs \<and> ps \<noteq> [] \<and> qs \<noteq> [] \<and> hd ps = p \<and> hd qs = q \<and> length ps = length qs \<and>
    previous (data (heap fdb ! last ps)) = previous (data (heap fdb ! last qs)) \<and>
    num (heap fdb ! last ps) = num (heap fdb ! last qs) \<and>
    (\<forall>j < length ps - 1. previous (data (heap fdb ! (ps ! j))) \<noteq> previous (data (heap fdb ! (qs ! j))))"
proof (induction n arbitrary: p q ps qs)
  case (Suc n)
  show ?case
  proof (cases "previous (data (heap fdb ! p)) = previous (data (heap fdb ! q))")
    case True
    with Suc.prems show ?thesis by auto
  next
    case False
    with Suc.prems(4) obtain p' q' ps' qs' where l: "lock fdb (prev (heap fdb ! p)) = Some p'"
      "lock fdb (prev (heap fdb ! q)) = Some q'" and w: "walk_both fdb n p' q' = Inr (ps', qs')" "ps = p # ps'" "qs = q # qs'"
      by (auto simp: result_simps split: option.splits)
    note sp = prev_step [OF cr inv Suc.prems(1) l(1)] and sq = prev_step [OF cr inv Suc.prems(2) l(2)]
    have "num (heap fdb ! p') = num (heap fdb ! q')"
      using sp(3) sq(3) Suc.prems(3) by (simp add: word_unat_eq_iff)
    note ih = Suc.IH [OF sp(2) sq(2) this w(1)]
    then obtain a as c cs where ps': "ps' = a # as" "qs' = c # cs" by (metis neq_Nil_conv)
    have "previous (data (heap fdb ! ((p # ps') ! j))) \<noteq> previous (data (heap fdb ! ((q # qs') ! j)))"
      if "j < length (p # ps') - 1" for j
      using that ih False by (cases j) auto
    with ih ps' l show ?thesis by (auto simp: w)
  qed
qed simp

lemma walk_both_fuel:
  assumes cr: "crypto_spec cr" and inv: "fork_inv cr fdb"
  shows "alive fdb p \<Longrightarrow> alive fdb q \<Longrightarrow> p < n \<Longrightarrow> walk_both fdb n p q \<noteq> Inl out_of_fuel"
proof (induction n arbitrary: p q)
  case (Suc n)
  show ?case
  proof (cases "lock fdb (prev (heap fdb ! p))")
    case None
    then show ?thesis by (simp add: out_of_fuel_def)
  next
    case (Some p')
    note sp = prev_step [OF cr inv Suc.prems(1) Some]
    show ?thesis
    proof (cases "lock fdb (prev (heap fdb ! q))")
      case None
      with Some show ?thesis by (simp add: out_of_fuel_def)
    next
      case q': (Some q')
      note sq = prev_step [OF cr inv Suc.prems(2) q']
      from sp(1) Suc.prems(3) have "p' < n" by simp
      from Suc.IH [OF sp(2) sq(2) this] Some q' show ?thesis by (auto simp: bindE_eq_Inl)
    qed
  qed
qed simp

lemma walk_both_succeeds:
  assumes cr: "crypto_spec cr" and inv: "fork_inv cr fdb" and root: "rooted_at n0 r0 fdb"
  shows "alive fdb p \<Longrightarrow> alive fdb q \<Longrightarrow> num (heap fdb ! p) = num (heap fdb ! q) \<Longrightarrow> p < n \<Longrightarrow>
    \<exists>res. walk_both fdb n p q = Inr res"
proof (induction n arbitrary: p q)
  case (Suc n)
  show ?case
  proof (cases "previous (data (heap fdb ! p)) = previous (data (heap fdb ! q))")
    case False
    then have "num (heap fdb ! p) \<noteq> n0"
      using root Suc.prems(1-3) unfolding rooted_at_def by metis
    then have "n0 < num (heap fdb ! p)" using root Suc.prems(1) unfolding rooted_at_def by (metis order_le_less)
    then obtain p' q' where "p' \<in> set (fork_index fdb)" "prev (heap fdb ! p) = Some p'"
      "q' \<in> set (fork_index fdb)" "prev (heap fdb ! q) = Some q'"
      using root Suc.prems(1-3) unfolding rooted_at_def by metis
    then have l: "lock fdb (prev (heap fdb ! p)) = Some p'" "lock fdb (prev (heap fdb ! q)) = Some q'"
      by (simp_all add: lock_alive alive_def)
    note sp = prev_step [OF cr inv Suc.prems(1) l(1)] and sq = prev_step [OF cr inv Suc.prems(2) l(2)]
    have "num (heap fdb ! p') = num (heap fdb ! q')"
      using sp(3) sq(3) Suc.prems(3) by (simp add: word_unat_eq_iff)
    from Suc.IH [OF sp(2) sq(2) this] sp(1) Suc.prems(4) l show ?thesis by auto
  qed simp
qed simp

lemma chain_append: "chain fdb (xs @ [r]) \<Longrightarrow> chain fdb ys \<Longrightarrow> ys \<noteq> [] \<Longrightarrow> hd ys = r \<Longrightarrow> chain fdb (xs @ ys)"
proof (induction xs)
  case Nil
  then show ?case by simp
next
  case (Cons x xs)
  then show ?case by (cases xs; cases ys) auto
qed

declare walk_down.simps [simp del] walk_both.simps [simp del]

lemma fetch_branch_cases:
  assumes cr: "crypto_spec cr" and inv: "fork_inv cr fdb" and run: "fetch_branch_from cr a b fdb = Inr (ps, qs)"
  obtains p q p' q' ps1 qs1 ps2 qs2 where
    "find_id (heap fdb) a (fork_index fdb) = Some p" "find_id (heap fdb) b (fork_index fdb) = Some q"
    "ps = ps1 @ ps2" "qs = qs1 @ qs2" "ps1 = [] \<or> qs1 = []"
    "chain fdb (ps1 @ [p'])" "hd (ps1 @ [p']) = p" "chain fdb (qs1 @ [q'])" "hd (qs1 @ [q']) = q"
    "alive fdb p'" "alive fdb q'" "num (heap fdb ! p') = num (heap fdb ! q')"
    "walk_both fdb (Suc (length (heap fdb))) p' q' = Inr (ps2, qs2)"
proof -
  let ?n = "Suc (length (heap fdb))"
  from run obtain p q ps1 p' qs1 q' ps2 qs2 where
    f: "find_id (heap fdb) a (fork_index fdb) = Some p" "find_id (heap fdb) b (fork_index fdb) = Some q"
    and w1: "walk_down cr fdb ?n (block_num cr (data (heap fdb ! q))) p = Inr (ps1, p')"
    and w2: "walk_down cr fdb ?n (block_num cr (data (heap fdb ! p'))) q = Inr (qs1, q')"
    and w3: "walk_both fdb ?n p' q' = Inr (ps2, qs2)" and res: "ps = ps1 @ ps2" "qs = qs1 @ qs2"
    unfolding fetch_branch_from_def Let_def by (auto simp: result_simps split: prod.splits)
  have al: "alive fdb p" "alive fdb q" using f [THEN find_id_Some] by (simp_all add: alive_def)
  note n = item_num [OF inv]
  show ?thesis
  proof (cases "num (heap fdb ! q) \<le> num (heap fdb ! p)")
    case True
    from walk_down_result [OF cr inv al(1) _ w1] True n [OF al(2)]
    have r1: "chain fdb (ps1 @ [p'])" "hd (ps1 @ [p']) = p" "alive fdb p'" "num (heap fdb ! p') = num (heap fdb ! q)"
      by simp_all
    with w2 n [OF al(2)] n [OF r1(3)] have "qs1 = []" "q' = q" by (auto simp: walk_down.simps split: if_splits)
    with r1 f res w3 al show ?thesis by (intro that) auto
  next
    case False
    with w1 n al have r1: "ps1 = []" "p' = p" by (auto simp: walk_down.simps split: if_splits option.splits)
    from walk_down_result [OF cr inv al(2) _ w2] False r1 n [OF al(1)]
    have "chain fdb (qs1 @ [q'])" "hd (qs1 @ [q']) = q" "alive fdb q'" "num (heap fdb ! q') = num (heap fdb ! p)"
      by simp_all
    with r1 f res w3 al show ?thesis by (intro that) auto
  qed
qed

lemma fetch_branch_fuel:
  assumes cr: "crypto_spec cr" and inv: "fork_inv cr fdb"
  shows "fetch_branch_from cr a b fdb \<noteq> Inl out_of_fuel"
proof
  let ?n = "Suc (length (heap fdb))"
  assume "fetch_branch_from cr a b fdb = Inl out_of_fuel"
  then consider p q where "find_id (heap fdb) a (fork_index fdb) = Some p"
      "walk_down cr fdb ?n (block_num cr (data (heap fdb ! q))) p = Inl out_of_fuel"
    | p q p' where "find_id (heap fdb) a (fork_index fdb) = Some p" "find_id (heap fdb) b (fork_index fdb) = Some q"
      "walk_down cr fdb ?n (block_num cr (data (heap fdb ! p'))) q = Inl out_of_fuel"
    | p q p' q' ps1 qs1 where "find_id (heap fdb) a (fork_index fdb) = Some p" "find_id (heap fdb) b (fork_index fdb) = Some q"
      "walk_down cr fdb ?n (block_num cr (data (heap fdb ! q))) p = Inr (ps1, p')"
      "walk_down cr fdb ?n (block_num cr (data (heap fdb ! p'))) q = Inr (qs1, q')"
      "walk_both fdb ?n p' q' = Inl out_of_fuel"
    unfolding fetch_branch_from_def Let_def
    by (auto simp: result_simps out_of_fuel_def split: prod.splits)
  then show False
  proof cases
    case 1
    then have "alive fdb p" by (auto dest: find_id_Some simp: alive_def)
    with walk_down_fuel [OF cr inv this, of ?n] fork_invD(2) [OF inv this] 1 show False by simp
  next
    case 2
    then have "alive fdb q" by (auto dest: find_id_Some simp: alive_def)
    with walk_down_fuel [OF cr inv this, of ?n] fork_invD(2) [OF inv this] 2 show False by simp
  next
    case 3
    have al: "alive fdb p" "alive fdb q" using 3(1,2) [THEN find_id_Some] by (simp_all add: alive_def)
    have down: "walk_down cr fdb m t x = Inr (ys, y) \<Longrightarrow> alive fdb x \<Longrightarrow> alive fdb y" for m t x ys y
      by (induction m arbitrary: x ys) (auto simp: walk_down.simps result_simps lock_alive split: if_splits option.splits)
    have "alive fdb p'" "alive fdb q'" using down 3(3,4) al by blast+
    with walk_both_fuel [OF cr inv this, of ?n] fork_invD(2) [OF inv this(1)] 3(5) show False by simp
  qed
qed

lemma fetch_branch_succeeds:
  assumes cr: "crypto_spec cr" and inv: "fork_inv cr fdb" and root: "rooted_at n0 r fdb"
    and known: "find_id (heap fdb) a (fork_index fdb) = Some p" "find_id (heap fdb) b (fork_index fdb) = Some q"
  shows "\<exists>ps qs. fetch_branch_from cr a b fdb = Inr (ps, qs)"
proof -
  let ?n = "Suc (length (heap fdb))"
  have al: "alive fdb p" "alive fdb q" using known [THEN find_id_Some] by (simp_all add: alive_def)
  note n = item_num [OF inv] and lt = fork_invD(2) [OF inv]
  have ge: "n0 \<le> num (heap fdb ! x)" if "alive fdb x" for x using root that by (simp add: rooted_at_def)
  from walk_down_succeeds [OF cr inv root ge [OF al(2)] al(1), of ?n] lt [OF al(1)] n [OF al(2)]
  obtain ps1 p' where w1: "walk_down cr fdb ?n (block_num cr (data (heap fdb ! q))) p = Inr (ps1, p')" by auto
  have "alive fdb p' \<and> num (heap fdb ! p') \<le> num (heap fdb ! q)"
  proof (cases "num (heap fdb ! q) \<le> num (heap fdb ! p)")
    case True
    with walk_down_result [OF cr inv al(1) _ w1] n [OF al(2)] show ?thesis by simp
  next
    case False
    then have "num (heap fdb ! p) < num (heap fdb ! q)" by simp
    with w1 n [OF al(1)] n [OF al(2)] al show ?thesis by (auto simp: walk_down.simps split: if_splits)
  qed
  then have p': "alive fdb p'" "num (heap fdb ! p') \<le> num (heap fdb ! q)" by blast+
  from walk_down_succeeds [OF cr inv root ge [OF p'(1)] al(2), of ?n] lt [OF al(2)] n [OF p'(1)]
  obtain qs1 q' where w2: "walk_down cr fdb ?n (block_num cr (data (heap fdb ! p'))) q = Inr (qs1, q')" by auto
  from walk_down_result [OF cr inv al(2) _ w2] n [OF p'(1)] p'(2)
  have q': "alive fdb q'" "num (heap fdb ! p') = num (heap fdb ! q')" by auto
  from walk_both_succeeds [OF cr inv root p'(1) q', of ?n] lt [OF p'(1)] obtain ps2 qs2
    where w3: "walk_both fdb ?n p' q' = Inr (ps2, qs2)" by auto
  show ?thesis unfolding fetch_branch_from_def Let_def using known w1 w2 w3 by simp
qed

section \<open>Growing trees\<close>

lemma alive_push_linked:
  assumes "alive (push_linked p fdb) x"
  shows "alive fdb x \<or> x = p"
  using assms set_index_insert [of "heap fdb" p "fork_index fdb"]
  by (auto simp: push_linked_def Let_def alive_def split: option.splits if_splits dest!: set_dropWhileD)

lemma heap_push_linked [simp]: "heap (push_linked p fdb) = heap fdb"
  by (simp add: push_linked_def Let_def split: option.splits)

lemma dropWhile_none: "(\<And>x. x \<in> set xs \<Longrightarrow> \<not> P x) \<Longrightarrow> dropWhile P xs = xs"
  by (cases xs) auto

lemma set_index_insert_mono: "set ps \<subseteq> set (index_insert items p ps)"
  by (auto simp: index_insert_def)

text \<open>Nothing is cut off while the tree stays within the maximal size.\<close>

lemma push_linked_keeps:
  assumes low: "\<And>x. x \<in> set (fork_index fdb) \<Longrightarrow> n0 \<le> num (heap fdb ! x)" "n0 \<le> num (heap fdb ! p)"
    and size: "unat (num (heap fdb ! p)) \<le> unat n0 + unat (fork_max_size fdb)"
  shows "set (fork_index fdb) \<subseteq> set (fork_index (push_linked p fdb))"
proof -
  let ?ps = "index_insert (heap fdb) p (fork_index fdb)" and ?n = "num (heap fdb ! p)"
  let ?min = "?n - min (fork_max_size fdb) ?n"
  have "?min \<le> n0"
    using size by (auto simp: word_le_nat_alt unat_sub min_def)
  then have "\<not> num (heap fdb ! x) < ?min" if "x \<in> set ?ps" for x
    using that set_index_insert [of "heap fdb" p "fork_index fdb"] low by (auto simp: not_less intro: order_trans)
  then have "dropWhile (\<lambda>q. num (heap fdb ! q) < ?min) ?ps = ?ps" by (rule dropWhile_none)
  then show ?thesis using set_index_insert_mono [of "fork_index fdb" "heap fdb" p]
    by (auto simp: push_linked_def Let_def split: option.splits)
qed

text \<open>A tree grown from a start block by pushing linked blocks, within the maximal size.\<close>

inductive grown :: "'tx crypto_ops \<Rightarrow> 32 word \<Rightarrow> block_id_type \<Rightarrow> 'tx fork_database \<Rightarrow> bool" for cr where
  start: "grown cr (block_num cr b) (previous b) (start_block cr b new_fork_database)"
| push: "grown cr n0 r fdb \<Longrightarrow> push_block cr b fdb = Inr (fdb', h) \<Longrightarrow> previous b \<noteq> null_block_id \<Longrightarrow>
    unat (block_num cr b) \<le> unat n0 + unat (fork_max_size fdb) \<Longrightarrow> grown cr n0 r fdb'"

lemma new_fork_database_inv: "fork_inv cr new_fork_database"
  by (simp add: fork_inv_def new_fork_database_def alive_def index_ok_def)

lemma grown_inv: "grown cr n0 r fdb \<Longrightarrow> fork_inv cr fdb \<and> fork_head fdb \<noteq> None"
proof (induction rule: grown.induct)
  case (start b)
  then show ?case using start_block_inv [OF new_fork_database_inv] by (simp add: start_block_def Let_def)
next
  case (push n0 r fdb b fdb' h)
  then have "fork_inv cr fdb'" using push_block_inv by blast
  moreover have "fork_head fdb' \<noteq> None"
    using push.hyps(2) by (auto simp: push_block_def push_item_def push_linked_def Let_def result_simps split: if_splits option.splits)
  ultimately show ?case by simp
qed

lemma grown_rooted:
  assumes cr: "crypto_spec cr"
  shows "grown cr n0 r fdb \<Longrightarrow> rooted_at n0 r fdb"
proof (induction rule: grown.induct)
  case (start b)
  show ?case
    by (auto simp: rooted_at_def start_block_def Let_def new_fork_database_def alive_def index_insert_def
        find_id_def make_item_def)
next
  case (push n0 r fdb b fdb' h)
  let ?p = "length (heap fdb)" and ?fdb = "fdb\<lparr>heap := heap fdb @ [make_item cr b]\<rparr>"
  have inv: "fork_inv cr fdb" "fork_head fdb \<noteq> None" using grown_inv [OF push.hyps(1)] by simp_all
  from push.hyps(2) have "push_item ?p ?fdb = Inr fdb'" by (auto simp: push_block_def result_simps)
  then obtain q where q: "find_id (heap ?fdb) (previous b) (fork_index ?fdb) = Some q"
    "\<not> too_old (block_num cr b) (num (heap ?fdb ! the (fork_head fdb))) (fork_max_size fdb)"
    "fdb' = push_linked ?p (?fdb\<lparr>heap := (heap ?fdb)[?p := (heap ?fdb ! ?p)\<lparr>prev := Some q\<rparr>]\<rparr>)"
    by (cases rule: push_item_cases) (use inv push.hyps(3) in \<open>auto simp: previous_id_def make_item_def\<close>)
  let ?it = "(make_item cr b)\<lparr>prev := Some q\<rparr>"
  let ?fdb2 = "fdb\<lparr>heap := heap fdb @ [?it]\<rparr>"
  have fdb': "fdb' = push_linked ?p ?fdb2" using q(3) by (simp add: list_update_append)
  from find_id_Some [OF q(1)] have qi: "q \<in> set (fork_index fdb)" "item_id (heap ?fdb ! q) = previous b" by simp_all
  have old: "heap ?fdb2 ! x = heap fdb ! x" if "alive fdb x" for x
    using fork_invD(2) [OF inv(1) that] by (simp add: nth_append)
  have new: "heap ?fdb2 ! ?p = ?it" by simp
  have aq: "alive fdb q" using qi(1) by (simp add: alive_def)
  have "item_id (heap fdb ! q) = previous b" using qi(2) fork_invD(2) [OF inv(1) aq] by (simp add: nth_append)
  then have "block_num cr b = num (heap fdb ! q) + 1"
    using fork_invD(1) [OF inv(1) fork_invD(2) [OF inv(1) aq]] num_from_id_block_id [OF cr]
    by (simp add: item_ok_def block_num_def)
  moreover have "block_num cr b \<noteq> 0" by (rule not_too_old_pos [OF q(2)])
  ultimately have "unat (block_num cr b) = Suc (unat (num (heap fdb ! q)))" by (metis Suc_eq_plus1 add.commute unatSuc)
  moreover have "n0 \<le> num (heap fdb ! q)" using push.IH aq by (simp add: rooted_at_def)
  ultimately have lt: "n0 < block_num cr b" by (simp add: word_le_nat_alt word_less_nat_alt)
  have low: "n0 \<le> num (heap ?fdb2 ! x)" if "x \<in> set (fork_index ?fdb2)" for x
  proof -
    have "alive fdb x" using that by (simp add: alive_def)
    with push.IH old show ?thesis by (simp add: rooted_at_def)
  qed
  have "set (fork_index ?fdb2) \<subseteq> set (fork_index fdb')"
    unfolding fdb' by (rule push_linked_keeps [OF low]) (use lt push.hyps(4) in \<open>simp_all add: make_item_def\<close>)
  then have keep: "set (fork_index fdb) \<subseteq> set (fork_index fdb')" by simp
  show ?case unfolding rooted_at_def
  proof (intro allI impI)
    fix x assume "alive fdb' x"
    then consider "alive fdb x" | "x = ?p" using alive_push_linked [of ?p ?fdb2] by (auto simp: fdb' alive_def)
    then show "n0 \<le> num (heap fdb' ! x) \<and> (n0 < num (heap fdb' ! x) \<longrightarrow>
        (\<exists>y \<in> set (fork_index fdb'). prev (heap fdb' ! x) = Some y)) \<and>
        (num (heap fdb' ! x) = n0 \<longrightarrow> previous (data (heap fdb' ! x)) = r)"
    proof cases
      case 1
      then have "heap fdb' ! x = heap fdb ! x" using old by (simp add: fdb')
      moreover from push.IH 1 have "n0 \<le> num (heap fdb ! x) \<and> (n0 < num (heap fdb ! x) \<longrightarrow>
          (\<exists>y \<in> set (fork_index fdb). prev (heap fdb ! x) = Some y)) \<and>
          (num (heap fdb ! x) = n0 \<longrightarrow> previous (data (heap fdb ! x)) = r)" unfolding rooted_at_def by blast
      ultimately show ?thesis using keep by auto
    next
      case 2
      then have "heap fdb' ! x = ?it" using new by (simp add: fdb')
      with lt keep qi(1) show ?thesis by (auto simp: make_item_def)
    qed
  qed
qed

lemma sorted_dropWhile_ge:
  "sorted_wrt (\<lambda>p q. num (items ! p) \<le> num (items ! q)) ps \<Longrightarrow>
   y \<in> set (dropWhile (\<lambda>q. num (items ! q) < m) ps) \<Longrightarrow> m \<le> num (items ! y)"
  by (induction ps) (auto split: if_splits)

section \<open>An example tree\<close>

text \<open>A start block with two children, one of which has a child.\<close>

definition example_b1 :: "nat signed_block" where "example_b1 = example_block null_block_id 1"
definition example_b2 :: "nat signed_block" where "example_b2 = example_block (block_id example_crypto example_b1) 2"
definition example_b3 :: "nat signed_block" where "example_b3 = example_block (block_id example_crypto example_b1) 3"
definition example_b4 :: "nat signed_block" where "example_b4 = example_block (block_id example_crypto example_b3) 4"

definition pushed :: "nat signed_block \<Rightarrow> nat fork_database \<Rightarrow> nat fork_database" where
  "pushed b fdb = (case push_block example_crypto b fdb of Inr (f, _) \<Rightarrow> f | Inl _ \<Rightarrow> fdb)"

definition example_f1 :: "nat fork_database" where
  "example_f1 = start_block example_crypto example_b1 new_fork_database"

definition example_fork :: "nat fork_database" where
  "example_fork = pushed example_b3 (pushed example_b2 example_f1)"

definition example_fork4 :: "nat fork_database" where
  "example_fork4 = pushed example_b4 example_fork"

lemma example_push4: "push_block example_crypto example_b4 example_fork = Inr (example_fork4, Some 3)"
  by code_simp

lemma pushed_eq: "push_block example_crypto b fdb = Inr (f, h) \<Longrightarrow> pushed b fdb = f"
  by (simp add: pushed_def)

lemma example_grown: "grown example_crypto 1 null_block_id example_fork4" "fork_inv example_crypto example_fork"
proof -
  have g1: "grown example_crypto 1 null_block_id example_f1"
  proof -
    have "grown example_crypto (block_num example_crypto example_b1) (previous example_b1) example_f1"
      unfolding example_f1_def by (rule grown.start)
    moreover have "block_num example_crypto example_b1 = 1" "previous example_b1 = null_block_id" by code_simp+
    ultimately show ?thesis by simp
  qed
  have grow: "grown example_crypto 1 null_block_id (pushed b fdb)"
    if "grown example_crypto 1 null_block_id fdb" "push_block example_crypto b fdb = Inr (pushed b fdb, h)"
      "previous b \<noteq> null_block_id" "unat (block_num example_crypto b) \<le> unat (1 :: 32 word) + unat (fork_max_size fdb)" for b fdb h
    using that by (rule grown.push)
  have g2: "grown example_crypto 1 null_block_id (pushed example_b2 example_f1)"
    by (rule grow [OF g1, where h = "Some 1"]) code_simp+
  have g3: "grown example_crypto 1 null_block_id example_fork"
    unfolding example_fork_def by (rule grow [OF g2, where h = "Some 1"]) code_simp+
  show "grown example_crypto 1 null_block_id example_fork4"
    unfolding example_fork4_def by (rule grow [OF g3, where h = "Some 3"]) code_simp+
  show "fork_inv example_crypto example_fork" using grown_inv [OF g3] by simp
qed

lemma example_fetch: "fetch_branch_from example_crypto (block_id example_crypto example_b4)
    (block_id example_crypto example_b2) example_fork4 = Inr ([3, 2], [1])"
  by code_simp

section \<open>Properties\<close>

text \<open>
  C13. The two branches that \<open>fetch_branch_from\<close> returns start at the requested blocks, follow the
  predecessor pointers, end with blocks of equal number that have the same predecessor, and do not
  meet before: counted from the end, any earlier pair has different predecessors.
\<close>

theorem fetch_branch_from_meets:
  assumes "crypto_spec cr" and "fork_inv cr fdb" and "fetch_branch_from cr a b fdb = Inr (ps, qs)"
  shows "chain fdb ps \<and> chain fdb qs \<and> ps \<noteq> [] \<and> qs \<noteq> [] \<and>
    item_id (heap fdb ! hd ps) = a \<and> item_id (heap fdb ! hd qs) = b \<and>
    previous (data (heap fdb ! last ps)) = previous (data (heap fdb ! last qs)) \<and>
    num (heap fdb ! last ps) = num (heap fdb ! last qs) \<and>
    (\<forall>j. 0 < j \<and> j < min (length ps) (length qs) \<longrightarrow>
      previous (data (heap fdb ! (rev ps ! j))) \<noteq> previous (data (heap fdb ! (rev qs ! j))))"
proof -
  obtain p q p' q' ps1 qs1 ps2 qs2 where
    c: "find_id (heap fdb) a (fork_index fdb) = Some p" "find_id (heap fdb) b (fork_index fdb) = Some q"
    "ps = ps1 @ ps2" "qs = qs1 @ qs2" "ps1 = [] \<or> qs1 = []"
    "chain fdb (ps1 @ [p'])" "hd (ps1 @ [p']) = p" "chain fdb (qs1 @ [q'])" "hd (qs1 @ [q']) = q"
    "alive fdb p'" "alive fdb q'" "num (heap fdb ! p') = num (heap fdb ! q')"
    "walk_both fdb (Suc (length (heap fdb))) p' q' = Inr (ps2, qs2)"
    by (rule fetch_branch_cases [OF assms])
  note w = walk_both_result [OF assms(1,2) c(10-13)]
  have ch: "chain fdb ps" "chain fdb qs" unfolding c(3,4) using chain_append c(6,8) w by blast+
  have hd: "hd ps = p" "hd qs = q" using c(3,4,7,9) w by (cases ps1; cases qs1; auto)+
  have "previous (data (heap fdb ! (rev ps ! j))) \<noteq> previous (data (heap fdb ! (rev qs ! j)))"
    if j: "0 < j" "j < min (length ps) (length qs)" for j
  proof -
    have len: "length ps2 = length qs2" and j2: "j < length ps2" using w j(2) c(3-5) by auto
    have "rev ps ! j = ps2 ! (length ps2 - Suc j)" "rev qs ! j = qs2 ! (length ps2 - Suc j)"
      using j2 len by (simp_all add: c(3,4) nth_append rev_nth)
    moreover have "length ps2 - Suc j < length ps2 - 1" using j(1) j2 by simp
    ultimately show ?thesis using w by simp
  qed
  with ch hd w c(3,4) c(1,2) [THEN find_id_Some] show ?thesis by simp
qed

theorem fetch_branch_from_meets_witness:
  "chain example_fork4 [3, 2] \<and> chain example_fork4 [1] \<and>
   previous (data (heap example_fork4 ! 2)) = previous (data (heap example_fork4 ! 1)) \<and>
   num (heap example_fork4 ! 2) = num (heap example_fork4 ! 1)"
  using fetch_branch_from_meets [OF example_crypto_spec _ example_fetch] grown_inv [OF example_grown(1)] by simp

text \<open>
  C21. \<open>fetch_branch_from\<close> always ends, since every step leads to an older item; and in a tree grown
  from a start block within the maximal size it succeeds for any two blocks of the index.
\<close>

theorem fetch_branch_from_terminates:
  assumes "crypto_spec cr"
  shows "(fork_inv cr fdb \<longrightarrow> fetch_branch_from cr a b fdb \<noteq> Inl out_of_fuel) \<and>
    (grown cr n0 r fdb \<and> find_id (heap fdb) a (fork_index fdb) \<noteq> None \<and> find_id (heap fdb) b (fork_index fdb) \<noteq> None \<longrightarrow>
      (\<exists>ps qs. fetch_branch_from cr a b fdb = Inr (ps, qs)))"
  using fetch_branch_fuel [OF assms] fetch_branch_succeeds [OF assms] grown_rooted [OF assms] grown_inv by fast

theorem fetch_branch_from_terminates_witness:
  "\<exists>ps qs. fetch_branch_from example_crypto (block_id example_crypto example_b4)
    (block_id example_crypto example_b2) example_fork4 = Inr (ps, qs)"
proof -
  have "find_id (heap example_fork4) (block_id example_crypto example_b4) (fork_index example_fork4) = Some 3"
    "find_id (heap example_fork4) (block_id example_crypto example_b2) (fork_index example_fork4) = Some 1" by code_simp+
  with fetch_branch_from_terminates [OF example_crypto_spec] example_grown(1) show ?thesis by fastforce
qed

text \<open>
  C23. Every operation keeps the fork database consistent: items carry the number and identifier of
  their block, predecessor pointers lead to the block named by \<open>previous\<close>, one number lower, the
  index is ordered by number with unique identifiers, and the unlinked index stays empty.
\<close>

theorem fork_database_invariant:
  assumes "fork_inv cr fdb"
  shows "(push_block cr b fdb = Inr (fdb', h) \<longrightarrow> fork_inv cr fdb') \<and> (pop_block fdb = Inr fdb' \<longrightarrow> fork_inv cr fdb') \<and>
    fork_inv cr (start_block cr b fdb) \<and> fork_inv cr (remove i fdb) \<and> fork_inv cr (reset fdb) \<and>
    fork_inv cr (set_max_size n fdb) \<and> (alive fdb p \<longrightarrow> fork_inv cr (set_head (Some p) fdb))"
  using push_block_inv [OF assms] pop_block_inv [OF assms] start_block_inv [OF assms] remove_inv [OF assms]
    reset_inv [OF assms] set_max_size_inv [OF assms] set_head_inv [OF assms] by blast

theorem fork_database_invariant_witness:
  "fork_inv example_crypto example_fork4 \<and> fork_inv example_crypto (remove (block_id example_crypto example_b2) example_fork) \<and>
   fork_inv example_crypto (set_max_size 1 example_fork)"
  using fork_database_invariant [OF example_grown(2)] example_push4 by blast

text \<open>
  C25. Pushing a block makes it known, and returns the longer of the old head and the new block: the
  head changes exactly when the new block has a higher number. When the head was the highest block
  of the index it still is, and when the head advances every block of the index is within
  \<open>fork_max_size\<close> of it.
\<close>

theorem push_block_returns_longest:
  assumes "fork_inv cr fdb" and "push_block cr b fdb = Inr (fdb', h')" and "fork_head fdb = Some h" and "crypto_spec cr"
  shows "is_known_block (block_id cr b) fdb' \<and> h' = fork_head fdb' \<and>
    h' = Some (if num (heap fdb ! h) < block_num cr b then length (heap fdb) else h) \<and>
    num (heap fdb' ! the h') = max (num (heap fdb ! h)) (block_num cr b) \<and>
    ((\<forall>p \<in> set (fork_index fdb). num (heap fdb ! p) \<le> num (heap fdb ! h)) \<longrightarrow>
     (\<forall>p \<in> set (fork_index fdb'). num (heap fdb' ! p) \<le> num (heap fdb' ! the h'))) \<and>
    (h' \<noteq> Some h \<longrightarrow> (\<forall>p \<in> set (fork_index fdb').
       unat (num (heap fdb' ! the h')) \<le> unat (num (heap fdb' ! p)) + unat (fork_max_size fdb)))"
proof -
  let ?p = "length (heap fdb)"
  from assms(2) have run: "push_item ?p (fdb\<lparr>heap := heap fdb @ [make_item cr b]\<rparr>) = Inr fdb'" and h': "h' = fork_head fdb'"
    by (auto simp: push_block_def result_simps)
  have "\<exists>it. fdb' = push_linked ?p (fdb\<lparr>heap := heap fdb @ [it]\<rparr>) \<and> num it = block_num cr b \<and> item_id it = block_id cr b"
    using run by (cases rule: push_item_cases) (auto simp: make_item_def list_update_append)
  then obtain it where it: "fdb' = push_linked ?p (fdb\<lparr>heap := heap fdb @ [it]\<rparr>)" "num it = block_num cr b"
    "item_id it = block_id cr b" by blast
  let ?items = "heap fdb @ [it]" and ?n = "block_num cr b"
  let ?ps = "index_insert ?items ?p (fork_index fdb)" and ?min = "?n - min (fork_max_size fdb) ?n"
  have lt: "alive fdb x \<Longrightarrow> x < ?p" for x by (rule fork_invD(2) [OF assms(1)])
  have hlt: "h < ?p" using lt [of h] assms(3) by (simp add: alive_def)
  have old: "?items ! x = heap fdb ! x" if "x \<in> set (fork_index fdb)" for x
    using lt [of x] that by (simp add: alive_def nth_append)
  have oldh: "?items ! h = heap fdb ! h" using hlt by (simp add: nth_append)
  have items: "heap fdb' = ?items" by (simp add: it)
  have head: "fork_head fdb' = Some (if num (heap fdb ! h) < ?n then ?p else h)"
    and idx: "fork_index fdb' = (if num (heap fdb ! h) < ?n then dropWhile (\<lambda>q. num (?items ! q) < ?min) ?ps else ?ps)"
    using assms(3) it(2) oldh by (simp_all add: it push_linked_def Let_def)
  have ok: "index_ok ?items ?ps"
    using fork_invD(3) [OF assms(1)] lt by (intro index_insert_ok) (simp add: index_ok_append alive_def)
  have kept: "x \<in> set ?ps \<Longrightarrow> \<not> num (?items ! x) < ?min \<Longrightarrow> x \<in> set (dropWhile (\<lambda>q. num (?items ! q) < ?min) ?ps)" for x
    by (metis (mono_tags, lifting) Un_iff set_append set_takeWhileD takeWhile_dropWhile_id)
  have "\<exists>x \<in> set ?ps. item_id (?items ! x) = block_id cr b \<and> num (?items ! x) = ?n"
  proof (cases "find_id ?items (block_id cr b) (fork_index fdb)")
    case None
    then show ?thesis using it by (auto simp: index_insert_def)
  next
    case (Some x)
    note x = find_id_Some [OF Some]
    have ax: "alive fdb x" using x by (simp add: alive_def)
    note okx = fork_invD(1) [OF assms(1) lt [OF ax]]
    have "item_id (heap fdb ! x) = block_id cr b" using x old [of x] by simp
    with okx have "block_id cr (data (heap fdb ! x)) = block_id cr b" by (simp add: item_ok_def)
    then have "num (heap fdb ! x) = ?n" using okx num_from_id_block_id [OF assms(4)] by (metis item_ok_def)
    with x old [of x] Some it show ?thesis by (intro bexI [of _ x]) (auto simp: index_insert_def)
  qed
  then obtain x where x: "x \<in> set ?ps" "item_id (?items ! x) = block_id cr b" "num (?items ! x) = ?n" by blast
  have "?min \<le> ?n" by (simp add: word_le_nat_alt unat_sub min_def)
  then have "x \<in> set (fork_index fdb')" using kept [OF x(1)] x by (simp add: idx)
  then have known: "is_known_block (block_id cr b) fdb'" using x(2) by (force simp: is_known_block_def find_id_None items)
  have hnum: "num (heap fdb' ! the (fork_head fdb')) = max (num (heap fdb ! h)) ?n"
    using oldh it(2) by (auto simp: head items max_def)
  have sub: "set (fork_index fdb') \<subseteq> insert ?p (set (fork_index fdb))"
    using set_index_insert [of ?items ?p "fork_index fdb"] by (auto simp: idx split: if_splits dest: set_dropWhileD)
  have high: "num (heap fdb' ! y) \<le> max (num (heap fdb ! h)) ?n"
    if "\<forall>p \<in> set (fork_index fdb). num (heap fdb ! p) \<le> num (heap fdb ! h)" "y \<in> set (fork_index fdb')" for y
  proof (cases "y = ?p")
    case True
    then show ?thesis by (simp add: items it(2))
  next
    case False
    with that sub old [of y] show ?thesis by (auto simp: items max.coboundedI1)
  qed
  have window: "unat ?n \<le> unat (num (heap fdb' ! y)) + unat (fork_max_size fdb)"
    if "num (heap fdb ! h) < ?n" "y \<in> set (fork_index fdb')" for y
  proof -
    have "?min \<le> num (?items ! y)"
      by (rule sorted_dropWhile_ge [where ps = ?ps]) (use ok that idx in \<open>simp_all add: index_ok_def\<close>)
    then show ?thesis by (auto simp: items word_le_nat_alt unat_sub min_def split: if_splits)
  qed
  show ?thesis
    using known hnum high window hlt by (auto simp: h' head max_def)
qed

theorem push_block_returns_longest_witness:
  "is_known_block (block_id example_crypto example_b4) example_fork4 \<and>
   num (heap example_fork4 ! 3) = max (num (heap example_fork ! 1)) (block_num example_crypto example_b4)"
proof -
  have "fork_head example_fork = Some 1" by code_simp
  from push_block_returns_longest [OF example_grown(2) example_push4 this example_crypto_spec] show ?thesis by simp
qed

end
