(* ===== verification/Account_Uid.thy ===== *)
theory Account_Uid
  imports Prelude
begin

text \<open>
  Account numbers with a check byte, and the text form of keys: \<^verbatim>\<open>libraries/chain/protocol/types.cpp\<close>.
  The hash functions, base58 and the binary packing come from the fc library and are arguments; what
  is used of them is that unpacking and decoding undo packing and encoding.
\<close>

section \<open>Account numbers\<close>

unbundle bit_operations_syntax

type_synonym account_uid_type = "64 word"

text \<open>\<open>sha\<close> gives the first 64-bit word of the hash.\<close>

definition calc_account_uid :: "(64 word \<Rightarrow> 64 word) \<Rightarrow> 64 word \<Rightarrow> account_uid_type" where
  "calc_account_uid sha id_without_checksum =
     (let mx = drop_bit 8 (- 1); i = id_without_checksum AND mx; hd = sha i AND 0xFF
      in push_bit 8 i OR hd)"

definition is_valid_account_uid :: "(64 word \<Rightarrow> 64 word) \<Rightarrow> account_uid_type \<Rightarrow> bool" where
  "is_valid_account_uid sha uid =
     (let checksum = uid AND 0xFF; to_check = drop_bit 8 uid; hd = sha to_check AND 0xFF
      in checksum = hd)"

definition committee_account_uid :: "(64 word \<Rightarrow> 64 word) \<Rightarrow> account_uid_type" where
  "committee_account_uid sha = calc_account_uid sha 1"

definition null_account_uid :: "(64 word \<Rightarrow> 64 word) \<Rightarrow> account_uid_type" where
  "null_account_uid sha = calc_account_uid sha 4"

definition temp_account_uid :: "(64 word \<Rightarrow> 64 word) \<Rightarrow> account_uid_type" where
  "temp_account_uid sha = calc_account_uid sha 5"

section \<open>Text form of keys\<close>

text \<open>Key data with its checksum is packed, encoded and prefixed.\<close>

record 'd key_ops =
  to_base58 :: "8 word list \<Rightarrow> string"
  from_base58 :: "string \<Rightarrow> 8 word list option"
  pack_key :: "'d \<times> 32 word \<Rightarrow> 8 word list"
  unpack_key :: "8 word list \<Rightarrow> ('d \<times> 32 word) option"
  ripemd160_word :: "'d \<Rightarrow> 32 word"

definition key_ops_spec :: "'d key_ops \<Rightarrow> bool" where
  "key_ops_spec k \<longleftrightarrow> (\<forall>b. from_base58 k (to_base58 k b) = Some b) \<and>
     (\<forall>d. unpack_key k (pack_key k d) = Some d) \<and> (\<forall>b. b \<noteq> [] \<longrightarrow> to_base58 k b \<noteq> []) \<and> (\<forall>d. pack_key k d \<noteq> [])"

definition address_prefix :: string where
  "address_prefix = ''YYW''"

definition key_to_string :: "'d key_ops \<Rightarrow> 'd \<Rightarrow> string" where
  "key_to_string k d = address_prefix @ to_base58 k (pack_key k (d, ripemd160_word k d))"

definition key_from_string :: "'d key_ops \<Rightarrow> string \<Rightarrow> 'd result" where
  "key_from_string k base58str =
     (let prefix_len = length address_prefix
      in fc_assert (length base58str > prefix_len) ''base58str.size() > prefix_len''
        (fc_assert (take prefix_len base58str = address_prefix) ''base58str.substr( 0, prefix_len ) ==  prefix''
        (bindE (option_or (Assert_Exception ''from_base58'') (from_base58 k (drop prefix_len base58str))) (\<lambda>bin.
         bindE (option_or (Assert_Exception ''unpack'') (unpack_key k bin)) (\<lambda>(d, check).
         fc_assert (ripemd160_word k d = check) ''key check'' (Inr d))))))"

section \<open>Properties\<close>

lemma uid_parts:
  fixes i :: "64 word"
  shows "(push_bit 8 (i AND drop_bit 8 (- 1)) OR (h AND 0xFF)) AND 0xFF = h AND 0xFF"
    and "drop_bit 8 (push_bit 8 (i AND drop_bit 8 (- 1)) OR (h AND 0xFF)) = i AND drop_bit 8 (- 1)"
proof -
  have m: "(0xFF :: 64 word) = mask 8" by (simp add: mask_eq_exp_minus_1)
  show "(push_bit 8 (i AND drop_bit 8 (- 1)) OR (h AND 0xFF)) AND 0xFF = h AND 0xFF"
    unfolding m by (rule bit_eqI) (auto simp: bit_simps)
  show "drop_bit 8 (push_bit 8 (i AND drop_bit 8 (- 1)) OR (h AND 0xFF)) = i AND drop_bit 8 (- 1)"
    unfolding m by (rule bit_eqI) (auto simp: bit_simps)
qed

text \<open>
  C34. Every computed account number passes the check, carries its 56-bit index, and the check
  accepts exactly the numbers that are computed this way.
\<close>

theorem account_uid_check:
  "is_valid_account_uid sha (calc_account_uid sha i) \<and>
   drop_bit 8 (calc_account_uid sha i) = i AND drop_bit 8 (- 1) \<and>
   (is_valid_account_uid sha uid \<longleftrightarrow> uid = calc_account_uid sha (drop_bit 8 uid))"
proof (intro conjI)
  show valid: "is_valid_account_uid sha (calc_account_uid sha i)"
    unfolding is_valid_account_uid_def calc_account_uid_def Let_def uid_parts ..
  show "drop_bit 8 (calc_account_uid sha i) = i AND drop_bit 8 (- 1)"
    unfolding calc_account_uid_def Let_def by (rule uid_parts)
  have top: "drop_bit 8 uid AND drop_bit 8 (- 1) = drop_bit 8 uid"
    by (rule bit_eqI) (auto simp: bit_simps dest: bit_imp_le_length)
  have m: "(0xFF :: 64 word) = mask 8" by (simp add: mask_eq_exp_minus_1)
  have whole: "push_bit 8 (drop_bit 8 uid) OR (uid AND 0xFF) = uid"
    unfolding m by (rule bit_eqI) (auto simp: bit_simps)
  have calc: "calc_account_uid sha (drop_bit 8 uid) = push_bit 8 (drop_bit 8 uid) OR (sha (drop_bit 8 uid) AND 0xFF)"
    unfolding calc_account_uid_def Let_def top ..
  have low: "(push_bit 8 (drop_bit 8 uid) OR (h AND 0xFF)) AND 0xFF = h AND 0xFF" for h
    using uid_parts(1) [of "drop_bit 8 uid" h] unfolding top .
  show "is_valid_account_uid sha uid \<longleftrightarrow> uid = calc_account_uid sha (drop_bit 8 uid)"
    unfolding is_valid_account_uid_def Let_def calc using whole low by metis
qed

text \<open>
  The text form of a key reads back as the same key, and a text that reads as a key carries the
  prefix and the right checksum.
\<close>

theorem key_string_roundtrip:
  assumes "key_ops_spec k"
  shows "key_from_string k (key_to_string k d) = Inr d \<and>
    (key_from_string k s = Inr d' \<longrightarrow> take 3 s = ''YYW'' \<and>
      (\<exists>bin. from_base58 k (drop 3 s) = Some bin \<and> unpack_key k bin = Some (d', ripemd160_word k d')))"
proof
  have "to_base58 k (pack_key k (d, ripemd160_word k d)) \<noteq> []" using assms by (simp add: key_ops_spec_def)
  with assms show "key_from_string k (key_to_string k d) = Inr d"
    by (simp add: key_from_string_def key_to_string_def key_ops_spec_def address_prefix_def Let_def)
  show "key_from_string k s = Inr d' \<longrightarrow> take 3 s = ''YYW'' \<and>
      (\<exists>bin. from_base58 k (drop 3 s) = Some bin \<and> unpack_key k bin = Some (d', ripemd160_word k d'))"
    by (auto simp: key_from_string_def address_prefix_def Let_def result_simps numeral_3_eq_3)
qed

definition example_keys :: "nat key_ops" where
  "example_keys = \<lparr>to_base58 = map (\<lambda>b. char_of (unat b)), from_base58 = (\<lambda>s. Some (map (\<lambda>c. of_nat (of_char c)) s)),
     pack_key = (\<lambda>(d, c). ucast c # ucast (drop_bit 8 c) # ucast (drop_bit 16 c) # ucast (drop_bit 24 c) # replicate d 0),
     unpack_key = (\<lambda>b. case b of c0 # c1 # c2 # c3 # r \<Rightarrow>
        Some (length r, ucast c0 OR push_bit 8 (ucast c1) OR push_bit 16 (ucast c2) OR push_bit 24 (ucast c3)) | _ \<Rightarrow> None),
     ripemd160_word = (\<lambda>d. of_nat (7 * d + 1))\<rparr>"

lemma example_keys_spec: "key_ops_spec example_keys"
proof -
  have "(ucast (ucast c :: 8 word) OR push_bit 8 (ucast (ucast (drop_bit 8 c) :: 8 word)) OR
      push_bit 16 (ucast (ucast (drop_bit 16 c) :: 8 word)) OR push_bit 24 (ucast (ucast (drop_bit 24 c) :: 8 word))) = c"
    for c :: "32 word"
  proof (rule bit_eqI)
    fix n assume "possible_bit TYPE(32 word) n"
    then have n: "n < 32" by simp
    then have "24 \<le> n \<Longrightarrow> 24 + (n - 24) = n" "n - 24 < 8" "n < 24 \<Longrightarrow> n - 16 < 8"
      "16 \<le> n \<Longrightarrow> 16 + (n - 16) = n" by auto
    then show "bit (ucast (ucast c :: 8 word) OR push_bit 8 (ucast (ucast (drop_bit 8 c) :: 8 word)) OR
      push_bit 16 (ucast (ucast (drop_bit 16 c) :: 8 word)) OR push_bit 24 (ucast (ucast (drop_bit 24 c) :: 8 word)) :: 32 word) n
      = bit c n"
      using n by (cases "24 \<le> n"; cases "16 \<le> n") (auto simp: bit_simps)
  qed
  moreover have "of_nat (of_char (char_of (unat b) :: char)) = b" for b :: "8 word"
    using unsigned_less [of b, where 'a = nat] by simp
  ultimately show ?thesis
    by (simp add: key_ops_spec_def example_keys_def comp_def split: prod.split)
qed

theorem key_string_roundtrip_witness:
  "key_from_string example_keys (key_to_string example_keys 5) = Inr 5"
  using key_string_roundtrip [OF example_keys_spec] by blast

end
