(* ===== verification/Authority.thy ===== *)
theory Authority
  imports Account_Uid
begin

text \<open>
  Authorities and the check that a transaction carries the signatures its operations require:
  \<^verbatim>\<open>protocol/authority.hpp\<close>, the \<^verbatim>\<open>sign_state\<close> of \<^verbatim>\<open>protocol/transaction.cpp\<close>, \<^verbatim>\<open>verify_authority\<close>,
  \<^verbatim>\<open>get_required_signatures\<close> and the \<^verbatim>\<open>signed_information\<close> they return. Weights are 16-bit and are
  added into 32-bit counters that wrap. Sets and maps of keys are lists in order of insertion (only
  membership is read from them); sets of account numbers are iterated in ascending order and are
  sorted lists. Which authorities an operation requires is an argument.
\<close>

section \<open>Authorities\<close>

text \<open>A public key is 33 bytes; the default-constructed key is all zero.\<close>

type_synonym public_key_type = "264 word"
type_synonym weight_type = "16 word"

datatype account_auth_type = owner_auth | active_auth | secondary_auth

type_synonym account_uid_auth_type = "account_uid_type \<times> account_auth_type"

record authority =
  weight_threshold :: "32 word"
  account_uid_auths :: "(account_uid_auth_type \<times> weight_type) list"
  key_auths :: "(public_key_type \<times> weight_type) list"

definition authority_default :: authority where
  "authority_default = \<lparr>weight_threshold = 0, account_uid_auths = [], key_auths = []\<rparr>"

definition add_key_authority :: "public_key_type \<Rightarrow> weight_type \<Rightarrow> authority \<Rightarrow> authority" where
  "add_key_authority k w a = a\<lparr>key_auths := AList.update k w (key_auths a)\<rparr>"

definition add_account_authority :: "account_uid_auth_type \<Rightarrow> weight_type \<Rightarrow> authority \<Rightarrow> authority" where
  "add_account_authority k w a = a\<lparr>account_uid_auths := AList.update k w (account_uid_auths a)\<rparr>"

definition is_impossible :: "authority \<Rightarrow> bool" where
  "is_impossible a =
     (let w1 = fold (\<lambda>item s. s + ucast (snd item)) (key_auths a) (0 :: 64 word);
          w2 = fold (\<lambda>item s. s + ucast (snd item)) (account_uid_auths a) w1
      in w2 < ucast (weight_threshold a))"

definition get_keys :: "authority \<Rightarrow> public_key_type list" where
  "get_keys a = map fst (key_auths a)"

definition num_auths :: "authority \<Rightarrow> 32 word" where
  "num_auths a = of_nat (length (account_uid_auths a) + length (key_auths a))"

definition clear_auths :: "authority \<Rightarrow> authority" where
  "clear_auths a = a\<lparr>account_uid_auths := [], key_auths := []\<rparr>"

definition null_uid_authority :: "(64 word \<Rightarrow> 64 word) \<Rightarrow> authority" where
  "null_uid_authority sha =
     add_account_authority (null_account_uid sha, active_auth) 1 (authority_default\<lparr>weight_threshold := 1\<rparr>)"

definition add_authority_account_uids :: "account_uid_type list \<Rightarrow> authority \<Rightarrow> account_uid_type list" where
  "add_authority_account_uids result a = fold (\<lambda>item. insort_insert (fst (fst item))) (account_uid_auths a) result"

section \<open>Signature trees\<close>

datatype sign_tree = Sign_Tree (tree_uid: account_uid_type) (pub_keys: "public_key_type list") (children: "sign_tree list")

record signed_information =
  owner_trees :: "(account_uid_type \<times> sign_tree) list"
  active_trees :: "(account_uid_type \<times> sign_tree) list"
  secondary_trees :: "(account_uid_type \<times> sign_tree) list"

text \<open>The children are a set ordered by account number: a second child with the same number is dropped.\<close>

fun emplace_child :: "sign_tree \<Rightarrow> sign_tree list \<Rightarrow> sign_tree list" where
  "emplace_child c [] = [c]"
| "emplace_child c (d # ds) =
     (if tree_uid c < tree_uid d then c # d # ds else if tree_uid c = tree_uid d then d # ds
      else d # emplace_child c ds)"

definition add_pub_key :: "public_key_type \<Rightarrow> sign_tree \<Rightarrow> sign_tree" where
  "add_pub_key k t = Sign_Tree (tree_uid t) (List.insert k (pub_keys t)) (children t)"

definition add_child :: "sign_tree \<Rightarrow> sign_tree \<Rightarrow> sign_tree" where
  "add_child c t = Sign_Tree (tree_uid t) (pub_keys t) (emplace_child c (children t))"

definition emplace_tree :: "account_uid_type \<Rightarrow> sign_tree \<Rightarrow> (account_uid_type \<times> sign_tree) list \<Rightarrow>
    (account_uid_type \<times> sign_tree) list" where
  "emplace_tree u t m = (if map_of m u = None then (u, t) # m else m)"

fun descend :: "nat \<Rightarrow> sign_tree \<Rightarrow> account_uid_type" where
  "descend 0 t = tree_uid t"
| "descend (Suc d) t = (if pub_keys t = [] \<and> length (children t) = 1 then descend d (hd (children t)) else tree_uid t)"

definition real_owner_uid :: "signed_information \<Rightarrow> account_uid_type \<Rightarrow> 32 word \<Rightarrow> account_uid_type" where
  "real_owner_uid si uid depth = (case map_of (owner_trees si) uid of None \<Rightarrow> 0 | Some t \<Rightarrow> descend (unat depth) t)"

definition real_active_uid :: "signed_information \<Rightarrow> account_uid_type \<Rightarrow> 32 word \<Rightarrow> account_uid_type" where
  "real_active_uid si uid depth = (case map_of (active_trees si) uid of None \<Rightarrow> 0 | Some t \<Rightarrow> descend (unat depth) t)"

definition real_secondary_uid :: "signed_information \<Rightarrow> account_uid_type \<Rightarrow> 32 word \<Rightarrow> account_uid_type" where
  "real_secondary_uid si uid depth =
     (case map_of (secondary_trees si) uid of None \<Rightarrow> 0 | Some t \<Rightarrow> descend (unat depth) t)"

section \<open>The signing state\<close>

record sign_env =
  get_owner_by_uid :: "account_uid_type \<Rightarrow> authority option"
  get_active_by_uid :: "account_uid_type \<Rightarrow> authority option"
  get_secondary_by_uid :: "account_uid_type \<Rightarrow> authority option"
  available_keys :: "public_key_type list"
  max_recursion :: "32 word"

record sign_state =
  used_keys :: "public_key_type list"
  provided_signatures :: "(public_key_type \<times> bool) list"
  approved_by_uid_auth :: "account_uid_auth_type list"
  state_sigs :: signed_information

type_synonym check_result = "bool \<times> bool \<times> public_key_type list"

definition get_by_uid :: "sign_env \<Rightarrow> account_uid_auth_type \<Rightarrow> authority option" where
  "get_by_uid env a =
     (if snd a = secondary_auth then get_secondary_by_uid env (fst a)
      else if snd a = active_auth then get_active_by_uid env (fst a)
      else get_owner_by_uid env (fst a))"

definition signed_by :: "sign_env \<Rightarrow> public_key_type \<Rightarrow> sign_state \<Rightarrow> bool \<times> sign_state" where
  "signed_by env k st =
     (case map_of (provided_signatures st) k of
        None \<Rightarrow> if k \<in> set (available_keys env)
          then (True, st\<lparr>used_keys := List.insert k (used_keys st),
                         provided_signatures := AList.update k True (provided_signatures st)\<rparr>)
          else (False, st)
      | Some _ \<Rightarrow> (True, st\<lparr>provided_signatures := AList.update k True (provided_signatures st)\<rparr>))"

text \<open>
  The two loops of \<^verbatim>\<open>check_authority\<close> carry the running weights, the missed keys, the tree and the
  state. A loop over keys that reaches the threshold returns early (\<open>Inl\<close>); \<open>rec\<close> is the recursive
  call one level deeper, \<open>None\<close> at the depth limit.
\<close>

fun check_keys :: "sign_env \<Rightarrow> 32 word \<Rightarrow> (public_key_type \<times> weight_type) list \<Rightarrow> 32 word \<Rightarrow> 32 word \<Rightarrow>
    public_key_type list \<Rightarrow> sign_tree \<Rightarrow> sign_state \<Rightarrow>
    (sign_tree \<times> sign_state) + (32 word \<times> 32 word \<times> public_key_type list \<times> sign_tree \<times> sign_state)" where
  "check_keys env thr [] tw tp mk t st = Inr (tw, tp, mk, t, st)"
| "check_keys env thr ((kf, w) # ks) tw tp mk t st =
     (let tp = (if kf \<noteq> 0 then tp + ucast w else tp); (signed, st) = signed_by env kf st
      in if signed
         then let tw = tw + ucast w; t = add_pub_key kf t
              in if thr \<le> tw then Inl (t, st) else check_keys env thr ks tw tp mk t st
         else check_keys env thr ks tw tp (if kf \<noteq> 0 then List.insert kf mk else mk) t st)"

fun check_accounts :: "sign_env \<Rightarrow> (authority option \<Rightarrow> sign_tree \<Rightarrow> sign_state \<Rightarrow> check_result \<times> sign_tree \<times> sign_state) option \<Rightarrow>
    32 word \<Rightarrow> (account_uid_auth_type \<times> weight_type) list \<Rightarrow> 32 word \<Rightarrow> 32 word \<Rightarrow> public_key_type list \<Rightarrow>
    sign_tree \<Rightarrow> sign_state \<Rightarrow> check_result \<times> sign_tree \<times> sign_state" where
  "check_accounts env rec thr [] tw tp mk t st =
     ((if thr \<le> tp then (thr \<le> tw, True, mk) else (False, False, [0])), t, st)"
| "check_accounts env rec thr ((a, w) # as) tw tp mk t st =
     (if a \<notin> set (approved_by_uid_auth st)
      then case rec of
          None \<Rightarrow> check_accounts env rec thr as tw tp mk t st
        | Some chk \<Rightarrow>
            (let ((ok, possible, missed), child, st) = chk (get_by_uid env a) (Sign_Tree (fst a) [] []) st
             in if ok
                then let tp = tp + ucast w;
                         st = st\<lparr>approved_by_uid_auth := List.insert a (approved_by_uid_auth st)\<rparr>;
                         tw = tw + ucast w; t = add_child child t
                     in if thr \<le> tw then ((True, True, []), t, st) else check_accounts env rec thr as tw tp mk t st
                else if possible
                then check_accounts env rec thr as tw (tp + ucast w) (fold List.insert missed mk) t st
                else check_accounts env rec thr as tw tp mk t st)
      else let tp = tp + ucast w; tw = tw + ucast w; t = add_child (Sign_Tree (fst a) [] []) t
           in if thr \<le> tw then ((True, True, []), t, st) else check_accounts env rec thr as tw tp mk t st)"

definition check_authority_body :: "sign_env \<Rightarrow>
    (authority option \<Rightarrow> sign_tree \<Rightarrow> sign_state \<Rightarrow> check_result \<times> sign_tree \<times> sign_state) option \<Rightarrow>
    authority option \<Rightarrow> sign_tree \<Rightarrow> sign_state \<Rightarrow> check_result \<times> sign_tree \<times> sign_state" where
  "check_authority_body env rec au parent st =
     (case au of
        None \<Rightarrow> ((False, False, [0]), parent, st)
      | Some auth \<Rightarrow>
          (case check_keys env (weight_threshold auth) (key_auths auth) 0 0 [] parent st of
             Inl (parent, st) \<Rightarrow> ((True, True, []), parent, st)
           | Inr (tw, tp, mk, parent, st) \<Rightarrow>
               check_accounts env rec (weight_threshold auth) (account_uid_auths auth) tw tp mk parent st))"

text \<open>The argument counts the levels left: \<^verbatim>\<open>max_recursion - depth\<close>.\<close>

primrec check_authority_rec :: "sign_env \<Rightarrow> nat \<Rightarrow> authority option \<Rightarrow> sign_tree \<Rightarrow> sign_state \<Rightarrow>
    check_result \<times> sign_tree \<times> sign_state" where
  "check_authority_rec env 0 = check_authority_body env None"
| "check_authority_rec env (Suc n) = check_authority_body env (Some (check_authority_rec env n))"

definition check_authority_tree :: "sign_env \<Rightarrow> authority option \<Rightarrow> sign_tree \<Rightarrow> sign_state \<Rightarrow>
    check_result \<times> sign_tree \<times> sign_state" where
  "check_authority_tree env = check_authority_rec env (unat (max_recursion env))"

definition check_authority :: "sign_env \<Rightarrow> account_uid_auth_type \<Rightarrow> sign_state \<Rightarrow> check_result \<times> sign_state" where
  "check_authority env a st =
     (if a \<in> set (approved_by_uid_auth st) then ((True, True, []), st)
      else let (result, parent, st) = check_authority_tree env (get_by_uid env a) (Sign_Tree (fst a) [] []) st;
               sigs = state_sigs st
           in (result,
               if fst result
               then st\<lparr>state_sigs :=
                  (if snd a = secondary_auth then sigs\<lparr>secondary_trees := emplace_tree (fst a) parent (secondary_trees sigs)\<rparr>
                   else if snd a = active_auth then sigs\<lparr>active_trees := emplace_tree (fst a) parent (active_trees sigs)\<rparr>
                   else sigs\<lparr>owner_trees := emplace_tree (fst a) parent (owner_trees sigs)\<rparr>)\<rparr>
               else st))"

definition get_unused_signature_keys :: "sign_state \<Rightarrow> public_key_type list" where
  "get_unused_signature_keys st = map fst (filter (\<lambda>s. \<not> snd s) (provided_signatures st))"

definition remove_unused_signatures :: "sign_state \<Rightarrow> bool \<times> sign_state" where
  "remove_unused_signatures st =
     (let remove_sigs = map fst (filter (\<lambda>s. \<not> snd s) (provided_signatures st))
      in (remove_sigs \<noteq> [], st\<lparr>provided_signatures := fold AList.delete remove_sigs (provided_signatures st)\<rparr>))"

definition sign_state_init :: "(64 word \<Rightarrow> 64 word) \<Rightarrow> (public_key_type \<times> 'sig) list \<Rightarrow> sign_state" where
  "sign_state_init sha sigs =
     \<lparr>used_keys = [], provided_signatures = fold (\<lambda>ks. AList.update (fst ks) False) sigs [],
      approved_by_uid_auth = [(temp_account_uid sha, owner_auth), (temp_account_uid sha, active_auth),
        (temp_account_uid sha, secondary_auth)],
      state_sigs = \<lparr>owner_trees = [], active_trees = [], secondary_trees = []\<rparr>\<rparr>"

section \<open>Verification of a transaction\<close>

record required_auths =
  required_owner_uids :: "account_uid_type list"
  required_active_uids :: "account_uid_type list"
  required_secondary_uids :: "account_uid_type list"
  other_auths :: "authority list"

text \<open>
  \<open>req op hf\<close> is what the operation's own \<^verbatim>\<open>get_required_*\<close> functions ask for; the transaction
  collects them in sets of account numbers and one list of further authorities.
\<close>

type_synonym 'op required_of =
  "'op \<Rightarrow> bool \<Rightarrow> account_uid_type list \<times> account_uid_type list \<times> account_uid_type list \<times> authority list"

definition add_required :: "'op required_of \<Rightarrow> bool \<Rightarrow> 'op \<Rightarrow> required_auths \<Rightarrow> required_auths" where
  "add_required req hf op r =
     (case req op hf of (ow, ac, se, ot) \<Rightarrow>
        \<lparr>required_owner_uids = fold insort_insert ow (required_owner_uids r),
         required_active_uids = fold insort_insert ac (required_active_uids r),
         required_secondary_uids = fold insort_insert se (required_secondary_uids r),
         other_auths = other_auths r @ ot\<rparr>)"

definition get_required_uid_authorities :: "'op required_of \<Rightarrow> bool \<Rightarrow> 'op list \<Rightarrow> required_auths" where
  "get_required_uid_authorities req hf ops = fold (add_required req hf) ops
     \<lparr>required_owner_uids = [], required_active_uids = [], required_secondary_uids = [], other_auths = []\<rparr>"

text \<open>
  The failure message of a missing authority dereferences the account's authority, which is a null
  pointer when there is no such account.
\<close>

definition require_uid :: "sign_env \<Rightarrow> account_auth_type \<Rightarrow> chain_error \<Rightarrow> account_uid_type \<Rightarrow> sign_state \<Rightarrow> sign_state result" where
  "require_uid env ty err uid st =
     (let (result, st') = check_authority env (uid, ty) st
      in if fst result then Inr st'
         else if get_by_uid env (uid, ty) = None then Inl (Undefined_Behaviour ''null authority dereferenced'')
         else Inl err)"

definition require_other :: "sign_env \<Rightarrow> authority \<Rightarrow> sign_state \<Rightarrow> sign_state result" where
  "require_other env auth st =
     (let (result, _, st') = check_authority_tree env (Some auth) (Sign_Tree 0 [] []) st
      in graphene_assert (fst result) Tx_Missing_Other_Auth (Inr st'))"

definition approve_all :: "account_auth_type \<Rightarrow> account_uid_type list \<Rightarrow> sign_state \<Rightarrow> sign_state" where
  "approve_all ty uids st =
     st\<lparr>approved_by_uid_auth := fold (\<lambda>u. List.insert (u, ty)) uids (approved_by_uid_auth st)\<rparr>"

record approvals =
  owner_uid_approvals :: "account_uid_type list"
  active_uid_approvals :: "account_uid_type list"
  secondary_uid_approvals :: "account_uid_type list"

definition initial_sign_state :: "(64 word \<Rightarrow> 64 word) \<Rightarrow> (public_key_type \<times> 'sig) list \<Rightarrow> approvals \<Rightarrow> sign_state" where
  "initial_sign_state sha sigs ap =
     approve_all secondary_auth (secondary_uid_approvals ap) (approve_all active_auth (active_uid_approvals ap)
       (approve_all owner_auth (owner_uid_approvals ap) (sign_state_init sha sigs)))"

definition verify_authority :: "(64 word \<Rightarrow> 64 word) \<Rightarrow> 'op required_of \<Rightarrow> sign_env \<Rightarrow> 'op list \<Rightarrow>
    (public_key_type \<times> 'sig) list \<Rightarrow> bool \<Rightarrow> bool \<Rightarrow> approvals \<Rightarrow> signed_information result" where
  "verify_authority sha req env ops sigs enabled_hardfork allow_committe ap =
     (let r = get_required_uid_authorities req enabled_hardfork ops;
          env = env\<lparr>available_keys := []\<rparr>
      in graphene_assert (allow_committe \<or> committee_account_uid sha \<notin> set (required_active_uids r)) Invalid_Committee_Approval
        (bindE (foldE (require_uid env owner_auth Tx_Missing_Owner_Auth) (required_owner_uids r) (initial_sign_state sha sigs ap)) (\<lambda>st.
         bindE (foldE (require_uid env active_auth Tx_Missing_Active_Auth) (required_active_uids r) st) (\<lambda>st.
         bindE (foldE (require_uid env secondary_auth Tx_Missing_Secondary_Auth) (required_secondary_uids r) st) (\<lambda>st.
         bindE (foldE (require_other env) (other_auths r) st) (\<lambda>st.
         let (removed, st) = remove_unused_signatures st
         in graphene_assert (\<not> removed) Tx_Irrelevant_Sig (Inr (state_sigs st))))))))"

text \<open>The key of each signature is recovered by the crypto library: \<open>recover\<close>.\<close>

definition get_signature_keys :: "('sig \<Rightarrow> public_key_type) \<Rightarrow> 'sig list \<Rightarrow> (public_key_type \<times> 'sig) list result" where
  "get_signature_keys recover signatures =
     foldE (\<lambda>sig result. graphene_assert (map_of result (recover sig) = None) Tx_Duplicate_Sig
              (Inr ((recover sig, sig) # result))) signatures []"

definition tx_verify_authority :: "(64 word \<Rightarrow> 64 word) \<Rightarrow> 'op required_of \<Rightarrow> ('sig \<Rightarrow> public_key_type) \<Rightarrow> sign_env \<Rightarrow>
    'op list \<Rightarrow> 'sig list \<Rightarrow> bool \<Rightarrow> signed_information result" where
  "tx_verify_authority sha req recover env ops signatures enabled_hardfork =
     bindE (get_signature_keys recover signatures) (\<lambda>sigs.
       verify_authority sha req env ops sigs enabled_hardfork False
         \<lparr>owner_uid_approvals = [], active_uid_approvals = [], secondary_uid_approvals = []\<rparr>)"

section \<open>Keys to sign with\<close>

fun required_loop :: "sign_env \<Rightarrow> authority list \<Rightarrow> public_key_type list \<Rightarrow> sign_state \<Rightarrow> public_key_type list \<times> sign_state" where
  "required_loop env [] missed st = (missed, st)"
| "required_loop env (auth # auths) missed st =
     (let ((ok, possible, mk), _, st) = check_authority_tree env (Some auth) (Sign_Tree 0 [] []) st
      in if possible then required_loop env auths (fold List.insert mk missed) st else (mk, st))"

fun collect_auths :: "(account_uid_type \<Rightarrow> authority option) \<Rightarrow> account_uid_type list \<Rightarrow> authority list result" where
  "collect_auths get [] = Inr []"
| "collect_auths get (u # us) =
     bindE (option_or (Undefined_Behaviour ''null authority dereferenced'') (get u)) (\<lambda>a.
     bindE (collect_auths get us) (\<lambda>as. Inr (a # as)))"

definition get_required_signatures :: "(64 word \<Rightarrow> 64 word) \<Rightarrow> 'op required_of \<Rightarrow> ('sig \<Rightarrow> public_key_type) \<Rightarrow> sign_env \<Rightarrow>
    'op list \<Rightarrow> 'sig list \<Rightarrow> bool \<Rightarrow> (public_key_type list \<times> public_key_type list \<times> 'sig list) result" where
  "get_required_signatures sha req recover env ops signatures enabled_hardfork =
     (let r = get_required_uid_authorities req enabled_hardfork ops
      in bindE (collect_auths (get_owner_by_uid env) (required_owner_uids r)) (\<lambda>ow.
         bindE (collect_auths (get_active_by_uid env) (required_active_uids r)) (\<lambda>ac.
         bindE (collect_auths (get_secondary_by_uid env) (required_secondary_uids r)) (\<lambda>se.
         bindE (get_signature_keys recover signatures) (\<lambda>key_sigs.
         let (missed, st) = required_loop env (ow @ ac @ se @ other_auths r) [] (sign_state_init sha key_sigs);
             unused = get_unused_signature_keys st
         in Inr (used_keys st, missed, map (\<lambda>k. the (map_of key_sigs k)) unused))))))"

record account_auths =
  account_uid :: account_uid_type
  account_owner :: authority
  account_active :: authority
  account_secondary :: authority

text \<open>The three collected sets of \<^verbatim>\<open>get_authority_uid\<close>; \<open>n\<close> counts the levels left.\<close>

type_synonym uid_sets = "account_uid_type list \<times> account_uid_type list \<times> account_uid_type list"

primrec get_authority_uid_au :: "nat \<Rightarrow> (account_uid_type \<Rightarrow> account_auths option) \<Rightarrow> authority \<Rightarrow> uid_sets \<Rightarrow> uid_sets" where
  "get_authority_uid_au 0 get auth sets = sets"
| "get_authority_uid_au (Suc n) get auth sets =
     fold (\<lambda>(a, w) (ow, ac, se).
        case get (fst a) of
          None \<Rightarrow> (ow, ac, se)
        | Some acc \<Rightarrow>
            if snd a = secondary_auth
            then get_authority_uid_au n get (account_secondary acc) (ow, ac, insort_insert (account_uid acc) se)
            else if snd a = active_auth
            then get_authority_uid_au n get (account_active acc) (ow, insort_insert (account_uid acc) ac, se)
            else get_authority_uid_au n get (account_owner acc) (insort_insert (account_uid acc) ow, ac, se))
       (account_uid_auths auth) sets"

definition GRAPHENE_MAX_SIG_CHECK_DEPTH :: "32 word" where
  "GRAPHENE_MAX_SIG_CHECK_DEPTH = 2"

definition get_authority_uid :: "(account_uid_type \<Rightarrow> account_auths option) \<Rightarrow> account_uid_type \<Rightarrow> uid_sets \<Rightarrow> uid_sets" where
  "get_authority_uid get uid sets =
     (case get uid of
        None \<Rightarrow> sets
      | Some acc \<Rightarrow>
          (let d = unat GRAPHENE_MAX_SIG_CHECK_DEPTH
           in get_authority_uid_au d get (account_secondary acc)
                (get_authority_uid_au d get (account_active acc)
                  (get_authority_uid_au d get (account_owner acc) sets))))"

end
