(* ===== verification/Authority_Correct.thy ===== *)
theory Authority_Correct
  imports Authority
begin

text \<open>
  What the signature check of \<^verbatim>\<open>Authority\<close> guarantees. The specification is an inductive notion of an
  approved account authority: approved beforehand, or with enough weight of keys in the pool and of
  account authorities that are themselves approved. A verified transaction has every required
  authority approved by its signatures (soundness, whatever the 32-bit counters do), every signature
  used, and a transaction whose authorities are satisfied within the depth limit is accepted
  (completeness, where total weights fit the counters).
\<close>

section \<open>Specification\<close>

definition key_weight :: "public_key_type set \<Rightarrow> (public_key_type \<times> weight_type) list \<Rightarrow> nat" where
  "key_weight S ks = (\<Sum>(k, w)\<leftarrow>ks. if k \<in> S then unat w else 0)"

definition account_weight :: "account_uid_auth_type set \<Rightarrow> (account_uid_auth_type \<times> weight_type) list \<Rightarrow> nat" where
  "account_weight P as = (\<Sum>(a, w)\<leftarrow>as. if a \<in> P then unat w else 0)"

definition satisfied :: "public_key_type set \<Rightarrow> account_uid_auth_type set \<Rightarrow> authority \<Rightarrow> bool" where
  "satisfied S P au \<longleftrightarrow> unat (weight_threshold au) \<le> key_weight S (key_auths au) + account_weight P (account_uid_auths au)"

inductive approved :: "(account_uid_auth_type \<Rightarrow> authority option) \<Rightarrow> public_key_type set \<Rightarrow> account_uid_auth_type set \<Rightarrow>
    account_uid_auth_type \<Rightarrow> bool" for get S P0 where
  beforehand: "a \<in> P0 \<Longrightarrow> approved get S P0 a"
| by_weight: "get a = Some au \<Longrightarrow> \<forall>x\<in>P. approved get S P0 x \<Longrightarrow> satisfied S P au \<Longrightarrow> approved get S P0 a"

definition key_pool :: "sign_env \<Rightarrow> sign_state \<Rightarrow> public_key_type set" where
  "key_pool env st = set (available_keys env) \<union> fst ` set (provided_signatures st)"

lemma key_weight_simps [simp]:
  "key_weight S [] = 0" "key_weight S ((k, w) # ks) = (if k \<in> S then unat w else 0) + key_weight S ks"
  by (simp_all add: key_weight_def)

lemma account_weight_simps [simp]:
  "account_weight P [] = 0" "account_weight P ((a, w) # as) = (if a \<in> P then unat w else 0) + account_weight P as"
  by (simp_all add: account_weight_def)

lemma approved_satisfied: "get a = Some au \<Longrightarrow> satisfied S {x. approved get S P0 x} au \<Longrightarrow> approved get S P0 a"
  by (rule by_weight) auto

lemma unat_weight: "unat (ucast (w :: weight_type) :: 32 word) = unat w"
  using unsigned_less [of w, where 'a = nat] by (simp add: unsigned_ucast_eq take_bit_nat_eq_self)

lemma unat_add_weight: "unat (tw + ucast (w :: weight_type) :: 32 word) \<le> unat tw + unat w"
  by (simp add: unat_word_ariths unat_weight)

lemma unat_add_weight_exact:
  "unat tw + unat w < 2 ^ 32 \<Longrightarrow> unat (tw + ucast (w :: weight_type) :: 32 word) = unat tw + unat w"
  by (simp add: unat_word_ariths unat_weight)

section \<open>Soundness\<close>

lemma signed_by_spec:
  assumes "signed_by env k st = (b, st')"
  shows "b \<longleftrightarrow> k \<in> key_pool env st" "key_pool env st' = key_pool env st"
    "approved_by_uid_auth st' = approved_by_uid_auth st" "state_sigs st' = state_sigs st"
proof -
  have dom: "fst ` set (AList.update k True (provided_signatures st)) = insert k (fst ` set (provided_signatures st))"
    by (simp add: dom_update)
  have "b = (k \<in> key_pool env st) \<and> key_pool env st' = key_pool env st \<and>
    approved_by_uid_auth st' = approved_by_uid_auth st \<and> state_sigs st' = state_sigs st"
  proof (cases "map_of (provided_signatures st) k")
    case None
    then have "k \<notin> fst ` set (provided_signatures st)" by (simp add: map_of_eq_None_iff)
    moreover have "b = (k \<in> set (available_keys env))" "approved_by_uid_auth st' = approved_by_uid_auth st"
      "state_sigs st' = state_sigs st"
      using assms None by (auto simp: signed_by_def split: if_splits)
    moreover have "key_pool env st' = key_pool env st"
    proof (cases "k \<in> set (available_keys env)")
      case True
      then have "provided_signatures st' = AList.update k True (provided_signatures st)"
        using assms None by (auto simp: signed_by_def)
      then show ?thesis using True unfolding key_pool_def by (simp only: dom) blast
    next
      case False
      then show ?thesis using assms None by (simp add: signed_by_def)
    qed
    ultimately show ?thesis by (simp add: key_pool_def)
  next
    case (Some v)
    then have "k \<in> fst ` set (provided_signatures st)" by (metis map_of_eq_None_iff option.discI)
    moreover have "b" "provided_signatures st' = AList.update k True (provided_signatures st)"
      "approved_by_uid_auth st' = approved_by_uid_auth st" "state_sigs st' = state_sigs st"
      using assms Some by (auto simp: signed_by_def)
    ultimately show ?thesis unfolding key_pool_def by (simp only: dom) blast
  qed
  then show "b \<longleftrightarrow> k \<in> key_pool env st" "key_pool env st' = key_pool env st"
    "approved_by_uid_auth st' = approved_by_uid_auth st" "state_sigs st' = state_sigs st" by blast+
qed

text \<open>The loop over keys: what it adds to the weight, and that it keeps the pool and the approvals.\<close>

lemma check_keys_sound:
  "(check_keys env thr ks tw tp mk t st = Inl (t', st') \<longrightarrow>
      unat thr \<le> unat tw + key_weight (key_pool env st) ks \<and> key_pool env st' = key_pool env st \<and>
      approved_by_uid_auth st' = approved_by_uid_auth st) \<and>
   (check_keys env thr ks tw tp mk t st = Inr (tw', tp', mk', t'', st'') \<longrightarrow>
      unat tw' \<le> unat tw + key_weight (key_pool env st) ks \<and> key_pool env st'' = key_pool env st \<and>
      approved_by_uid_auth st'' = approved_by_uid_auth st)"
proof (induction ks arbitrary: tw tp mk t st)
  case (Cons p ks)
  obtain k w where p: "p = (k, w)" by fastforce
  obtain b st1 where s: "signed_by env k st = (b, st1)" by fastforce
  note sp = signed_by_spec [OF s]
  have le: "unat (tw + ucast w :: 32 word) \<le> unat tw + unat w" by (rule unat_add_weight)
  show ?case
  proof (cases b)
    case True
    then have mem: "k \<in> key_pool env st" using sp(1) by blast
    show ?thesis
    proof (cases "thr \<le> tw + ucast w")
      case thr: True
      then have "unat thr \<le> unat tw + unat w" using le by (simp add: word_le_nat_alt)
      with True mem thr sp show ?thesis by (auto simp: p s)
    next
      case thr: False
      with True mem Cons.IH [of "tw + ucast w" "if k \<noteq> 0 then tp + ucast w else tp" mk "add_pub_key k t" st1] le
      show ?thesis by (fastforce simp: p s sp)
    qed
  next
    case False
    then have "k \<notin> key_pool env st" using sp(1) by blast
    with False Cons.IH [of tw "if k \<noteq> 0 then tp + ucast w else tp" "if k \<noteq> 0 then List.insert k mk else mk" t st1]
    show ?thesis by (simp add: p s sp)
  qed
qed simp

definition sound_state :: "sign_env \<Rightarrow> public_key_type set \<Rightarrow> account_uid_auth_type set \<Rightarrow> sign_state \<Rightarrow> bool" where
  "sound_state env S P0 st \<longleftrightarrow> key_pool env st = S \<and> (\<forall>a\<in>set (approved_by_uid_auth st). approved (get_by_uid env) S P0 a)"

definition sound_check :: "sign_env \<Rightarrow> public_key_type set \<Rightarrow> account_uid_auth_type set \<Rightarrow>
    (authority option \<Rightarrow> sign_tree \<Rightarrow> sign_state \<Rightarrow> check_result \<times> sign_tree \<times> sign_state) \<Rightarrow> bool" where
  "sound_check env S P0 chk \<longleftrightarrow>
     (\<forall>au t st ok possible mk t' st'. sound_state env S P0 st \<longrightarrow> chk au t st = ((ok, possible, mk), t', st') \<longrightarrow>
        sound_state env S P0 st' \<and>
        (ok \<longrightarrow> (\<exists>a. au = Some a \<and> satisfied S {x. approved (get_by_uid env) S P0 x} a)))"

lemma check_accounts_sound:
  assumes rec: "\<And>chk. rec = Some chk \<Longrightarrow> sound_check env S P0 chk"
  shows "sound_state env S P0 st \<Longrightarrow> check_accounts env rec thr as tw tp mk t st = ((ok, possible, mk'), t', st') \<Longrightarrow>
    sound_state env S P0 st' \<and>
    (ok \<longrightarrow> unat thr \<le> unat tw + account_weight {x. approved (get_by_uid env) S P0 x} as)"
proof (induction as arbitrary: tw tp mk t st)
  case Nil
  then show ?case by (auto simp: word_le_nat_alt split: if_splits)
next
  case (Cons p as)
  obtain a w where p: "p = (a, w)" by fastforce
  let ?A = "{x. approved (get_by_uid env) S P0 x}"
  have le: "unat (tw + ucast w :: 32 word) \<le> unat tw + unat w" by (rule unat_add_weight)
  have step: "sound_state env S P0 st' \<and> (ok \<longrightarrow> unat thr \<le> unat tw + account_weight ?A (p # as))"
    if "a \<in> ?A" "sound_state env S P0 st1"
      "(if thr \<le> tw + ucast w then ((True, True, []), t1, st1)
        else check_accounts env rec thr as (tw + ucast w) (tp + ucast w) mk t1 st1) = ((ok, possible, mk'), t', st')" for t1 st1
  proof (cases "thr \<le> tw + ucast w")
    case True
    with that le show ?thesis by (auto simp: p word_le_nat_alt)
  next
    case False
    with that Cons.IH [of st1 "tw + ucast w" "tp + ucast w" mk t1] le show ?thesis by (auto simp: p)
  qed
  show ?case
  proof (cases "a \<in> set (approved_by_uid_auth st)")
    case True
    then have "a \<in> ?A" using Cons.prems(1) by (simp add: sound_state_def)
    then show ?thesis
      by (rule step [OF _ Cons.prems(1), of "add_child (Sign_Tree (fst a) [] []) t"])
        (use True Cons.prems(2) in \<open>simp add: p Let_def\<close>)
  next
    case out: False
    show ?thesis
    proof (cases rec)
      case None
      with out Cons.IH [OF Cons.prems(1)] Cons.prems(2) show ?thesis by (fastforce simp: p)
    next
      case (Some chk)
      obtain ok1 poss1 mk1 c1 st1 where c: "chk (get_by_uid env a) (Sign_Tree (fst a) [] []) st = ((ok1, poss1, mk1), c1, st1)"
        by (metis prod.exhaust)
      from rec [OF Some] Cons.prems(1) c have s1: "sound_state env S P0 st1"
        and ok1: "ok1 \<Longrightarrow> \<exists>au. get_by_uid env a = Some au \<and> satisfied S ?A au"
        unfolding sound_check_def by blast+
      show ?thesis
      proof (cases ok1)
        case True
        then have a: "a \<in> ?A" using ok1 approved_satisfied by blast
        then have "sound_state env S P0 (st1\<lparr>approved_by_uid_auth := List.insert a (approved_by_uid_auth st1)\<rparr>)"
          using s1 by (auto simp: sound_state_def key_pool_def)
        then show ?thesis
          by (rule step [OF a, of _ "add_child c1 t"]) (use True out Some c Cons.prems(2) in \<open>simp add: p Let_def split: if_splits\<close>)
      next
        case False
        with out Some c Cons.prems(2) Cons.IH [OF s1] show ?thesis
          by (cases poss1) (fastforce simp: p)+
      qed
    qed
  qed
qed

lemma check_authority_body_sound:
  assumes rec: "\<And>chk. rec = Some chk \<Longrightarrow> sound_check env S P0 chk"
  shows "sound_check env S P0 (check_authority_body env rec)"
  unfolding sound_check_def
proof (intro allI impI)
  fix au t st ok possible mk t' st'
  assume st: "sound_state env S P0 st" and r: "check_authority_body env rec au t st = ((ok, possible, mk), t', st')"
  let ?A = "{x. approved (get_by_uid env) S P0 x}"
  show "sound_state env S P0 st' \<and> (ok \<longrightarrow> (\<exists>a. au = Some a \<and> satisfied S ?A a))"
  proof (cases au)
    case None
    with st r show ?thesis by (simp add: check_authority_body_def)
  next
    case (Some a)
    have pool: "key_pool env st = S" using st by (simp add: sound_state_def)
    show ?thesis
    proof (cases "check_keys env (weight_threshold a) (key_auths a) 0 0 [] t st")
      case (Inl x)
      obtain t1 st1 where x: "x = (t1, st1)" by fastforce
      have "unat (weight_threshold a) \<le> key_weight S (key_auths a)" "key_pool env st1 = S"
        "approved_by_uid_auth st1 = approved_by_uid_auth st"
        using check_keys_sound [of env "weight_threshold a" "key_auths a" 0 0 "[]" t st t1 st1] Inl x pool by auto
      with st r Some Inl x show ?thesis by (auto simp: check_authority_body_def satisfied_def sound_state_def)
    next
      case (Inr y)
      obtain tw tp mk1 t1 st1 where y: "y = (tw, tp, mk1, t1, st1)" by (metis prod.exhaust)
      have ks: "unat tw \<le> key_weight S (key_auths a)" "key_pool env st1 = S"
        "approved_by_uid_auth st1 = approved_by_uid_auth st"
        using check_keys_sound [of env "weight_threshold a" "key_auths a" 0 0 "[]" t st _ _ tw tp mk1 t1 st1] Inr y pool
        by auto
      then have st1: "sound_state env S P0 st1" using st by (simp add: sound_state_def)
      have "check_accounts env rec (weight_threshold a) (account_uid_auths a) tw tp mk1 t1 st1 = ((ok, possible, mk), t', st')"
        using r Some Inr y by (simp add: check_authority_body_def)
      from check_accounts_sound [OF rec st1 this] ks(1) Some show ?thesis by (auto simp: satisfied_def)
    qed
  qed
qed

lemma check_authority_rec_sound: "sound_check env S P0 (check_authority_rec env n)"
  by (induction n) (auto intro!: check_authority_body_sound)

lemma check_authority_tree_result:
  assumes "a \<notin> set (approved_by_uid_auth st)" "check_authority env a st = (result, st')"
    and c: "check_authority_tree env (get_by_uid env a) (Sign_Tree (fst a) [] []) st = (result1, t1, st1)"
  shows "result = result1" "provided_signatures st' = provided_signatures st1"
    "approved_by_uid_auth st' = approved_by_uid_auth st1" "key_pool env' st' = key_pool env' st1"
proof -
  have "result = result1 \<and> provided_signatures st' = provided_signatures st1 \<and>
    approved_by_uid_auth st' = approved_by_uid_auth st1"
    using assms by (cases "fst result1") (auto simp: check_authority_def Let_def)
  then show "result = result1" "provided_signatures st' = provided_signatures st1"
    "approved_by_uid_auth st' = approved_by_uid_auth st1" "key_pool env' st' = key_pool env' st1"
    unfolding key_pool_def by simp_all
qed

lemma check_authority_sound:
  assumes "sound_state env S P0 st" "check_authority env a st = (result, st')"
  shows "sound_state env S P0 st'" "fst result \<Longrightarrow> approved (get_by_uid env) S P0 a"
proof -
  have "sound_state env S P0 st' \<and> (fst result \<longrightarrow> approved (get_by_uid env) S P0 a)"
  proof (cases "a \<in> set (approved_by_uid_auth st)")
    case True
    with assms show ?thesis by (auto simp: check_authority_def sound_state_def)
  next
    case False
    obtain ok possible mk t1 st1 where c: "check_authority_tree env (get_by_uid env a) (Sign_Tree (fst a) [] []) st = ((ok, possible, mk), t1, st1)"
      by (metis prod.exhaust)
    have "sound_state env S P0 st1" "ok \<Longrightarrow> \<exists>au. get_by_uid env a = Some au \<and> satisfied S {x. approved (get_by_uid env) S P0 x} au"
      using check_authority_rec_sound [of env S P0 "unat (max_recursion env)"] assms(1) c
      unfolding check_authority_tree_def sound_check_def by blast+
    moreover have "fst result = ok" "key_pool env st' = key_pool env st1" "approved_by_uid_auth st' = approved_by_uid_auth st1"
      using check_authority_tree_result [OF False assms(2) c] by simp_all
    ultimately have "sound_state env S P0 st'" "fst result \<Longrightarrow> approved (get_by_uid env) S P0 a"
      unfolding sound_state_def using approved_satisfied by (metis, metis)
    then show ?thesis by blast
  qed
  then show "sound_state env S P0 st'" "fst result \<Longrightarrow> approved (get_by_uid env) S P0 a" by blast+
qed

lemma require_uid_sound:
  assumes "sound_state env S P0 st" "require_uid env ty err uid st = Inr st'"
  shows "sound_state env S P0 st' \<and> approved (get_by_uid env) S P0 (uid, ty)"
proof -
  obtain result st1 where c: "check_authority env (uid, ty) st = (result, st1)" by fastforce
  with assms(2) have "fst result" "st' = st1" by (auto simp: require_uid_def Let_def split: if_splits)
  with check_authority_sound [OF assms(1) c] show ?thesis by blast
qed

lemma require_other_sound:
  assumes "sound_state env S P0 st" "require_other env auth st = Inr st'"
  shows "sound_state env S P0 st' \<and> satisfied S {x. approved (get_by_uid env) S P0 x} auth"
proof -
  obtain ok possible mk t1 st1 where c: "check_authority_tree env (Some auth) (Sign_Tree 0 [] []) st = ((ok, possible, mk), t1, st1)"
    by (metis prod.exhaust)
  with assms(2) have "ok" "st' = st1" by (auto simp: require_other_def Let_def result_simps)
  with check_authority_rec_sound [of env S P0 "unat (max_recursion env)"] assms(1) c show ?thesis
    unfolding check_authority_tree_def sound_check_def by blast
qed

lemma foldE_collect:
  assumes step: "\<And>x s s'. P s \<Longrightarrow> x \<in> set xs \<Longrightarrow> f x s = Inr s' \<Longrightarrow> P s' \<and> Q x"
  shows "P s \<Longrightarrow> foldE f xs s = Inr s' \<Longrightarrow> P s' \<and> (\<forall>x\<in>set xs. Q x)"
  using step
proof (induction xs arbitrary: s)
  case (Cons x xs)
  from Cons.prems(2) obtain s1 where s1: "f x s = Inr s1" "foldE f xs s1 = Inr s'" by (auto simp: result_simps)
  have "P s1 \<and> Q x" using Cons.prems(3) [OF Cons.prems(1) _ s1(1)] by simp
  moreover have "P s1 \<Longrightarrow> P s' \<and> (\<forall>x\<in>set xs. Q x)"
    by (rule Cons.IH [OF _ s1(2)]) (use Cons.prems(3) in auto)
  ultimately show ?case by simp
qed simp

section \<open>Used signatures belong to the consulted authorities\<close>

inductive_set nested :: "(account_uid_auth_type \<Rightarrow> authority option) \<Rightarrow> authority set \<Rightarrow> authority set"
  for get :: "account_uid_auth_type \<Rightarrow> authority option" and roots :: "authority set" where
  root: "au \<in> roots \<Longrightarrow> au \<in> nested get roots"
| inner: "au \<in> nested get roots \<Longrightarrow> (a, w) \<in> set (account_uid_auths au) \<Longrightarrow> get a = Some au' \<Longrightarrow> au' \<in> nested get roots"

definition used_in :: "authority set \<Rightarrow> sign_state \<Rightarrow> bool" where
  "used_in N st \<longleftrightarrow> (\<forall>k. (k, True) \<in> set (provided_signatures st) \<longrightarrow> (\<exists>au\<in>N. k \<in> set (get_keys au)))"

lemma set_update_subset: "set (AList.update k v xs) \<subseteq> insert (k, v) (set xs)"
  by (induction xs) auto

lemma signed_by_used:
  assumes "used_in N st" "au \<in> N" "k \<in> set (get_keys au)" "signed_by env k st = (b, st')"
  shows "used_in N st'"
  using assms set_update_subset [of k True "provided_signatures st"]
  by (fastforce simp: signed_by_def used_in_def split: option.splits if_splits)

lemma check_keys_used:
  assumes "au \<in> N"
  shows "used_in N st \<Longrightarrow> fst ` set ks \<subseteq> set (get_keys au) \<Longrightarrow>
   (check_keys env thr ks tw tp mk t st = Inl (t', st') \<longrightarrow> used_in N st') \<and>
   (check_keys env thr ks tw tp mk t st = Inr (tw', tp', mk', t'', st'') \<longrightarrow> used_in N st'')"
proof (induction ks arbitrary: tw tp mk t st)
  case (Cons p ks)
  obtain k w where p: "p = (k, w)" by fastforce
  obtain b st1 where s: "signed_by env k st = (b, st1)" by fastforce
  have u: "used_in N st1" by (rule signed_by_used [OF Cons.prems(1) assms _ s]) (use Cons.prems(2) in \<open>simp add: p\<close>)
  note IH = Cons.IH [OF u]
  have sub: "fst ` set ks \<subseteq> set (get_keys au)" using Cons.prems(2) by simp
  show ?case
    using IH [OF sub, of "tw + ucast w" "if k \<noteq> 0 then tp + ucast w else tp" mk "add_pub_key k t"]
      IH [OF sub, of tw "if k \<noteq> 0 then tp + ucast w else tp" "if k \<noteq> 0 then List.insert k mk else mk" t] u
    by (cases b; cases "thr \<le> tw + ucast w") (auto simp: p s)
qed auto

definition used_check :: "authority set \<Rightarrow>
    (authority option \<Rightarrow> sign_tree \<Rightarrow> sign_state \<Rightarrow> check_result \<times> sign_tree \<times> sign_state) \<Rightarrow> bool" where
  "used_check N chk \<longleftrightarrow> (\<forall>au t st r t' st'. used_in N st \<longrightarrow> (\<forall>a. au = Some a \<longrightarrow> a \<in> N) \<longrightarrow> chk au t st = (r, t', st') \<longrightarrow>
     used_in N st')"

lemma check_accounts_used:
  assumes rec: "\<And>chk. rec = Some chk \<Longrightarrow> used_check N chk"
    and nested: "\<And>a w au. (a, w) \<in> set as \<Longrightarrow> get_by_uid env a = Some au \<Longrightarrow> au \<in> N"
  shows "used_in N st \<Longrightarrow> check_accounts env rec thr as tw tp mk t st = (r, t', st') \<Longrightarrow> used_in N st'"
  using nested
proof (induction as arbitrary: tw tp mk t st)
  case (Cons p as)
  obtain a w where p: "p = (a, w)" by fastforce
  have IH: "used_in N st1 \<Longrightarrow> check_accounts env rec thr as tw1 tp1 mk1 t1 st1 = (r, t', st') \<Longrightarrow> used_in N st'"
    for st1 tw1 tp1 mk1 t1 using Cons.IH Cons.prems(3) by (metis list.set_intros(2))
  show ?case
  proof (cases "a \<notin> set (approved_by_uid_auth st) \<and> rec \<noteq> None")
    case True
    then obtain chk where chk: "rec = Some chk" by blast
    obtain ok possible mk1 c1 st1 where c: "chk (get_by_uid env a) (Sign_Tree (fst a) [] []) st = ((ok, possible, mk1), c1, st1)"
      by (metis prod.exhaust)
    have "used_in N st1"
      using rec [OF chk] Cons.prems(1,3) c unfolding used_check_def p by (meson list.set_intros(1))
    then have "used_in N st1" "used_in N (st1\<lparr>approved_by_uid_auth := List.insert a (approved_by_uid_auth st1)\<rparr>)"
      by (simp_all add: used_in_def)
    with True chk c Cons.prems(2) IH show ?thesis by (auto simp: p Let_def split: if_splits)
  next
    case False
    with Cons.prems(1,2) IH show ?thesis by (auto simp: p Let_def split: if_splits)
  qed
qed simp

lemma check_authority_body_used:
  assumes rec: "\<And>chk. rec = Some chk \<Longrightarrow> used_check (nested (get_by_uid env) R) chk"
  shows "used_check (nested (get_by_uid env) R) (check_authority_body env rec)"
  unfolding used_check_def
proof (intro allI impI)
  fix au t st r t' st'
  let ?N = "nested (get_by_uid env) R"
  assume st: "used_in ?N st" and N: "\<forall>a. au = Some a \<longrightarrow> a \<in> ?N" and r: "check_authority_body env rec au t st = (r, t', st')"
  show "used_in ?N st'"
  proof (cases au)
    case None
    with st r show ?thesis by (simp add: check_authority_body_def)
  next
    case (Some a)
    then have aN: "a \<in> ?N" using N by blast
    have sub: "fst ` set (key_auths a) \<subseteq> set (get_keys a)" by (simp add: get_keys_def)
    note ks = check_keys_used [OF aN st sub]
    show ?thesis
    proof (cases "check_keys env (weight_threshold a) (key_auths a) 0 0 [] t st")
      case (Inl x)
      with ks r Some show ?thesis by (cases x) (auto simp: check_authority_body_def)
    next
      case (Inr y)
      obtain tw tp mk1 t1 st1 where y: "y = (tw, tp, mk1, t1, st1)" by (metis prod.exhaust)
      have st1: "used_in ?N st1" using ks Inr y by blast
      have "check_accounts env rec (weight_threshold a) (account_uid_auths a) tw tp mk1 t1 st1 = (r, t', st')"
        using r Some Inr y by (simp add: check_authority_body_def)
      from check_accounts_used [OF rec _ st1 this] aN nested.inner show ?thesis by metis
    qed
  qed
qed

lemma check_authority_rec_used: "used_check (nested (get_by_uid env) R) (check_authority_rec env n)"
  by (induction n) (auto intro!: check_authority_body_used)

section \<open>Completeness\<close>

primrec satisfiable_within :: "(account_uid_auth_type \<Rightarrow> authority option) \<Rightarrow> public_key_type set \<Rightarrow> account_uid_auth_type set \<Rightarrow>
    nat \<Rightarrow> authority \<Rightarrow> bool" where
  "satisfiable_within get S P0 0 au = satisfied S P0 au"
| "satisfiable_within get S P0 (Suc n) au =
     satisfied S (P0 \<union> {a. \<exists>au'. get a = Some au' \<and> satisfiable_within get S P0 n au'}) au"

definition weights_fit :: "authority \<Rightarrow> bool" where
  "weights_fit au \<longleftrightarrow> key_weight UNIV (key_auths au) + account_weight UNIV (account_uid_auths au) < 2 ^ 32"

definition all_fit :: "sign_env \<Rightarrow> bool" where
  "all_fit env \<longleftrightarrow> (\<forall>a au. get_by_uid env a = Some au \<longrightarrow> weights_fit au)"

definition grows :: "sign_env \<Rightarrow> sign_state \<Rightarrow> sign_state \<Rightarrow> bool" where
  "grows env st st' \<longleftrightarrow> key_pool env st' = key_pool env st \<and> set (approved_by_uid_auth st) \<subseteq> set (approved_by_uid_auth st')"

lemma key_weight_le: "key_weight S ks \<le> key_weight UNIV ks"
  by (induction ks) auto

lemma account_weight_mono: "P \<subseteq> Q \<Longrightarrow> account_weight P as \<le> account_weight Q as"
  by (induction as) auto

lemma check_keys_complete:
  assumes "unat tw + key_weight UNIV ks < 2 ^ 32" "tw < thr \<or> thr = 0"
    "check_keys env thr ks tw tp mk t st = Inr (tw', tp', mk', t', st')"
  shows "unat tw' = unat tw + key_weight (key_pool env st) ks \<and> (tw' < thr \<or> thr = 0)"
  using assms
proof (induction ks arbitrary: tw tp mk t st)
  case (Cons p ks)
  obtain k w where p: "p = (k, w)" by fastforce
  obtain b st1 where s: "signed_by env k st = (b, st1)" by fastforce
  note sp = signed_by_spec [OF s]
  have fit: "unat tw + unat w + key_weight UNIV ks < 2 ^ 32" using Cons.prems(1) by (simp add: p)
  show ?case
  proof (cases b)
    case True
    then have mem: "k \<in> key_pool env st" using sp(1) by blast
    have "\<not> thr \<le> tw + ucast w"
      and run: "check_keys env thr ks (tw + ucast w) (if k \<noteq> 0 then tp + ucast w else tp) mk (add_pub_key k t) st1 = Inr (tw', tp', mk', t', st')"
      using Cons.prems(3) True by (auto simp: p s Let_def split: if_splits)
    moreover have "unat (tw + ucast w :: 32 word) = unat tw + unat w"
      by (rule unat_add_weight_exact) (use fit in simp)
    ultimately show ?thesis using Cons.IH [OF _ _ run] fit mem by (simp add: p sp not_le)
  next
    case False
    then have mem: "k \<notin> key_pool env st" using sp(1) by blast
    have run: "check_keys env thr ks tw (if k \<noteq> 0 then tp + ucast w else tp) (if k \<noteq> 0 then List.insert k mk else mk) t st1 = Inr (tw', tp', mk', t', st')"
      using Cons.prems(3) False by (simp add: p s)
    show ?thesis using Cons.IH [OF _ Cons.prems(2) run] fit mem by (simp add: p sp)
  qed
qed simp

definition complete_check :: "sign_env \<Rightarrow> public_key_type set \<Rightarrow> account_uid_auth_type set \<Rightarrow> (authority \<Rightarrow> bool) \<Rightarrow>
    (authority option \<Rightarrow> sign_tree \<Rightarrow> sign_state \<Rightarrow> check_result \<times> sign_tree \<times> sign_state) \<Rightarrow> bool" where
  "complete_check env S P0 sat chk \<longleftrightarrow>
     (\<forall>au t st r t' st'. key_pool env st = S \<longrightarrow> P0 \<subseteq> set (approved_by_uid_auth st) \<longrightarrow> chk au t st = (r, t', st') \<longrightarrow>
        grows env st st' \<and> ((\<exists>a. au = Some a \<and> weights_fit a \<and> sat a) \<longrightarrow> fst r))"

lemma check_accounts_complete:
  assumes rec: "\<And>chk. rec = Some chk \<Longrightarrow> complete_check env S P0 sat chk"
    and A: "A = P0 \<union> (if rec = None then {} else {a. \<exists>au. get_by_uid env a = Some au \<and> sat au})"
    and fits: "\<And>a au. get_by_uid env a = Some au \<Longrightarrow> weights_fit au"
  shows "key_pool env st = S \<Longrightarrow> P0 \<subseteq> set (approved_by_uid_auth st) \<Longrightarrow>
    check_accounts env rec thr as tw tp mk t st = (r, t', st') \<Longrightarrow>
    grows env st st' \<and>
    (unat tw + account_weight UNIV as < 2 ^ 32 \<longrightarrow> tw < thr \<or> thr = 0 \<longrightarrow> unat thr \<le> unat tw + account_weight A as \<longrightarrow> fst r)"
proof (induction as arbitrary: tw tp mk t st)
  case Nil
  then show ?case by (auto simp: grows_def word_less_nat_alt word_le_nat_alt split: if_splits)
next
  case (Cons p as)
  obtain a w where p: "p = (a, w)" by fastforce
  have step: "grows env st st' \<and>
    (unat tw + account_weight UNIV (p # as) < 2 ^ 32 \<longrightarrow> tw < thr \<or> thr = 0 \<longrightarrow>
       unat thr \<le> unat tw + account_weight A (p # as) \<longrightarrow> fst r)"
    if g: "grows env st st1" and eq: "(if thr \<le> tw + ucast w then ((True, True, []), t1, st1)
        else check_accounts env rec thr as (tw + ucast w) (tp + ucast w) mk t1 st1) = (r, t', st')" for t1 st1
  proof (cases "thr \<le> tw + ucast w")
    case True
    with g eq show ?thesis by auto
  next
    case False
    have pool: "key_pool env st1 = S" "P0 \<subseteq> set (approved_by_uid_auth st1)" using g Cons.prems(1,2) by (auto simp: grows_def)
    have "check_accounts env rec thr as (tw + ucast w) (tp + ucast w) mk t1 st1 = (r, t', st')" using eq False by simp
    note IH = Cons.IH [OF pool this]
    from IH g have g': "grows env st st'" by (auto simp: grows_def)
    have lt: "tw + ucast w < thr" using False by simp
    have ex: "unat (tw + ucast w :: 32 word) = unat tw + unat w" if "unat tw + account_weight UNIV (p # as) < 2 ^ 32"
      by (rule unat_add_weight_exact) (use that in \<open>simp add: p\<close>)
    have "account_weight A (p # as) \<le> unat w + account_weight A as" by (simp add: p)
    moreover have "account_weight UNIV (p # as) = unat w + account_weight UNIV as" by (simp add: p)
    ultimately show ?thesis using IH lt g' ex by simp
  qed
  have skip: "grows env st st' \<and>
    (unat tw + account_weight UNIV (p # as) < 2 ^ 32 \<longrightarrow> tw < thr \<or> thr = 0 \<longrightarrow>
       unat thr \<le> unat tw + account_weight A (p # as) \<longrightarrow> fst r)"
    if g: "grows env st st1" and out: "a \<notin> A" and eq: "check_accounts env rec thr as tw tp1 mk1 t st1 = (r, t', st')" for tp1 mk1 st1
  proof -
    have pool: "key_pool env st1 = S" "P0 \<subseteq> set (approved_by_uid_auth st1)" using g Cons.prems(1,2) by (auto simp: grows_def)
    from Cons.IH [OF pool eq] g out show ?thesis by (auto simp: grows_def p)
  qed
  show ?case
  proof (cases "a \<in> set (approved_by_uid_auth st)")
    case True
    show ?thesis by (rule step [of st "add_child (Sign_Tree (fst a) [] []) t"])
      (use True Cons.prems(3) in \<open>simp_all add: p Let_def grows_def split: if_splits\<close>)
  next
    case out: False
    then have aP0: "a \<notin> P0" using Cons.prems(2) by blast
    show ?thesis
    proof (cases rec)
      case None
      show ?thesis by (rule skip [of st tp mk]) (use None out aP0 A Cons.prems(3) in \<open>simp_all add: p grows_def\<close>)
    next
      case (Some chk)
      obtain ok possible mk1 c1 st1 where c: "chk (get_by_uid env a) (Sign_Tree (fst a) [] []) st = ((ok, possible, mk1), c1, st1)"
        by (metis prod.exhaust)
      have chk: "grows env st st1 \<and> ((\<exists>au. get_by_uid env a = Some au \<and> weights_fit au \<and> sat au) \<longrightarrow> fst (ok, possible, mk1))"
        using rec [OF Some] Cons.prems(1,2) c unfolding complete_check_def by blast
      then have g: "grows env st st1" by blast
      have ok: ok if "a \<in> A"
      proof -
        from that aP0 Some A obtain au where "get_by_uid env a = Some au" "sat au" by auto
        with fits chk show ?thesis by auto
      qed
      show ?thesis
      proof (cases ok)
        case True
        show ?thesis
          by (rule step [of "st1\<lparr>approved_by_uid_auth := List.insert a (approved_by_uid_auth st1)\<rparr>" "add_child c1 t"])
            (use True out Some c Cons.prems(3) g in \<open>auto simp: p Let_def grows_def key_pool_def split: if_splits\<close>)
      next
        case False
        show ?thesis
          by (rule skip [of st1 "if possible then tp + ucast w else tp" "if possible then fold List.insert mk1 mk else mk"])
            (use False ok out Some c Cons.prems(3) g in \<open>auto simp: p split: if_splits\<close>)
      qed
    qed
  qed
qed

lemma check_authority_body_complete:
  assumes rec: "\<And>chk. rec = Some chk \<Longrightarrow> complete_check env S P0 sat chk"
    and fits: "\<And>a au. get_by_uid env a = Some au \<Longrightarrow> weights_fit au"
    and sat': "\<And>au. sat' au \<Longrightarrow>
      satisfied S (P0 \<union> (if rec = None then {} else {a. \<exists>au. get_by_uid env a = Some au \<and> sat au})) au"
  shows "complete_check env S P0 sat' (check_authority_body env rec)"
  unfolding complete_check_def
proof (intro allI impI)
  fix au t st r t' st'
  let ?A = "P0 \<union> (if rec = None then {} else {a. \<exists>au. get_by_uid env a = Some au \<and> sat au})"
  assume pool: "key_pool env st = S" and P0: "P0 \<subseteq> set (approved_by_uid_auth st)"
    and r: "check_authority_body env rec au t st = (r, t', st')"
  show "grows env st st' \<and> ((\<exists>a. au = Some a \<and> weights_fit a \<and> sat' a) \<longrightarrow> fst r)"
  proof (cases au)
    case None
    with r show ?thesis by (auto simp: check_authority_body_def grows_def)
  next
    case (Some a)
    show ?thesis
    proof (cases "check_keys env (weight_threshold a) (key_auths a) 0 0 [] t st")
      case (Inl x)
      obtain t1 st1 where x: "x = (t1, st1)" by fastforce
      have "key_pool env st1 = S" "approved_by_uid_auth st1 = approved_by_uid_auth st"
        using check_keys_sound [of env "weight_threshold a" "key_auths a" 0 0 "[]" t st t1 st1] Inl x pool by auto
      with r Some Inl x pool show ?thesis by (auto simp: check_authority_body_def grows_def)
    next
      case (Inr y)
      obtain tw tp mk1 t1 st1 where y: "y = (tw, tp, mk1, t1, st1)" by (metis prod.exhaust)
      note run = Inr [unfolded y]
      have st1: "key_pool env st1 = S" "approved_by_uid_auth st1 = approved_by_uid_auth st"
        using check_keys_sound [of env "weight_threshold a" "key_auths a" 0 0 "[]" t st _ _ tw tp mk1 t1 st1] run pool by auto
      have P1: "P0 \<subseteq> set (approved_by_uid_auth st1)" using P0 st1(2) by simp
      have run': "check_accounts env rec (weight_threshold a) (account_uid_auths a) tw tp mk1 t1 st1 = (r, t', st')"
        using r Some run by (simp add: check_authority_body_def)
      have acc: "grows env st1 st' \<and> (unat tw + account_weight UNIV (account_uid_auths a) < 2 ^ 32 \<longrightarrow>
          tw < weight_threshold a \<or> weight_threshold a = 0 \<longrightarrow>
          unat (weight_threshold a) \<le> unat tw + account_weight ?A (account_uid_auths a) \<longrightarrow> fst r)"
      proof (rule check_accounts_complete [where A = ?A and sat = sat and ?P0.0 = P0 and S = S and env = env])
        show "complete_check env S P0 sat chk" if "rec = Some chk" for chk by (rule rec [OF that])
        show "weights_fit au" if "get_by_uid env b = Some au" for b au by (rule fits [OF that])
      qed (rule refl st1(1) P1 run')+
      from acc have "grows env st1 st'" by (rule conjunct1)
      then have g: "grows env st st'" using st1 pool by (simp add: grows_def)
      have "fst r" if a: "weights_fit a" "sat' a"
      proof -
        have thr0: "(0 :: 32 word) < weight_threshold a \<or> weight_threshold a = 0" by (simp add: word_gt_0)
        have "unat tw = key_weight S (key_auths a) \<and> (tw < weight_threshold a \<or> weight_threshold a = 0)"
          using check_keys_complete [OF _ thr0 run] a(1) pool by (simp add: weights_fit_def)
        moreover from this have "unat tw + account_weight UNIV (account_uid_auths a) < 2 ^ 32"
          using key_weight_le [of S "key_auths a"] a(1) unfolding weights_fit_def by linarith
        moreover have "unat (weight_threshold a) \<le> key_weight S (key_auths a) + account_weight ?A (account_uid_auths a)"
          using sat' [OF a(2)] by (simp add: satisfied_def)
        ultimately show ?thesis using acc by simp
      qed
      with g Some show ?thesis by auto
    qed
  qed
qed

lemma check_authority_rec_complete:
  assumes "all_fit env"
  shows "complete_check env S P0 (satisfiable_within (get_by_uid env) S P0 n) (check_authority_rec env n)"
proof (induction n)
  case 0
  show ?case unfolding check_authority_rec.simps
    by (rule check_authority_body_complete [where sat = "\<lambda>_. False"]) (use assms in \<open>auto simp: all_fit_def\<close>)
next
  case (Suc n)
  show ?case unfolding check_authority_rec.simps
    by (rule check_authority_body_complete [where sat = "satisfiable_within (get_by_uid env) S P0 n"])
      (use Suc assms in \<open>auto simp: all_fit_def\<close>)
qed

section \<open>Verified transactions\<close>

definition pre_approved :: "(64 word \<Rightarrow> 64 word) \<Rightarrow> approvals \<Rightarrow> account_uid_auth_type set" where
  "pre_approved sha ap = {temp_account_uid sha} \<times> UNIV \<union> set (owner_uid_approvals ap) \<times> {owner_auth} \<union>
     set (active_uid_approvals ap) \<times> {active_auth} \<union> set (secondary_uid_approvals ap) \<times> {secondary_auth}"

text \<open>The authorities a transaction is checked against directly.\<close>

definition required_roots :: "sign_env \<Rightarrow> required_auths \<Rightarrow> authority set" where
  "required_roots env r = set (other_auths r) \<union> {au. \<exists>u\<in>set (required_owner_uids r). get_owner_by_uid env u = Some au} \<union>
     {au. \<exists>u\<in>set (required_active_uids r). get_active_by_uid env u = Some au} \<union>
     {au. \<exists>u\<in>set (required_secondary_uids r). get_secondary_by_uid env u = Some au}"

definition meets :: "sign_env \<Rightarrow> public_key_type set \<Rightarrow> account_uid_auth_type set \<Rightarrow> account_uid_auth_type \<Rightarrow> bool" where
  "meets env S P0 a \<longleftrightarrow> a \<in> P0 \<or>
     (\<exists>au. get_by_uid env a = Some au \<and> satisfiable_within (get_by_uid env) S P0 (unat (max_recursion env)) au)"

lemma get_by_uid_available [simp]: "get_by_uid (env\<lparr>available_keys := ks\<rparr>) = get_by_uid env"
  by (rule ext) (simp add: get_by_uid_def)

lemma set_approved_fold: "set (fold (\<lambda>u. List.insert (u, ty)) uids xs) = set xs \<union> set uids \<times> {ty}"
  by (induction uids arbitrary: xs) auto

lemma set_initial_approved: "set (approved_by_uid_auth (initial_sign_state sha sigs ap)) = pre_approved sha ap"
proof -
  have "UNIV = {owner_auth, active_auth, secondary_auth}" using account_auth_type.exhaust by blast
  then show ?thesis
    by (auto simp: initial_sign_state_def approve_all_def set_approved_fold sign_state_init_def pre_approved_def)
qed

lemma provided_fold:
  "fst ` set (fold (\<lambda>ks. AList.update (fst ks) False) sigs xs) = fst ` set sigs \<union> fst ` set xs"
proof (induction sigs arbitrary: xs)
  case (Cons s sigs)
  show ?case by (simp only: fold_simps Cons.IH dom_update list.set) auto
qed simp

lemma provided_fold_unused:
  "(k, True) \<notin> set xs \<Longrightarrow> (k, True) \<notin> set (fold (\<lambda>ks. AList.update (fst ks) False) sigs xs)"
proof (induction sigs arbitrary: xs)
  case (Cons s sigs)
  have "(k, True) \<notin> set (AList.update (fst s) False xs)" using Cons.prems set_update_subset by fastforce
  with Cons.IH show ?case by simp
qed simp

lemma provided_initial:
  "provided_signatures (initial_sign_state sha sigs ap) = fold (\<lambda>ks. AList.update (fst ks) False) sigs []"
  by (simp add: initial_sign_state_def approve_all_def sign_state_init_def)

lemma key_pool_initial: "key_pool (env\<lparr>available_keys := []\<rparr>) (initial_sign_state sha sigs ap) = fst ` set sigs"
  unfolding key_pool_def provided_initial provided_fold by simp

lemma sound_state_initial:
  "sound_state (env\<lparr>available_keys := []\<rparr>) (fst ` set sigs) (pre_approved sha ap) (initial_sign_state sha sigs ap)"
  unfolding sound_state_def key_pool_initial set_initial_approved by (auto intro: approved.beforehand)

lemma used_in_initial: "used_in N (initial_sign_state sha sigs ap)"
  unfolding used_in_def provided_initial using provided_fold_unused [of _ "[]" sigs] by auto

lemma require_uid_used:
  assumes "used_in (nested (get_by_uid env) R) st" "\<And>au. get_by_uid env (uid, ty) = Some au \<Longrightarrow> au \<in> R"
    "require_uid env ty err uid st = Inr st'"
  shows "used_in (nested (get_by_uid env) R) st'"
proof -
  obtain result st1 where c: "check_authority env (uid, ty) st = (result, st1)" by fastforce
  have st': "st' = st1" using assms(3) c by (auto simp: require_uid_def Let_def split: if_splits)
  show ?thesis
  proof (cases "(uid, ty) \<in> set (approved_by_uid_auth st)")
    case True
    with assms(1) c st' show ?thesis by (auto simp: check_authority_def)
  next
    case False
    obtain r2 t2 st2 where t: "check_authority_tree env (get_by_uid env (uid, ty)) (Sign_Tree (fst (uid, ty)) [] []) st = (r2, t2, st2)"
      by (metis prod.exhaust)
    have "used_in (nested (get_by_uid env) R) st2"
      using check_authority_rec_used [of env R "unat (max_recursion env)"] assms(1,2) t nested.root
      unfolding used_check_def check_authority_tree_def by blast
    then show ?thesis using check_authority_tree_result(2) [OF False c t] by (simp add: used_in_def st')
  qed
qed

lemma require_other_used:
  assumes "used_in (nested (get_by_uid env) R) st" "auth \<in> R" "require_other env auth st = Inr st'"
  shows "used_in (nested (get_by_uid env) R) st'"
proof -
  obtain r2 t2 st2 where t: "check_authority_tree env (Some auth) (Sign_Tree 0 [] []) st = (r2, t2, st2)"
    by (metis prod.exhaust)
  then have "st' = st2" using assms(3) by (auto simp: require_other_def Let_def result_simps)
  with check_authority_rec_used [of env R "unat (max_recursion env)"] assms(1,2) t nested.root show ?thesis
    unfolding used_check_def check_authority_tree_def by blast
qed

text \<open>An accepted transaction, step by step.\<close>

lemma verify_authority_steps:
  assumes "verify_authority sha req env ops sigs hf ac ap = Inr si"
  defines "e \<equiv> env\<lparr>available_keys := []\<rparr>" and "r \<equiv> get_required_uid_authorities req hf ops"
  obtains st1 st2 st3 st4 where
    "foldE (require_uid e owner_auth Tx_Missing_Owner_Auth) (required_owner_uids r) (initial_sign_state sha sigs ap) = Inr st1"
    "foldE (require_uid e active_auth Tx_Missing_Active_Auth) (required_active_uids r) st1 = Inr st2"
    "foldE (require_uid e secondary_auth Tx_Missing_Secondary_Auth) (required_secondary_uids r) st2 = Inr st3"
    "foldE (require_other e) (other_auths r) st3 = Inr st4"
    "\<forall>s\<in>set (provided_signatures st4). snd s" "ac \<or> committee_account_uid sha \<notin> set (required_active_uids r)"
  using assms
  by (auto simp: verify_authority_def Let_def result_simps remove_unused_signatures_def filter_empty_conv
      split: prod.splits)

text \<open>
  C2. Soundness of the signature check: in an accepted transaction every required owner, active and
  secondary authority is approved by the keys that signed (through approvals given beforehand, and
  through account authorities that are themselves approved), every further authority is satisfied by
  them, and the committee account is not asked to sign directly. It holds whatever the weights are,
  also where the 32-bit counters wrap.
\<close>

theorem verify_authority_sound:
  assumes "verify_authority sha req env ops sigs hf ac ap = Inr si"
  shows "let r = get_required_uid_authorities req hf ops; S = fst ` set sigs;
             A = approved (get_by_uid env) S (pre_approved sha ap)
         in (\<forall>u\<in>set (required_owner_uids r). A (u, owner_auth)) \<and>
            (\<forall>u\<in>set (required_active_uids r). A (u, active_auth)) \<and>
            (\<forall>u\<in>set (required_secondary_uids r). A (u, secondary_auth)) \<and>
            (\<forall>au\<in>set (other_auths r). satisfied S {x. A x} au) \<and>
            (ac \<or> committee_account_uid sha \<notin> set (required_active_uids r))"
proof -
  let ?e = "env\<lparr>available_keys := []\<rparr>" and ?S = "fst ` set sigs" and ?P = "pre_approved sha ap"
  let ?r = "get_required_uid_authorities req hf ops"
  obtain st1 st2 st3 st4 where
    1: "foldE (require_uid ?e owner_auth Tx_Missing_Owner_Auth) (required_owner_uids ?r) (initial_sign_state sha sigs ap) = Inr st1"
    and 2: "foldE (require_uid ?e active_auth Tx_Missing_Active_Auth) (required_active_uids ?r) st1 = Inr st2"
    and 3: "foldE (require_uid ?e secondary_auth Tx_Missing_Secondary_Auth) (required_secondary_uids ?r) st2 = Inr st3"
    and 4: "foldE (require_other ?e) (other_auths ?r) st3 = Inr st4"
    and 5: "ac \<or> committee_account_uid sha \<notin> set (required_active_uids ?r)"
    by (rule verify_authority_steps [OF assms]) blast
  have uid: "sound_state ?e ?S ?P s' \<and> (\<forall>u\<in>set us. approved (get_by_uid ?e) ?S ?P (u, ty))"
    if "sound_state ?e ?S ?P s" "foldE (require_uid ?e ty err) us s = Inr s'" for ty err us s s'
    by (rule foldE_collect [where P = "sound_state ?e ?S ?P", OF _ that]) (rule require_uid_sound)
  have s1: "sound_state ?e ?S ?P st1 \<and> (\<forall>u\<in>set (required_owner_uids ?r). approved (get_by_uid ?e) ?S ?P (u, owner_auth))"
    by (rule uid [OF sound_state_initial 1])
  then have s2: "sound_state ?e ?S ?P st2 \<and> (\<forall>u\<in>set (required_active_uids ?r). approved (get_by_uid ?e) ?S ?P (u, active_auth))"
    using uid [OF _ 2] by blast
  then have s3: "sound_state ?e ?S ?P st3 \<and> (\<forall>u\<in>set (required_secondary_uids ?r). approved (get_by_uid ?e) ?S ?P (u, secondary_auth))"
    using uid [OF _ 3] by blast
  have s4: "sound_state ?e ?S ?P st4 \<and> (\<forall>au\<in>set (other_auths ?r). satisfied ?S {x. approved (get_by_uid ?e) ?S ?P x} au)"
    by (rule foldE_collect [where P = "sound_state ?e ?S ?P", OF _ conjunct1 [OF s3] 4]) (rule require_other_sound)
  show ?thesis using s1 s2 s3 s4 5 by (simp add: Let_def)
qed

text \<open>
  C10. An accepted transaction carries no irrelevant signature: every key that signed stands in one
  of the authorities the transaction requires or in one nested below them.
\<close>

theorem verify_authority_no_irrelevant:
  assumes "verify_authority sha req env ops sigs hf ac ap = Inr si" and "k \<in> fst ` set sigs"
  shows "\<exists>au\<in>nested (get_by_uid env) (required_roots env (get_required_uid_authorities req hf ops)). k \<in> set (get_keys au)"
proof -
  let ?e = "env\<lparr>available_keys := []\<rparr>" and ?S = "fst ` set sigs" and ?P = "pre_approved sha ap"
  let ?r = "get_required_uid_authorities req hf ops"
  let ?R = "required_roots env ?r"
  let ?N = "nested (get_by_uid ?e) ?R"
  obtain st1 st2 st3 st4 where
    1: "foldE (require_uid ?e owner_auth Tx_Missing_Owner_Auth) (required_owner_uids ?r) (initial_sign_state sha sigs ap) = Inr st1"
    and 2: "foldE (require_uid ?e active_auth Tx_Missing_Active_Auth) (required_active_uids ?r) st1 = Inr st2"
    and 3: "foldE (require_uid ?e secondary_auth Tx_Missing_Secondary_Auth) (required_secondary_uids ?r) st2 = Inr st3"
    and 4: "foldE (require_other ?e) (other_auths ?r) st3 = Inr st4"
    and 5: "\<forall>s\<in>set (provided_signatures st4). snd s"
    by (rule verify_authority_steps [OF assms(1)]) blast
  let ?inv = "\<lambda>st. sound_state ?e ?S ?P st \<and> used_in ?N st"
  have uid: "?inv s'" if "?inv s" "foldE (require_uid ?e ty err) us s = Inr s'"
    "\<And>u au. u \<in> set us \<Longrightarrow> get_by_uid ?e (u, ty) = Some au \<Longrightarrow> au \<in> ?R" for ty err us s s'
    by (rule conjunct1 [OF foldE_collect [where P = ?inv and Q = "\<lambda>_. True", OF _ that(1,2)]])
      (use require_uid_sound require_uid_used that(3) in blast)
  have "?inv st1" by (rule uid [OF _ 1]) (auto simp: sound_state_initial used_in_initial get_by_uid_def required_roots_def)
  then have "?inv st2" by (rule uid [OF _ 2]) (auto simp: get_by_uid_def required_roots_def)
  then have inv3: "?inv st3" by (rule uid [OF _ 3]) (auto simp: get_by_uid_def required_roots_def)
  have inv4: "?inv st4"
    by (rule conjunct1 [OF foldE_collect [where P = ?inv and Q = "\<lambda>_. True", OF _ inv3 4]])
      (use require_other_sound require_other_used [where R = ?R] in \<open>unfold required_roots_def, blast\<close>)
  then have "k \<in> fst ` set (provided_signatures st4)" using assms(2) by (auto simp: sound_state_def key_pool_def)
  then have "(k, True) \<in> set (provided_signatures st4)" using 5 by force
  with inv4 show ?thesis by (simp add: used_in_def)
qed

text \<open>Completeness, one required authority at a time.\<close>

definition complete_state :: "sign_env \<Rightarrow> public_key_type set \<Rightarrow> account_uid_auth_type set \<Rightarrow> sign_state \<Rightarrow> bool" where
  "complete_state env S P0 st \<longleftrightarrow> key_pool env st = S \<and> P0 \<subseteq> set (approved_by_uid_auth st)"

lemma require_uid_complete:
  assumes "complete_state env S P0 st" "all_fit env" "meets env S P0 (uid, ty)"
  shows "\<exists>st'. require_uid env ty err uid st = Inr st' \<and> complete_state env S P0 st'"
proof (cases "(uid, ty) \<in> set (approved_by_uid_auth st)")
  case True
  then have "require_uid env ty err uid st = Inr st" by (simp add: require_uid_def check_authority_def)
  with assms(1) show ?thesis by blast
next
  case False
  obtain r1 t1 st1 where t: "check_authority_tree env (get_by_uid env (uid, ty)) (Sign_Tree (fst (uid, ty)) [] []) st = (r1, t1, st1)"
    by (metis prod.exhaust)
  obtain result st' where c: "check_authority env (uid, ty) st = (result, st')" by fastforce
  note eq = check_authority_tree_result [OF False c t]
  obtain au where "get_by_uid env (uid, ty) = Some au" "satisfiable_within (get_by_uid env) S P0 (unat (max_recursion env)) au"
    using assms(1,3) False by (auto simp: meets_def complete_state_def)
  moreover from this have "weights_fit au" using assms(2) by (auto simp: all_fit_def)
  moreover have "grows env st st1 \<and> ((\<exists>a. get_by_uid env (uid, ty) = Some a \<and> weights_fit a \<and>
      satisfiable_within (get_by_uid env) S P0 (unat (max_recursion env)) a) \<longrightarrow> fst r1)"
    using check_authority_rec_complete [OF assms(2), of S P0 "unat (max_recursion env)"] assms(1) t
    unfolding complete_check_def check_authority_tree_def complete_state_def by blast
  ultimately have "fst r1" "grows env st st1" by blast+
  then have "require_uid env ty err uid st = Inr st'" "complete_state env S P0 st'"
    using eq(1) assms(1) by (auto simp: require_uid_def c complete_state_def eq(3,4) grows_def)
  then show ?thesis by blast
qed

lemma require_other_complete:
  assumes "complete_state env S P0 st" "all_fit env" "weights_fit auth"
    "satisfiable_within (get_by_uid env) S P0 (unat (max_recursion env)) auth"
  shows "\<exists>st'. require_other env auth st = Inr st' \<and> complete_state env S P0 st'"
proof -
  obtain r1 t1 st1 where t: "check_authority_tree env (Some auth) (Sign_Tree 0 [] []) st = (r1, t1, st1)"
    by (metis prod.exhaust)
  have "grows env st st1 \<and> ((\<exists>a. Some auth = Some a \<and> weights_fit a \<and>
      satisfiable_within (get_by_uid env) S P0 (unat (max_recursion env)) a) \<longrightarrow> fst r1)"
    using check_authority_rec_complete [OF assms(2), of S P0 "unat (max_recursion env)"] assms(1) t
    unfolding complete_check_def check_authority_tree_def complete_state_def by blast
  then show ?thesis using assms(1,3,4) t
    by (auto simp: require_other_def graphene_assert_def complete_state_def grows_def)
qed

lemma foldE_total:
  assumes "\<And>x s. P s \<Longrightarrow> x \<in> set xs \<Longrightarrow> \<exists>s'. f x s = Inr s' \<and> P s'"
  shows "P s \<Longrightarrow> \<exists>s'. foldE f xs s = Inr s' \<and> P s'"
  using assms by (induction xs arbitrary: s) (simp, metis bindE_Inr foldE.simps(2) list.set_intros)

text \<open>
  C4. Completeness of the signature check: where every required authority is met within the depth
  limit by the keys that signed, and no authority's total weight overflows the counters, the check
  never reports a missing authority. It accepts, or rejects the transaction only for carrying
  signatures it did not need.
\<close>

theorem verify_authority_complete:
  assumes "all_fit env"
    and "\<forall>u\<in>set (required_owner_uids (get_required_uid_authorities req hf ops)). meets env (fst ` set sigs) (pre_approved sha ap) (u, owner_auth)"
    and "\<forall>u\<in>set (required_active_uids (get_required_uid_authorities req hf ops)). meets env (fst ` set sigs) (pre_approved sha ap) (u, active_auth)"
    and "\<forall>u\<in>set (required_secondary_uids (get_required_uid_authorities req hf ops)). meets env (fst ` set sigs) (pre_approved sha ap) (u, secondary_auth)"
    and "\<forall>au\<in>set (other_auths (get_required_uid_authorities req hf ops)). weights_fit au \<and>
      satisfiable_within (get_by_uid env) (fst ` set sigs) (pre_approved sha ap) (unat (max_recursion env)) au"
    and "ac \<or> committee_account_uid sha \<notin> set (required_active_uids (get_required_uid_authorities req hf ops))"
  shows "(\<exists>si. verify_authority sha req env ops sigs hf ac ap = Inr si) \<or>
    verify_authority sha req env ops sigs hf ac ap = Inl Tx_Irrelevant_Sig"
proof -
  let ?e = "env\<lparr>available_keys := []\<rparr>" and ?S = "fst ` set sigs" and ?P = "pre_approved sha ap"
  let ?r = "get_required_uid_authorities req hf ops"
  have fit: "all_fit ?e" using assms(1) by (simp add: all_fit_def)
  have uid: "\<exists>s'. foldE (require_uid ?e ty err) us s = Inr s' \<and> complete_state ?e ?S ?P s'"
    if "complete_state ?e ?S ?P s" "\<forall>u\<in>set us. meets env ?S ?P (u, ty)" for ty err us s
    by (rule foldE_total [where P = "complete_state ?e ?S ?P", OF _ that(1)])
      (use require_uid_complete [OF _ fit] that(2) in \<open>simp add: meets_def\<close>)
  have "complete_state ?e ?S ?P (initial_sign_state sha sigs ap)"
    by (simp add: complete_state_def key_pool_initial set_initial_approved)
  from uid [OF this assms(2)] obtain st1 where
    1: "foldE (require_uid ?e owner_auth Tx_Missing_Owner_Auth) (required_owner_uids ?r) (initial_sign_state sha sigs ap) = Inr st1"
    "complete_state ?e ?S ?P st1" by blast
  from uid [OF 1(2) assms(3)] obtain st2 where
    2: "foldE (require_uid ?e active_auth Tx_Missing_Active_Auth) (required_active_uids ?r) st1 = Inr st2"
    "complete_state ?e ?S ?P st2" by blast
  from uid [OF 2(2) assms(4)] obtain st3 where
    3: "foldE (require_uid ?e secondary_auth Tx_Missing_Secondary_Auth) (required_secondary_uids ?r) st2 = Inr st3"
    "complete_state ?e ?S ?P st3" by blast
  have "\<exists>s'. foldE (require_other ?e) (other_auths ?r) st3 = Inr s' \<and> complete_state ?e ?S ?P s'"
    by (rule foldE_total [where P = "complete_state ?e ?S ?P", OF _ 3(2)])
      (use require_other_complete [OF _ fit] assms(5) in simp)
  then obtain st4 where 4: "foldE (require_other ?e) (other_auths ?r) st3 = Inr st4" by blast
  show ?thesis using 1 2 3 4 assms(6)
    by (simp add: verify_authority_def Let_def graphene_assert_def remove_unused_signatures_def)
qed

section \<open>An example\<close>

text \<open>
  Account 7 asks for weight 2 of key 11 and the active authority of account 9, whose key is 12. A
  transaction that needs the active authority of account 7 is signed with both keys.
\<close>

definition example_env :: sign_env where
  "example_env = \<lparr>get_owner_by_uid = (\<lambda>_. None),
     get_active_by_uid = (\<lambda>u. if u = 7 then Some \<lparr>weight_threshold = 2, account_uid_auths = [((9, active_auth), 1)], key_auths = [(11, 1)]\<rparr>
        else if u = 9 then Some \<lparr>weight_threshold = 1, account_uid_auths = [], key_auths = [(12, 1)]\<rparr> else None),
     get_secondary_by_uid = (\<lambda>_. None), available_keys = [], max_recursion = 2\<rparr>"

definition example_approvals :: approvals where
  "example_approvals = \<lparr>owner_uid_approvals = [], active_uid_approvals = [], secondary_uid_approvals = []\<rparr>"

definition example_req :: "unit required_of" where
  "example_req op hf = ([], [7], [], [])"

definition example_sigs :: "(public_key_type \<times> unit) list" where
  "example_sigs = [(11, ()), (12, ())]"

definition example_verify :: "signed_information result" where
  "example_verify = verify_authority (\<lambda>_. 0) example_req example_env [()] example_sigs False False example_approvals"

lemma example_verify_ok: "\<exists>si. example_verify = Inr si"
proof -
  have "\<not> isl example_verify" by code_simp
  then show ?thesis by (metis sum.collapse(2))
qed

lemma example_required:
  "required_owner_uids (get_required_uid_authorities example_req False [()]) = []"
  "required_active_uids (get_required_uid_authorities example_req False [()]) = [7]"
  "required_secondary_uids (get_required_uid_authorities example_req False [()]) = []"
  "other_auths (get_required_uid_authorities example_req False [()]) = []"
  by code_simp+

theorem verify_authority_sound_witness:
  "approved (get_by_uid example_env) {11, 12} (pre_approved (\<lambda>_. 0) example_approvals) (7, active_auth)"
proof -
  obtain si where "example_verify = Inr si" using example_verify_ok by blast
  from verify_authority_sound [OF this [unfolded example_verify_def]] show ?thesis
    by (simp add: Let_def example_required example_sigs_def)
qed

theorem verify_authority_no_irrelevant_witness:
  "\<exists>au\<in>nested (get_by_uid example_env) (required_roots example_env (get_required_uid_authorities example_req False [()])). 12 \<in> set (get_keys au)"
proof -
  obtain si where "example_verify = Inr si" using example_verify_ok by blast
  from verify_authority_no_irrelevant [OF this [unfolded example_verify_def]] show ?thesis
    by (simp add: example_sigs_def)
qed

theorem verify_authority_complete_witness:
  "(\<exists>si. example_verify = Inr si) \<or> example_verify = Inl Tx_Irrelevant_Sig"
  unfolding example_verify_def
proof (rule verify_authority_complete)
  show "all_fit example_env"
    by (auto simp: all_fit_def example_env_def get_by_uid_def weights_fit_def split: if_splits)
  have "unat (max_recursion example_env) = Suc (Suc 0)" by (simp add: example_env_def)
  then show "\<forall>u\<in>set (required_active_uids (get_required_uid_authorities example_req False [()])).
      meets example_env (fst ` set example_sigs) (pre_approved (\<lambda>_. 0) example_approvals) (u, active_auth)"
    by (simp add: example_required meets_def satisfied_def example_sigs_def)
      (simp add: example_env_def get_by_uid_def)
  show "False \<or> committee_account_uid (\<lambda>_. 0) \<notin> set (required_active_uids (get_required_uid_authorities example_req False [()]))"
    by (simp add: example_required) code_simp
qed (simp_all add: example_required)

end
