(* ===== verification/Member_Index.thy ===== *)
theory Member_Index
  imports Authority
begin

text \<open>
  The secondary index from members to the accounts they control: \<^verbatim>\<open>account_member_index\<close> of
  \<^verbatim>\<open>account_object.cpp\<close>. It is told of every insertion, removal and modification of an account and
  keeps, for every account number and every key, the accounts whose authorities name it. A
  \<^verbatim>\<open>std::set\<close> is a sorted list without repetitions, so \<^verbatim>\<open>std::set_difference\<close> is a filter.
\<close>

section \<open>The index\<close>

record account_object = account_auths +
  memo_key :: public_key_type

type_synonym 'k memberships = "'k \<rightharpoonup> account_uid_type list"

record account_member_index =
  account_to_account_memberships :: "account_uid_type memberships"
  account_to_key_memberships :: "public_key_type memberships"
  before_account_members :: "account_uid_type list"
  before_key_members :: "public_key_type list"

text \<open>\<open>m[k]\<close>, which creates an empty set for a new key.\<close>

definition members_at :: "'k \<Rightarrow> 'k memberships \<Rightarrow> account_uid_type list" where
  "members_at k m = (case m k of None \<Rightarrow> [] | Some us \<Rightarrow> us)"

definition members_insert :: "account_uid_type \<Rightarrow> 'k \<Rightarrow> 'k memberships \<Rightarrow> 'k memberships" where
  "members_insert u k m = m(k \<mapsto> insort_insert u (members_at k m))"

definition members_erase :: "account_uid_type \<Rightarrow> 'k \<Rightarrow> 'k memberships \<Rightarrow> 'k memberships" where
  "members_erase u k m = m(k \<mapsto> removeAll u (members_at k m))"

definition get_account_members :: "account_object \<Rightarrow> account_uid_type list" where
  "get_account_members a =
     fold (\<lambda>auth. insort_insert (fst (fst auth))) (account_uid_auths (account_secondary a))
       (fold (\<lambda>auth. insort_insert (fst (fst auth))) (account_uid_auths (account_active a))
         (fold (\<lambda>auth. insort_insert (fst (fst auth))) (account_uid_auths (account_owner a)) []))"

definition get_key_members :: "account_object \<Rightarrow> public_key_type list" where
  "get_key_members a =
     insort_insert (memo_key a)
       (fold (\<lambda>auth. insort_insert (fst auth)) (key_auths (account_active a))
         (fold (\<lambda>auth. insort_insert (fst auth)) (key_auths (account_owner a)) []))"

definition object_inserted :: "account_object \<Rightarrow> account_member_index \<Rightarrow> account_member_index" where
  "object_inserted a idx =
     idx\<lparr>account_to_account_memberships :=
           fold (members_insert (account_uid a)) (get_account_members a) (account_to_account_memberships idx),
         account_to_key_memberships :=
           fold (members_insert (account_uid a)) (get_key_members a) (account_to_key_memberships idx)\<rparr>"

definition object_removed :: "account_object \<Rightarrow> account_member_index \<Rightarrow> account_member_index" where
  "object_removed a idx =
     idx\<lparr>account_to_key_memberships :=
           fold (members_erase (account_uid a)) (get_key_members a) (account_to_key_memberships idx),
         account_to_account_memberships :=
           fold (members_erase (account_uid a)) (get_account_members a) (account_to_account_memberships idx)\<rparr>"

definition about_to_modify :: "account_object \<Rightarrow> account_member_index \<Rightarrow> account_member_index" where
  "about_to_modify a idx = idx\<lparr>before_key_members := get_key_members a, before_account_members := get_account_members a\<rparr>"

definition update_members :: "account_uid_type \<Rightarrow> 'k list \<Rightarrow> 'k list \<Rightarrow> 'k memberships \<Rightarrow> 'k memberships" where
  "update_members u before after m =
     (let removed = filter (\<lambda>k. k \<notin> set after) before; added = filter (\<lambda>k. k \<notin> set before) after
      in fold (members_insert u) added (fold (members_erase u) removed m))"

definition object_modified :: "account_object \<Rightarrow> account_member_index \<Rightarrow> account_member_index" where
  "object_modified a idx =
     idx\<lparr>account_to_account_memberships :=
           update_members (account_uid a) (before_account_members idx) (get_account_members a) (account_to_account_memberships idx),
         account_to_key_memberships :=
           update_members (account_uid a) (before_key_members idx) (get_key_members a) (account_to_key_memberships idx)\<rparr>"

definition empty_member_index :: account_member_index where
  "empty_member_index = \<lparr>account_to_account_memberships = Map.empty, account_to_key_memberships = Map.empty,
     before_account_members = [], before_key_members = []\<rparr>"

section \<open>The index is exact\<close>

lemma members_at_insert: "set (members_at k' (members_insert u k m)) = (if k' = k then insert u (set (members_at k m)) else set (members_at k' m))"
  by (auto simp: members_insert_def members_at_def set_insort_insert split: option.splits)

lemma members_at_erase: "set (members_at k' (members_erase u k m)) = (if k' = k then set (members_at k m) - {u} else set (members_at k' m))"
  by (auto simp: members_erase_def members_at_def split: option.splits)

lemma members_at_fold_insert:
  "set (members_at k (fold (members_insert u) ks m)) = (if k \<in> set ks then {u} else {}) \<union> set (members_at k m)"
  by (induction ks arbitrary: m) (auto simp: members_at_insert)

lemma members_at_fold_erase:
  "set (members_at k (fold (members_erase u) ks m)) = set (members_at k m) - (if k \<in> set ks then {u} else {})"
  by (induction ks arbitrary: m) (auto simp: members_at_erase)

lemma set_get_account_members:
  "set (get_account_members a) = fst ` fst ` (set (account_uid_auths (account_owner a)) \<union>
     set (account_uid_auths (account_active a)) \<union> set (account_uid_auths (account_secondary a)))"
proof -
  have "set (fold (\<lambda>auth. insort_insert (fst (fst auth))) xs acc) = fst ` fst ` set xs \<union> set acc"
    for xs :: "(account_uid_auth_type \<times> weight_type) list" and acc
    by (induction xs arbitrary: acc) (auto simp: set_insort_insert)
  then show ?thesis by (simp add: get_account_members_def image_Un Un_ac)
qed

lemma set_get_key_members:
  "set (get_key_members a) = insert (memo_key a) (fst ` (set (key_auths (account_owner a)) \<union> set (key_auths (account_active a))))"
proof -
  have "set (fold (\<lambda>auth. insort_insert (fst auth)) xs acc) = fst ` set xs \<union> set acc"
    for xs :: "(public_key_type \<times> weight_type) list" and acc
    by (induction xs arbitrary: acc) (auto simp: set_insort_insert)
  then show ?thesis by (simp add: get_key_members_def set_insort_insert image_Un Un_ac)
qed

text \<open>\<open>exact\<close>: an account is listed under \<open>k\<close> iff it is in the database and has \<open>k\<close> as a member.\<close>

definition exact :: "(account_object \<Rightarrow> 'k list) \<Rightarrow> (account_uid_type \<rightharpoonup> account_object) \<Rightarrow> 'k memberships \<Rightarrow> bool" where
  "exact members accts m \<longleftrightarrow> (\<forall>k u. u \<in> set (members_at k m) \<longleftrightarrow> (\<exists>a. accts u = Some a \<and> k \<in> set (members a)))"

lemma exact_insert:
  "exact members accts m \<Longrightarrow> accts (account_uid a) = None \<Longrightarrow>
   exact members (accts(account_uid a \<mapsto> a)) (fold (members_insert (account_uid a)) (members a) m)"
  by (auto simp: exact_def members_at_fold_insert)

lemma exact_remove:
  "exact members accts m \<Longrightarrow> accts (account_uid a) = Some a \<Longrightarrow>
   exact members (accts(account_uid a := None)) (fold (members_erase (account_uid a)) (members a) m)"
  by (auto simp: exact_def members_at_fold_erase)

lemma exact_modify:
  "exact members accts m \<Longrightarrow> accts (account_uid a) = Some a \<Longrightarrow> account_uid b = account_uid a \<Longrightarrow>
   exact members (accts(account_uid a \<mapsto> b)) (update_members (account_uid b) (members a) (members b) m)"
  by (auto simp: exact_def update_members_def Let_def members_at_fold_insert members_at_fold_erase)

text \<open>
  The notifications the object database sends while accounts are created, removed and modified:
  the accounts in the database, and the index.
\<close>

inductive index_run :: "(account_uid_type \<rightharpoonup> account_object) \<Rightarrow> account_member_index \<Rightarrow> bool" where
  start: "index_run Map.empty empty_member_index"
| inserted: "index_run accts idx \<Longrightarrow> accts (account_uid a) = None \<Longrightarrow>
    index_run (accts(account_uid a \<mapsto> a)) (object_inserted a idx)"
| removed: "index_run accts idx \<Longrightarrow> accts (account_uid a) = Some a \<Longrightarrow>
    index_run (accts(account_uid a := None)) (object_removed a idx)"
| modified: "index_run accts idx \<Longrightarrow> accts (account_uid a) = Some a \<Longrightarrow> account_uid b = account_uid a \<Longrightarrow>
    index_run (accts(account_uid a \<mapsto> b)) (object_modified b (about_to_modify a idx))"

lemma index_run_exact:
  "index_run accts idx \<Longrightarrow>
   exact get_account_members accts (account_to_account_memberships idx) \<and>
   exact get_key_members accts (account_to_key_memberships idx)"
proof (induction rule: index_run.induct)
  case start
  then show ?case by (simp add: exact_def empty_member_index_def members_at_def)
next
  case (inserted accts idx a)
  then show ?case using exact_insert [of get_account_members accts _ a] exact_insert [of get_key_members accts _ a]
    unfolding fun_upd_def object_inserted_def by simp
next
  case (removed accts idx a)
  then show ?case using exact_remove [of get_account_members accts _ a] exact_remove [of get_key_members accts _ a]
    unfolding fun_upd_def object_removed_def by simp
next
  case (modified accts idx a b)
  then show ?case using exact_modify [of get_account_members accts _ a b] exact_modify [of get_key_members accts _ a b]
    unfolding fun_upd_def object_modified_def about_to_modify_def by simp
qed

text \<open>
  C20. After any sequence of insertions, removals and modifications the member index lists, for an
  account number, exactly the accounts naming it in one of their three authorities, and for a key
  exactly the accounts naming it in their owner or active authority or as memo key. A key that stands
  only in a secondary authority is not indexed.
\<close>

theorem member_index_exact:
  assumes "index_run accts idx"
  shows "(u \<in> set (members_at k (account_to_account_memberships idx)) \<longleftrightarrow>
      (\<exists>a. accts u = Some a \<and> k \<in> fst ` fst ` (set (account_uid_auths (account_owner a)) \<union>
        set (account_uid_auths (account_active a)) \<union> set (account_uid_auths (account_secondary a))))) \<and>
    (u \<in> set (members_at key (account_to_key_memberships idx)) \<longleftrightarrow>
      (\<exists>a. accts u = Some a \<and> (key = memo_key a \<or> key \<in> set (get_keys (account_owner a)) \<union> set (get_keys (account_active a)))))"
proof -
  have keys: "key \<in> set (get_key_members a) \<longleftrightarrow> key = memo_key a \<or> key \<in> set (get_keys (account_owner a)) \<union> set (get_keys (account_active a))" for a
    by (simp add: set_get_key_members get_keys_def image_Un)
  show ?thesis using index_run_exact [OF assms] unfolding exact_def keys [symmetric] set_get_account_members [symmetric] by blast
qed

definition example_account :: "public_key_type \<Rightarrow> account_object" where
  "example_account k = \<lparr>account_uid = 5, account_owner = authority_default\<lparr>key_auths := [(k, 1)]\<rparr>,
     account_active = authority_default\<lparr>account_uid_auths := [((9, active_auth), 1)]\<rparr>,
     account_secondary = authority_default\<lparr>key_auths := [(33, 1)]\<rparr>, memo_key = 7\<rparr>"

theorem member_index_exact_witness:
  "let idx = object_modified (example_account 12) (about_to_modify (example_account 11) (object_inserted (example_account 11) empty_member_index))
   in 5 \<in> set (members_at 9 (account_to_account_memberships idx)) \<and> 5 \<in> set (members_at 12 (account_to_key_memberships idx)) \<and>
      5 \<notin> set (members_at 11 (account_to_key_memberships idx)) \<and> 5 \<notin> set (members_at 33 (account_to_key_memberships idx))"
proof -
  have "index_run (Map.empty(5 \<mapsto> example_account 11)) (object_inserted (example_account 11) empty_member_index)"
    using index_run.inserted [OF index_run.start, of "example_account 11"] by (simp add: example_account_def)
  from index_run.modified [OF this, of "example_account 11" "example_account 12"]
  have "index_run (Map.empty(5 \<mapsto> example_account 12)) (object_modified (example_account 12) (about_to_modify (example_account 11) (object_inserted (example_account 11) empty_member_index)))"
    by (simp add: example_account_def)
  from member_index_exact [OF this] show ?thesis unfolding Let_def
    by (simp add: example_account_def authority_default_def get_keys_def)
qed

end
