(* ===== verification/Asset.thy ===== *)
theory Asset
  imports Complex_Main Prelude
begin

text \<open>
  Amounts of assets and prices: \<^verbatim>\<open>libraries/chain/protocol/asset.cpp\<close> and \<^verbatim>\<open>protocol/asset.hpp\<close>. An
  amount is an \<^verbatim>\<open>int64_t\<close> in checked arithmetic; products of amounts are computed in an unsigned
  128-bit integer, which is a \<open>128 word\<close> here with the conversion from a negative amount wrapping.
\<close>

section \<open>Assets\<close>

type_synonym asset_aid_type = "64 word"

record asset =
  amount :: int
  asset_id :: asset_aid_type

record price =
  base :: asset
  quote :: asset

definition max_share_supply :: int where
  "max_share_supply = 1000000000000000"

definition core_asset_aid :: asset_aid_type where
  "core_asset_aid = 0"

definition mk_asset :: "int \<Rightarrow> asset_aid_type \<Rightarrow> asset" where
  "mk_asset a i = \<lparr>amount = a, asset_id = i\<rparr>"

definition asset_add :: "safe_ops \<Rightarrow> asset \<Rightarrow> asset \<Rightarrow> asset result" where
  "asset_add fc a b = fc_assert (asset_id a = asset_id b) ''a.asset_id == b.asset_id''
     (bindE (sadd fc (amount a) (amount b)) (\<lambda>x. Inr (mk_asset x (asset_id a))))"

definition asset_sub :: "safe_ops \<Rightarrow> asset \<Rightarrow> asset \<Rightarrow> asset result" where
  "asset_sub fc a b = fc_assert (asset_id a = asset_id b) ''a.asset_id == b.asset_id''
     (bindE (ssub fc (amount a) (amount b)) (\<lambda>x. Inr (mk_asset x (asset_id a))))"

definition asset_neg :: "safe_ops \<Rightarrow> asset \<Rightarrow> asset result" where
  "asset_neg fc a = bindE (sneg fc (amount a)) (\<lambda>x. Inr (mk_asset x (asset_id a)))"

definition asset_eq :: "asset \<Rightarrow> asset \<Rightarrow> bool" where
  "asset_eq a b \<longleftrightarrow> asset_id a = asset_id b \<and> amount a = amount b"

definition asset_less :: "asset \<Rightarrow> asset \<Rightarrow> bool result" where
  "asset_less a b = fc_assert (asset_id a = asset_id b) ''a.asset_id == b.asset_id'' (Inr (amount a < amount b))"

definition asset_le :: "asset \<Rightarrow> asset \<Rightarrow> bool result" where
  "asset_le a b = (if asset_eq a b then Inr True else asset_less a b)"

definition asset_gt :: "asset \<Rightarrow> asset \<Rightarrow> bool result" where
  "asset_gt a b = bindE (asset_le a b) (\<lambda>r. Inr (\<not> r))"

definition asset_ge :: "asset \<Rightarrow> asset \<Rightarrow> bool result" where
  "asset_ge a b = bindE (asset_less a b) (\<lambda>r. Inr (\<not> r))"

primrec p10 :: "nat \<Rightarrow> int" where
  "p10 0 = 1"
| "p10 (Suc n) = 10 * p10 n"

definition scaled_precision_lut :: "int list" where
  "scaled_precision_lut = map p10 [0..<19]"

definition scaled_precision :: "nat \<Rightarrow> int result" where
  "scaled_precision precision = fc_assert (precision < 19) ''precision < 19'' (Inr (scaled_precision_lut ! precision))"

section \<open>Prices\<close>

definition u128 :: "int \<Rightarrow> 128 word" where
  "u128 x = word_of_int x"

definition price_eq :: "price \<Rightarrow> price \<Rightarrow> bool" where
  "price_eq a b \<longleftrightarrow>
     (asset_id (base a), asset_id (quote a)) = (asset_id (base b), asset_id (quote b)) \<and>
     (let amult = u128 (amount (quote b)) * u128 (amount (base a));
          bmult = u128 (amount (quote a)) * u128 (amount (base b))
      in amult = bmult)"

definition price_less :: "price \<Rightarrow> price \<Rightarrow> bool" where
  "price_less a b =
     (if asset_id (base a) < asset_id (base b) then True
      else if asset_id (base a) > asset_id (base b) then False
      else if asset_id (quote a) < asset_id (quote b) then True
      else if asset_id (quote a) > asset_id (quote b) then False
      else let amult = u128 (amount (quote b)) * u128 (amount (base a));
               bmult = u128 (amount (quote a)) * u128 (amount (base b))
        in amult < bmult)"

definition price_le :: "price \<Rightarrow> price \<Rightarrow> bool" where
  "price_le a b \<longleftrightarrow> price_eq a b \<or> price_less a b"

definition price_gt :: "price \<Rightarrow> price \<Rightarrow> bool" where
  "price_gt a b \<longleftrightarrow> \<not> price_le a b"

definition price_ge :: "price \<Rightarrow> price \<Rightarrow> bool" where
  "price_ge a b \<longleftrightarrow> \<not> price_less a b"

definition inverse_price :: "price \<Rightarrow> price" where
  "inverse_price p = \<lparr>base = quote p, quote = base p\<rparr>"

definition make_price :: "asset \<Rightarrow> asset \<Rightarrow> price result" where
  "make_price b q = fc_assert (asset_id b \<noteq> asset_id q) ''base.asset_id != quote.asset_id'' (Inr \<lparr>base = b, quote = q\<rparr>)"

definition price_max :: "asset_aid_type \<Rightarrow> asset_aid_type \<Rightarrow> price result" where
  "price_max b q = make_price (mk_asset max_share_supply b) (mk_asset 1 q)"

definition price_min :: "asset_aid_type \<Rightarrow> asset_aid_type \<Rightarrow> price result" where
  "price_min b q = make_price (mk_asset 1 b) (mk_asset max_share_supply q)"

definition price_is_null :: "price \<Rightarrow> bool" where
  "price_is_null p = price_eq p \<lparr>base = mk_asset 0 core_asset_aid, quote = mk_asset 0 core_asset_aid\<rparr>"

definition price_validate :: "price \<Rightarrow> unit result" where
  "price_validate p =
     fc_assert (amount (base p) > 0) ''base.amount > share_type(0)''
    (fc_assert (amount (quote p) > 0) ''quote.amount > share_type(0)''
    (fc_assert (asset_id (base p) \<noteq> asset_id (quote p)) ''base.asset_id != quote.asset_id'' (Inr ())))"

text \<open>One arm of \<open>operator *\<close> and of \<open>multiply_and_round_up\<close>: \<open>src\<close> is the side the amount is in.\<close>

definition convert_amount :: "bool \<Rightarrow> int \<Rightarrow> asset \<Rightarrow> asset \<Rightarrow> asset result" where
  "convert_amount up x src dst =
     fc_assert (amount src > 0) ''amount.value > 0''
    (let product = u128 x * u128 (amount dst);
         result = (if up then product + u128 (amount src) - 1 else product) div u128 (amount src)
     in fc_assert (result \<le> u128 max_share_supply) ''result <= GRAPHENE_MAX_SHARE_SUPPLY''
          (Inr (mk_asset (uint result) (asset_id dst))))"

definition mult_price :: "asset \<Rightarrow> price \<Rightarrow> asset result" where
  "mult_price a b =
     (if asset_id a = asset_id (base b) then convert_amount False (amount a) (base b) (quote b)
      else if asset_id a = asset_id (quote b) then convert_amount False (amount a) (quote b) (base b)
      else Inl (Assert_Exception ''invalid asset * price''))"

definition multiply_and_round_up :: "asset \<Rightarrow> price \<Rightarrow> asset result" where
  "multiply_and_round_up a b =
     (if asset_id a = asset_id (base b) then convert_amount True (amount a) (base b) (quote b)
      else if asset_id a = asset_id (quote b) then convert_amount True (amount a) (quote b) (base b)
      else Inl (Assert_Exception ''invalid asset::multiply_and_round_up(price)''))"

section \<open>128 bits are enough\<close>

definition positive_amount :: "int \<Rightarrow> bool" where
  "positive_amount x \<longleftrightarrow> 0 < x \<and> fits64 x"

definition price_ok :: "price \<Rightarrow> bool" where
  "price_ok p \<longleftrightarrow> positive_amount (amount (base p)) \<and> positive_amount (amount (quote p))"

lemma fits64_bound: "fits64 x \<Longrightarrow> x < 2 ^ 63" "fits64 x \<Longrightarrow> - (2 ^ 63) \<le> x"
  by (simp_all add: fits64_def int64_max_def int64_min_def)

lemma uint_u128: "0 \<le> x \<Longrightarrow> x < 2 ^ 128 \<Longrightarrow> uint (u128 x) = x"
  by (simp add: u128_def uint_word_of_int)

lemma uint_u128_product:
  assumes "0 \<le> x" and "fits64 x" and "0 \<le> y" and "fits64 y"
  shows "uint (u128 x * u128 y) = x * y" and "x * y < 2 ^ 126"
proof -
  have "x * y \<le> (2 ^ 63 - 1) * (2 ^ 63 - 1)"
    using assms fits64_bound(1) [of x] fits64_bound(1) [of y] by (intro mult_mono) auto
  then show lt: "x * y < 2 ^ 126" by simp
  have "u128 x * u128 y = u128 (x * y)" by (simp add: u128_def)
  with lt assms show "uint (u128 x * u128 y) = x * y" by (simp add: uint_u128)
qed

lemma price_less_cross:
  assumes "price_ok a" and "price_ok b"
    and "asset_id (base a) = asset_id (base b)" and "asset_id (quote a) = asset_id (quote b)"
  shows "price_less a b \<longleftrightarrow> amount (base a) * amount (quote b) < amount (base b) * amount (quote a)"
    and "price_eq a b \<longleftrightarrow> amount (base a) * amount (quote b) = amount (base b) * amount (quote a)"
proof -
  have p: "uint (u128 (amount (quote b)) * u128 (amount (base a))) = amount (quote b) * amount (base a)"
    "uint (u128 (amount (quote a)) * u128 (amount (base b))) = amount (quote a) * amount (base b)"
    using assms(1,2) by (auto simp: price_ok_def positive_amount_def intro!: uint_u128_product(1))
  show "price_less a b \<longleftrightarrow> amount (base a) * amount (quote b) < amount (base b) * amount (quote a)"
    using assms(3,4) p by (simp add: price_less_def Let_def word_less_def mult.commute)
  show "price_eq a b \<longleftrightarrow> amount (base a) * amount (quote b) = amount (base b) * amount (quote a)"
    using assms(3,4) p by (simp add: price_eq_def Let_def word_uint_eq_iff mult.commute)
qed

definition ceiling_div :: "int \<Rightarrow> int \<Rightarrow> int" where
  "ceiling_div x y = (x + y - 1) div y"

lemma convert_amount_eq:
  assumes x: "0 \<le> x" "fits64 x" and src: "positive_amount (amount src)" and dst: "positive_amount (amount dst)"
  shows "convert_amount up x src dst =
    (let r = (if up then ceiling_div (x * amount dst) (amount src) else x * amount dst div amount src)
     in fc_assert (r \<le> max_share_supply) ''result <= GRAPHENE_MAX_SHARE_SUPPLY'' (Inr (mk_asset r (asset_id dst))))"
proof -
  let ?f = "amount src" and ?t = "amount dst"
  have f: "0 < ?f" "?f < 2 ^ 63" and t: "0 \<le> ?t" "fits64 ?t"
    using src dst fits64_bound by (auto simp: positive_amount_def)
  note prod = uint_u128_product [OF x t]
  have uf: "uint (u128 ?f) = ?f" using f by (simp add: uint_u128)
  have um: "uint (u128 max_share_supply) = max_share_supply" by (simp add: uint_u128 max_share_supply_def)
  have "u128 x * u128 ?t + u128 ?f - 1 = u128 (x * ?t + ?f - 1)" by (simp add: u128_def)
  moreover have "0 \<le> x * ?t + ?f - 1" "x * ?t + ?f - 1 < 2 ^ 128"
    using f prod(2) mult_nonneg_nonneg [OF x(1) t(1)] by simp_all
  ultimately have up_eq: "uint (u128 x * u128 ?t + u128 ?f - 1) = x * ?t + ?f - 1"
    by (simp only: uint_u128)
  show ?thesis
    using f(1) by (simp add: convert_amount_def Let_def word_le_def uint_div_distrib up_eq prod(1) uf um ceiling_div_def)
qed

lemma convert_amount_negative:
  assumes x: "x < 0" "fits64 x" and src: "positive_amount (amount src)" and dst: "positive_amount (amount dst)"
  shows "convert_amount False x src dst = Inl (Assert_Exception ''result <= GRAPHENE_MAX_SHARE_SUPPLY'')"
proof -
  let ?f = "amount src" and ?t = "amount dst"
  have f: "0 < ?f" "?f < 2 ^ 63" and t: "0 < ?t" "?t < 2 ^ 63"
    using src dst fits64_bound by (auto simp: positive_amount_def)
  have lo: "- (2 ^ 126) \<le> x * ?t"
  proof -
    have "(- x) * ?t \<le> 2 ^ 63 * 2 ^ 63" using fits64_bound(2) [OF x(2)] x t by (intro mult_mono) auto
    then show ?thesis by simp
  qed
  have neg: "x * ?t < 0" using x t by (simp add: mult_neg_pos)
  have big: "2 ^ 127 \<le> y \<Longrightarrow> \<not> y div ?f \<le> max_share_supply" for y :: int
  proof -
    assume y: "2 ^ 127 \<le> y"
    have "2 ^ 64 * ?f \<le> y" using f y by simp
    then have "2 ^ 64 \<le> y div ?f" using zdiv_mono1 [OF _ f(1), of "2 ^ 64 * ?f" y] f(1) by simp
    then show ?thesis by (simp add: max_share_supply_def)
  qed
  have wrap: "uint (u128 z) = 2 ^ 128 + z" if "- (2 ^ 128) \<le> z" "z < 0" for z
  proof -
    have "z mod 2 ^ 128 = (z + 2 ^ 128) mod 2 ^ 128" by simp
    also have "\<dots> = z + 2 ^ 128" by (rule mod_pos_pos_trivial) (use that in auto)
    finally show ?thesis by (simp add: u128_def uint_word_of_int)
  qed
  have uf: "uint (u128 ?f) = ?f" using f by (simp add: uint_u128)
  have um: "uint (u128 max_share_supply) = max_share_supply" by (simp add: uint_u128 max_share_supply_def)
  have down: "2 ^ 127 \<le> uint (u128 x * u128 ?t)"
  proof -
    have "u128 x * u128 ?t = u128 (x * ?t)" by (simp add: u128_def)
    then show ?thesis using wrap [of "x * ?t"] lo neg by simp
  qed
  have "\<not> u128 x * u128 ?t div u128 ?f \<le> u128 max_share_supply"
    using big [OF down] by (simp add: word_le_def uint_div_distrib uf um)
  with f(1) show ?thesis by (simp add: convert_amount_def Let_def fc_assert_def)
qed

lemma ceiling_div_bounds:
  assumes "0 < y"
  shows "x \<le> ceiling_div x y * y" and "ceiling_div x y * y < x + y"
    and "x div y \<le> ceiling_div x y" and "ceiling_div x y \<le> x div y + 1"
proof -
  have dm: "ceiling_div x y * y + (x + y - 1) mod y = x + y - 1" unfolding ceiling_div_def by (rule div_mult_mod_eq)
  have "0 \<le> (x + y - 1) mod y" "(x + y - 1) mod y < y" using assms by simp_all
  with dm show "x \<le> ceiling_div x y * y" "ceiling_div x y * y < x + y" by linarith+
  show "x div y \<le> ceiling_div x y" using assms by (simp add: ceiling_div_def zdiv_mono1)
  have "(x + y - 1) div y \<le> (x + y) div y" using assms by (intro zdiv_mono1) auto
  then show "ceiling_div x y \<le> x div y + 1" using assms by (simp add: ceiling_div_def)
qed

section \<open>Properties\<close>

text \<open>
  C28. Comparing two prices of the same pair of assets compares the exact ratios: the products are
  formed in 128 bits and never wrap for positive 64-bit amounts, so the order is that of the rational
  numbers; prices of different pairs are ordered by their asset numbers.
\<close>

theorem price_order_is_ratio_order:
  assumes "price_ok a" and "price_ok b"
    and "asset_id (base a) = asset_id (base b)" and "asset_id (quote a) = asset_id (quote b)"
  defines "ratio \<equiv> \<lambda>p. real_of_int (amount (base p)) / real_of_int (amount (quote p))"
  shows "(price_less a b \<longleftrightarrow> ratio a < ratio b) \<and> (price_eq a b \<longleftrightarrow> ratio a = ratio b) \<and>
    (price_le a b \<longleftrightarrow> ratio a \<le> ratio b) \<and> (price_ge a b \<longleftrightarrow> ratio a \<ge> ratio b) \<and>
    (price_gt a b \<longleftrightarrow> ratio a > ratio b)"
proof -
  have pos: "0 < real_of_int (amount (quote a))" "0 < real_of_int (amount (quote b))"
    using assms(1,2) by (simp_all add: price_ok_def positive_amount_def)
  have l: "price_less a b \<longleftrightarrow> ratio a < ratio b"
    unfolding price_less_cross(1) [OF assms(1-4)] ratio_def
    using pos by (simp add: divide_less_eq less_divide_eq field_simps flip: of_int_mult)
  have e: "price_eq a b \<longleftrightarrow> ratio a = ratio b"
    unfolding price_less_cross(2) [OF assms(1-4)] ratio_def
    using pos by (simp add: frac_eq_eq flip: of_int_mult)
  show ?thesis
    unfolding price_le_def price_ge_def price_gt_def l e by auto
qed

theorem price_order_is_ratio_order_witness:
  "price_less \<lparr>base = mk_asset 1 0, quote = mk_asset 3 1\<rparr> \<lparr>base = mk_asset 2 0, quote = mk_asset 5 1\<rparr> \<longleftrightarrow>
     real_of_int 1 / real_of_int 3 < real_of_int 2 / real_of_int 5"
  using price_order_is_ratio_order
    [of "\<lparr>base = mk_asset 1 0, quote = mk_asset 3 1\<rparr>" "\<lparr>base = mk_asset 2 0, quote = mk_asset 5 1\<rparr>"]
  by (simp add: price_ok_def positive_amount_def mk_asset_def fits64_def int64_min_def int64_max_def)

text \<open>The conversions pick the side of the price that the amount is in.\<close>

definition price_sides :: "price \<Rightarrow> asset \<Rightarrow> asset \<Rightarrow> bool" where
  "price_sides p src dst \<longleftrightarrow> src = base p \<and> dst = quote p \<or> src = quote p \<and> dst = base p"

lemma price_sides_ok:
  "price_ok p \<Longrightarrow> price_sides p src dst \<Longrightarrow> positive_amount (amount src) \<and> positive_amount (amount dst)"
  by (auto simp: price_sides_def price_ok_def)

lemma conversions_at_side:
  assumes "price_sides p src dst" "asset_id (base p) \<noteq> asset_id (quote p)" "asset_id a = asset_id src"
  shows "mult_price a p = convert_amount False (amount a) src dst" "multiply_and_round_up a p = convert_amount True (amount a) src dst"
  using assms by (auto simp: price_sides_def mult_price_def multiply_and_round_up_def)

lemma ceiling_of_quotient:
  assumes "0 < y"
  shows "\<lceil>real_of_int x / real_of_int y\<rceil> = ceiling_div x y"
proof (rule ceiling_unique)
  note c = ceiling_div_bounds(1,2) [OF assms, of x]
  have "real_of_int (ceiling_div x y * y) < real_of_int (x + y)" using c(2) by linarith
  then show "real_of_int (ceiling_div x y) - 1 < real_of_int x / real_of_int y" using assms by (simp add: less_divide_eq algebra_simps)
  have "real_of_int x \<le> real_of_int (ceiling_div x y * y)" using c(1) by linarith
  then show "real_of_int x / real_of_int y \<le> real_of_int (ceiling_div x y)" using assms by (simp add: divide_le_eq algebra_simps)
qed

text \<open>
  C29. Converting a non-negative amount at a price, from either of its two assets to the other, gives
  the exact quotient rounded down, or rounded up in the rounding-up variant, and fails exactly when
  that exceeds the maximal supply; the two results differ by at most one unit. The price has two
  different assets and positive amounts; an amount in a third asset is refused.
\<close>

theorem price_conversion_rounds:
  assumes "price_ok p" and "asset_id (base p) \<noteq> asset_id (quote p)" and "0 \<le> amount a" and "fits64 (amount a)"
  shows "(\<forall>src dst. price_sides p src dst \<longrightarrow> asset_id a = asset_id src \<longrightarrow>
      (let exact = real_of_int (amount a) * real_of_int (amount dst) / real_of_int (amount src) in
       mult_price a p = fc_assert (\<lfloor>exact\<rfloor> \<le> max_share_supply) ''result <= GRAPHENE_MAX_SHARE_SUPPLY''
         (Inr (mk_asset \<lfloor>exact\<rfloor> (asset_id dst))) \<and>
       multiply_and_round_up a p = fc_assert (\<lceil>exact\<rceil> \<le> max_share_supply) ''result <= GRAPHENE_MAX_SHARE_SUPPLY''
         (Inr (mk_asset \<lceil>exact\<rceil> (asset_id dst))) \<and>
       \<lceil>exact\<rceil> \<le> \<lfloor>exact\<rfloor> + 1)) \<and>
    (asset_id a \<noteq> asset_id (base p) \<longrightarrow> asset_id a \<noteq> asset_id (quote p) \<longrightarrow>
      (\<exists>e e'. mult_price a p = Inl e \<and> multiply_and_round_up a p = Inl e'))"
proof (intro conjI allI impI)
  fix src dst assume s: "price_sides p src dst" "asset_id a = asset_id src"
  let ?x = "amount a * amount dst" and ?b = "amount src"
  have pos: "positive_amount ?b" "positive_amount (amount dst)" "0 < ?b"
    using price_sides_ok [OF assms(1) s(1)] by (simp_all add: positive_amount_def)
  have down: "\<lfloor>real_of_int (amount a) * real_of_int (amount dst) / real_of_int ?b\<rfloor> = ?x div ?b"
    using floor_divide_of_int_eq [of ?x ?b] by simp
  have up: "\<lceil>real_of_int (amount a) * real_of_int (amount dst) / real_of_int ?b\<rceil> = ceiling_div ?x ?b"
    using ceiling_of_quotient [OF pos(3), of ?x] by simp
  show "let exact = real_of_int (amount a) * real_of_int (amount dst) / real_of_int ?b in
      mult_price a p = fc_assert (\<lfloor>exact\<rfloor> \<le> max_share_supply) ''result <= GRAPHENE_MAX_SHARE_SUPPLY'' (Inr (mk_asset \<lfloor>exact\<rfloor> (asset_id dst))) \<and>
      multiply_and_round_up a p = fc_assert (\<lceil>exact\<rceil> \<le> max_share_supply) ''result <= GRAPHENE_MAX_SHARE_SUPPLY'' (Inr (mk_asset \<lceil>exact\<rceil> (asset_id dst))) \<and>
      \<lceil>exact\<rceil> \<le> \<lfloor>exact\<rfloor> + 1"
    unfolding Let_def up down conversions_at_side [OF s(1) assms(2) s(2)] convert_amount_eq [OF assms(3,4) pos(1,2)]
    using ceiling_div_bounds(4) [OF pos(3), of ?x] by simp
qed (simp add: mult_price_def multiply_and_round_up_def)

theorem price_conversion_rounds_witness:
  "mult_price (mk_asset 10 0) \<lparr>base = mk_asset 3 0, quote = mk_asset 1 1\<rparr> = Inr (mk_asset 3 1) \<and>
   multiply_and_round_up (mk_asset 10 0) \<lparr>base = mk_asset 3 0, quote = mk_asset 1 1\<rparr> = Inr (mk_asset 4 1) \<and>
   mult_price (mk_asset 10 1) \<lparr>base = mk_asset 2 0, quote = mk_asset 3 1\<rparr> = Inr (mk_asset 6 0) \<and>
   multiply_and_round_up (mk_asset 10 1) \<lparr>base = mk_asset 2 0, quote = mk_asset 3 1\<rparr> = Inr (mk_asset 7 0)"
proof -
  have r: "\<lfloor>10 / 3 :: real\<rfloor> = 3" "\<lceil>10 / 3 :: real\<rceil> = 4" "\<lfloor>20 / 3 :: real\<rfloor> = 6" "\<lceil>20 / 3 :: real\<rceil> = 7" by linarith+
  note defs = price_ok_def positive_amount_def mk_asset_def fits64_def int64_min_def int64_max_def max_share_supply_def price_sides_def
  from price_conversion_rounds [of "\<lparr>base = mk_asset 3 0, quote = mk_asset 1 1\<rparr>" "mk_asset 10 0"] r
  have "mult_price (mk_asset 10 0) \<lparr>base = mk_asset 3 0, quote = mk_asset 1 1\<rparr> = Inr (mk_asset 3 1) \<and>
    multiply_and_round_up (mk_asset 10 0) \<lparr>base = mk_asset 3 0, quote = mk_asset 1 1\<rparr> = Inr (mk_asset 4 1)" by (simp add: defs)
  moreover from price_conversion_rounds [of "\<lparr>base = mk_asset 2 0, quote = mk_asset 3 1\<rparr>" "mk_asset 10 1"] r
  have "mult_price (mk_asset 10 1) \<lparr>base = mk_asset 2 0, quote = mk_asset 3 1\<rparr> = Inr (mk_asset 6 0) \<and>
    multiply_and_round_up (mk_asset 10 1) \<lparr>base = mk_asset 2 0, quote = mk_asset 3 1\<rparr> = Inr (mk_asset 7 0)" by (simp add: defs)
  ultimately show ?thesis by blast
qed

text \<open>There and back: the two divisions round in favour of the other side.\<close>

lemma round_trip_le:
  assumes "0 < b" "0 < q"
  shows "x * q div b * b div q \<le> (x :: int)"
proof -
  have "x * q div b * b \<le> x * q" using div_mult_mod_eq [of "x * q" b] pos_mod_sign [OF assms(1), of "x * q"] by linarith
  then have "x * q div b * b div q \<le> x * q div q" using assms(2) by (intro zdiv_mono1)
  with assms(2) show ?thesis by simp
qed

text \<open>
  C30. A round trip through a price never creates value: converting an amount of either asset of the
  price to the other and back with \<^verbatim>\<open>operator *\<close> at the same price returns a non-negative amount of the
  same asset that is at most the original one. A negative amount of either asset is refused by the
  first conversion: its 128-bit image wraps to a value that the supply check rejects.
\<close>

theorem price_round_trip_no_gain:
  assumes "price_ok p" and "asset_id (base p) \<noteq> asset_id (quote p)" and "fits64 (amount a)"
    and "asset_id a \<in> {asset_id (base p), asset_id (quote p)}"
  shows "(amount a < 0 \<longrightarrow> mult_price a p = Inl (Assert_Exception ''result <= GRAPHENE_MAX_SHARE_SUPPLY'')) \<and>
    (\<forall>r a'. mult_price a p = Inr r \<longrightarrow> mult_price r p = Inr a' \<longrightarrow>
      asset_id a' = asset_id a \<and> 0 \<le> amount a' \<and> amount a' \<le> amount a)"
proof -
  obtain src dst where s: "price_sides p src dst" "price_sides p dst src" "asset_id a = asset_id src"
    using assms(4) by (auto simp: price_sides_def)
  have pos: "positive_amount (amount src)" "positive_amount (amount dst)" "0 < amount src" "0 < amount dst"
    using price_sides_ok [OF assms(1) s(1)] by (simp_all add: positive_amount_def)
  note conv = conversions_at_side(1) [OF s(1) assms(2) s(3)]
  have neg: "mult_price a p = Inl (Assert_Exception ''result <= GRAPHENE_MAX_SHARE_SUPPLY'')" if "amount a < 0"
    unfolding conv by (rule convert_amount_negative [OF that assms(3) pos(1,2)])
  have "asset_id a' = asset_id a \<and> 0 \<le> amount a' \<and> amount a' \<le> amount a" if m: "mult_price a p = Inr r" "mult_price r p = Inr a'" for r a'
  proof -
    have nn: "0 \<le> amount a" using neg m(1) by (cases "amount a < 0") auto
    let ?y = "amount a * amount dst div amount src"
    have r: "r = mk_asset ?y (asset_id dst)" "?y \<le> max_share_supply"
      using m(1) unfolding conv convert_amount_eq [OF nn assms(3) pos(1,2)] by (auto simp: Let_def fc_assert_def split: if_splits)
    have y: "0 \<le> amount r" using r(1) nn pos by (simp add: mk_asset_def pos_imp_zdiv_nonneg_iff)
    then have "fits64 (amount r)" using r by (simp add: mk_asset_def fits64_def int64_min_def int64_max_def max_share_supply_def)
    note ret = convert_amount_eq [OF y this pos(2,1), of False]
    have ra: "asset_id r = asset_id dst" using r(1) by (simp add: mk_asset_def)
    from m(2) have "a' = mk_asset (amount r * amount src div amount dst) (asset_id src)"
      unfolding conversions_at_side(1) [OF s(2) assms(2) ra] ret by (auto simp: Let_def fc_assert_def split: if_splits)
    with round_trip_le [OF pos(3,4), of "amount a"] r(1) y pos s(3) show ?thesis by (simp add: mk_asset_def pos_imp_zdiv_nonneg_iff)
  qed
  with neg show ?thesis by blast
qed

theorem price_round_trip_no_gain_witness:
  "mult_price (mk_asset 10 0) \<lparr>base = mk_asset 3 0, quote = mk_asset 1 1\<rparr> = Inr (mk_asset 3 1) \<and>
   mult_price (mk_asset 3 1) \<lparr>base = mk_asset 3 0, quote = mk_asset 1 1\<rparr> = Inr (mk_asset 9 0) \<and>
   amount (mk_asset 9 0) \<le> amount (mk_asset 10 0) \<and>
   mult_price (mk_asset (- 1) 1) \<lparr>base = mk_asset 3 0, quote = mk_asset 1 1\<rparr> = Inl (Assert_Exception ''result <= GRAPHENE_MAX_SHARE_SUPPLY'')"
proof -
  note defs = price_ok_def positive_amount_def mk_asset_def fits64_def int64_min_def int64_max_def
  have "mult_price (mk_asset 10 0) \<lparr>base = mk_asset 3 0, quote = mk_asset 1 1\<rparr> = Inr (mk_asset 3 1)"
    "mult_price (mk_asset 3 1) \<lparr>base = mk_asset 3 0, quote = mk_asset 1 1\<rparr> = Inr (mk_asset 9 0)" by code_simp+
  moreover from this price_round_trip_no_gain [of "\<lparr>base = mk_asset 3 0, quote = mk_asset 1 1\<rparr>" "mk_asset 10 0"]
  have "amount (mk_asset 9 0) \<le> amount (mk_asset 10 0)" by (simp add: defs)
  moreover from price_round_trip_no_gain [of "\<lparr>base = mk_asset 3 0, quote = mk_asset 1 1\<rparr>" "mk_asset (- 1) 1"]
  have "mult_price (mk_asset (- 1) 1) \<lparr>base = mk_asset 3 0, quote = mk_asset 1 1\<rparr> = Inl (Assert_Exception ''result <= GRAPHENE_MAX_SHARE_SUPPLY'')"
    by (simp add: defs)
  ultimately show ?thesis by blast
qed

end
