(* ===== verification/Pledge_Balance.thy ===== *)
theory Pledge_Balance
  imports Asset
begin

text \<open>
  Pledged balances and their delayed release: class \<^verbatim>\<open>pledge_balance_object\<close> of
  \<^verbatim>\<open>libraries/chain/include/graphene/chain/account_object.hpp\<close>. A pledge that is reduced is not
  available at once: the difference is kept in \<open>releasing_pledges\<close> under the block number at which it
  is released. A \<^verbatim>\<open>std::map\<close> is a list of pairs with strictly increasing keys.
\<close>

section \<open>Ordered maps\<close>

definition omap_ok :: "('k :: linorder \<times> 'v) list \<Rightarrow> bool" where
  "omap_ok m \<longleftrightarrow> sorted_wrt (<) (map fst m)"

fun omap_put :: "'k :: linorder \<Rightarrow> 'v \<Rightarrow> ('k \<times> 'v) list \<Rightarrow> ('k \<times> 'v) list" where
  "omap_put k v [] = [(k, v)]"
| "omap_put k v ((k', v') # m) =
     (if k < k' then (k, v) # (k', v') # m else if k = k' then (k, v) # m else (k', v') # omap_put k v m)"

definition omap_get :: "'k \<Rightarrow> 'v \<Rightarrow> ('k \<times> 'v) list \<Rightarrow> 'v" where
  "omap_get k d m = (case map_of m k of Some v \<Rightarrow> v | None \<Rightarrow> d)"

abbreviation values_sum :: "('k \<times> int) list \<Rightarrow> int" where
  "values_sum m \<equiv> sum_list (map snd m)"

lemma set_omap_put: "fst ` set (omap_put k v m) = insert k (fst ` set m)"
  by (induction k v m rule: omap_put.induct) (simp_all add: insert_commute)

lemma omap_ok_put: "omap_ok m \<Longrightarrow> omap_ok (omap_put k v m)"
proof (induction m)
  case (Cons p m)
  obtain k' v' where p: "p = (k', v')" by fastforce
  from Cons.prems have ok: "omap_ok m" and gt: "\<forall>x \<in> fst ` set m. k' < x" by (auto simp: omap_ok_def p)
  have "\<forall>x \<in> fst ` set m. k < x" if "k < k'" using gt that by (meson less_trans)
  with Cons.IH [OF ok] ok gt set_omap_put [of k v m] show ?case by (auto simp: omap_ok_def p)
qed (simp add: omap_ok_def)

lemma values_omap_put: "snd ` set (omap_put k v m) \<subseteq> insert v (snd ` set m)"
  by (induction k v m rule: omap_put.induct) auto

lemma values_sum_put:
  "omap_ok m \<Longrightarrow> values_sum (omap_put k v m) = values_sum m - omap_get k 0 m + v"
proof (induction m)
  case (Cons p m)
  obtain k' v' where p: "p = (k', v')" by fastforce
  from Cons have ok: "omap_ok m" and gt: "\<And>x. x \<in> fst ` set m \<Longrightarrow> k' < x" by (auto simp: omap_ok_def p)
  have "map_of m k = None" if "k \<le> k'" using gt that by (force simp: map_of_eq_None_iff)
  with Cons.IH [OF ok] show ?case by (auto simp: p omap_get_def)
qed (simp add: omap_get_def)

lemma map_of_put: "omap_ok m \<Longrightarrow> map_of (omap_put k v m) = (map_of m)(k \<mapsto> v)"
proof (induction m)
  case (Cons p m)
  obtain k' v' where p: "p = (k', v')" by fastforce
  from Cons have "omap_ok m" by (auto simp: omap_ok_def p)
  with Cons.IH show ?case by (auto simp: p fun_eq_iff)
qed simp

lemma omap_ok_append: "omap_ok (xs @ ys) \<Longrightarrow> omap_ok xs \<and> omap_ok ys"
  by (simp add: omap_ok_def sorted_wrt_append)

section \<open>The pledge object\<close>

datatype pledge_balance_type = Witness | Commitment | Platform | Lock_balance | Mine

record pledge_balance_object =
  superior_index :: "64 word"
  pledge_type :: pledge_balance_type
  pledge_asset_id :: asset_aid_type
  pledge :: int
  total_releasing_pledge :: int
  releasing_pledges :: "(32 word \<times> int) list"

text \<open>What the object reads from the database: the fork version and the committee's parameter.\<close>

record pledge_env =
  enabled_hardfork_version :: nat
  max_pledge_releasing_size :: "32 word"

definition enable_head_fork_05 :: nat where
  "enable_head_fork_05 = 2"

definition earliest_release_block_number :: "pledge_balance_object \<Rightarrow> 32 word" where
  "earliest_release_block_number pb = (case releasing_pledges pb of [] \<Rightarrow> - 1 | (k, _) # _ \<Rightarrow> k)"

definition last_release_block_number :: "pledge_balance_object \<Rightarrow> 32 word" where
  "last_release_block_number pb = (if releasing_pledges pb = [] then - 1 else fst (last (releasing_pledges pb)))"

definition total_unrelease_pledge :: "safe_ops \<Rightarrow> pledge_balance_object \<Rightarrow> int result" where
  "total_unrelease_pledge fc pb = sadd fc (pledge pb) (total_releasing_pledge pb)"

text \<open>The limit is held in a \<^verbatim>\<open>uint16_t\<close>, so the committee's 32-bit value is truncated.\<close>

definition max_releasing_size :: "pledge_env \<Rightarrow> nat" where
  "max_releasing_size env =
     (if enabled_hardfork_version env < enable_head_fork_05 then 1
      else unat (ucast (max_pledge_releasing_size env) :: 16 word))"

definition new_releasing :: "safe_ops \<Rightarrow> pledge_env \<Rightarrow> asset \<Rightarrow> 32 word \<Rightarrow> pledge_balance_object
    \<Rightarrow> pledge_balance_object result" where
  "new_releasing fc env a new_num pb =
     fc_assert (asset_id a = pledge_asset_id pb) ''erro asset id ''
    (let m = releasing_pledges pb; size = length m
     in if size = max_releasing_size env
        then if m = [] then Inl (Undefined_Behaviour ''decrement of begin'')
          else bindE (sadd fc (snd (last m)) (amount a)) (\<lambda>x.
               bindE (sadd fc (total_releasing_pledge pb) (amount a)) (\<lambda>t.
               Inr (pb\<lparr>releasing_pledges := omap_put new_num x (butlast m), total_releasing_pledge := t\<rparr>)))
        else if size < max_releasing_size env
        then bindE (sadd fc (omap_get new_num 0 m) (amount a)) (\<lambda>x.
             bindE (sadd fc (total_releasing_pledge pb) (amount a)) (\<lambda>t.
             Inr (pb\<lparr>releasing_pledges := omap_put new_num x m, total_releasing_pledge := t\<rparr>)))
        else Inl (Assert_Exception ''releasing pledge size is invaild''))"

text \<open>
  The loop of \<open>reduce_releasing\<close> from the latest release backwards, on the reversed list: entries
  that are used up are remembered in \<open>erase_from\<close>, the first larger one is reduced.
\<close>

fun reduce_loop :: "safe_ops \<Rightarrow> int \<Rightarrow> 32 word \<Rightarrow> (32 word \<times> int) list \<Rightarrow> (32 word \<times> (32 word \<times> int) list) result" where
  "reduce_loop fc x erase_from [] = Inr (erase_from, [])"
| "reduce_loop fc x erase_from ((k, v) # m) =
     (if v \<le> x
      then bindE (ssub fc x v) (\<lambda>x. bindE (reduce_loop fc x k m) (\<lambda>(e, m). Inr (e, (k, v) # m)))
      else bindE (ssub fc v x) (\<lambda>v. Inr (erase_from, (k, v) # m)))"

definition reduce_releasing :: "safe_ops \<Rightarrow> int \<Rightarrow> pledge_balance_object \<Rightarrow> pledge_balance_object result" where
  "reduce_releasing fc x pb =
     fc_assert (total_releasing_pledge pb \<ge> x) '' available releasing balance is not enough''
    (bindE (ssub fc (total_releasing_pledge pb) x) (\<lambda>t.
     bindE (reduce_loop fc x (- 1) (rev (releasing_pledges pb))) (\<lambda>(erase_from, m).
       let m = (if erase_from \<noteq> - 1 then takeWhile (\<lambda>(k, _). k < erase_from) (rev m) else rev m)
       in Inr (pb\<lparr>total_releasing_pledge := t, releasing_pledges := m\<rparr>))))"

text \<open>
  \<open>new_releasing\<close> takes an asset; the amount that is passed converts to an amount of the core asset.
\<close>

definition update_pledge :: "safe_ops \<Rightarrow> pledge_env \<Rightarrow> asset \<Rightarrow> 32 word \<Rightarrow> pledge_balance_object
    \<Rightarrow> (pledge_balance_object \<times> int) result" where
  "update_pledge fc env new_pledge new_num pb =
     fc_assert (asset_id new_pledge = pledge_asset_id pb) ''erro asset id ''
    (bindE (total_unrelease_pledge fc pb) (\<lambda>total.
     bindE (ssub fc (amount new_pledge) total) (\<lambda>delta.
     bindE (ssub fc (pledge pb) (amount new_pledge)) (\<lambda>delta_releasing.
       let pb = pb\<lparr>pledge := amount new_pledge\<rparr>
       in if delta \<ge> 0 then Inr (pb\<lparr>releasing_pledges := [], total_releasing_pledge := 0\<rparr>, delta)
          else if delta_releasing > 0
          then bindE (new_releasing fc env (mk_asset delta_releasing core_asset_aid) new_num pb) (\<lambda>pb. Inr (pb, 0))
          else bindE (sneg fc delta_releasing) (\<lambda>x.
               bindE (reduce_releasing fc x pb) (\<lambda>pb. Inr (pb, 0)))))))"

section \<open>Invariant\<close>

definition releasing_ok :: "(32 word \<times> int) list \<Rightarrow> bool" where
  "releasing_ok m \<longleftrightarrow> omap_ok m \<and> (\<forall>v \<in> snd ` set m. 0 < v) \<and> - 1 \<notin> fst ` set m"

definition pledge_inv :: "pledge_balance_object \<Rightarrow> bool" where
  "pledge_inv pb \<longleftrightarrow> releasing_ok (releasing_pledges pb) \<and>
     values_sum (releasing_pledges pb) = total_releasing_pledge pb \<and> 0 \<le> pledge pb \<and>
     fits64 (pledge pb + total_releasing_pledge pb)"

text \<open>
  When the list of pending releases is full, the last one moves to the new block number by an
  assignment: an earlier release that is pending for that very block is overwritten.
\<close>

definition overwritten :: "pledge_env \<Rightarrow> 32 word \<Rightarrow> pledge_balance_object \<Rightarrow> int" where
  "overwritten env n pb = (if length (releasing_pledges pb) = max_releasing_size env
     then omap_get n 0 (butlast (releasing_pledges pb)) else 0)"

section \<open>Releasing and reducing\<close>

lemma values_nonneg: "(\<forall>v \<in> snd ` set m. 0 < v) \<Longrightarrow> 0 \<le> values_sum m"
  by (induction m) auto

lemma value_le_sum: "(\<forall>v \<in> snd ` set m. 0 < v) \<Longrightarrow> p \<in> set m \<Longrightarrow> snd p \<le> values_sum m"
proof (induction m)
  case (Cons q m)
  then have "0 < snd q" "0 \<le> values_sum m" by (auto intro: values_nonneg)
  with Cons show ?case by (cases "p = q") auto
qed simp

lemma reduce_loop_result:
  assumes fc: "safe_spec fc"
  shows "\<forall>v \<in> snd ` set ys. 0 < v \<Longrightarrow> fits64 (values_sum ys) \<Longrightarrow> 0 \<le> x \<Longrightarrow> x \<le> values_sum ys \<Longrightarrow>
    \<exists>P rest rest'. ys = P @ rest \<and> reduce_loop fc x e ys = Inr (if P = [] then e else fst (last P), P @ rest') \<and>
      values_sum rest' = values_sum ys - x \<and> map fst rest' = map fst rest \<and> (\<forall>v \<in> snd ` set rest'. 0 < v)"
proof (induction ys arbitrary: x e)
  case Nil
  then show ?case by simp
next
  case (Cons p ys)
  obtain k v where p: "p = (k, v)" by fastforce
  have pos: "\<forall>v \<in> snd ` set ys. 0 < v" and v: "0 < v" using Cons.prems(1) by (simp_all add: p)
  have nn: "0 \<le> values_sum ys" by (rule values_nonneg [OF pos])
  have sum: "values_sum (p # ys) = v + values_sum ys" by (simp add: p)
  have fv: "fits64 v" "fits64 (values_sum ys)" "fits64 x"
    using Cons.prems v nn by (auto simp: p fits64_def int64_min_def)
  show ?case
  proof (cases "v \<le> x")
    case True
    then have "fits64 (x - v)" using fv v by (auto simp: fits64_def int64_min_def)
    then have sub: "ssub fc x v = Inr (x - v)" using fv fc by (simp add: ssub_eq_Inr)
    from Cons.IH [OF pos fv(2), of "x - v" k] True Cons.prems(4) sum obtain P rest rest' where
      ih: "ys = P @ rest" "reduce_loop fc (x - v) k ys = Inr (if P = [] then k else fst (last P), P @ rest')"
        "values_sum rest' = values_sum ys - (x - v)" "map fst rest' = map fst rest" "\<forall>v \<in> snd ` set rest'. 0 < v"
      by auto
    show ?thesis
      by (rule exI [of _ "p # P"], rule exI [of _ rest], rule exI [of _ rest'])
        (use ih True sub in \<open>auto simp: p\<close>)
  next
    case False
    then have "fits64 (v - x)" using fv v Cons.prems(3) by (auto simp: fits64_def int64_min_def)
    then have "ssub fc v x = Inr (v - x)" using fv fc by (simp add: ssub_eq_Inr)
    with False pos show ?thesis
      by (intro exI [of _ "[]"] exI [of _ "p # ys"] exI [of _ "(k, v - x) # ys"]) (auto simp: p)
  qed
qed

lemma takeWhile_below:
  assumes "omap_ok (xs @ ys)" and "ys \<noteq> []"
  shows "takeWhile (\<lambda>(k, _). k < fst (hd ys)) (xs @ ys) = xs"
proof -
  obtain y ys' where ys: "ys = y # ys'" using assms(2) by (cases ys) auto
  have "\<forall>x \<in> set xs. fst x < fst y" using assms(1) by (auto simp: omap_ok_def ys sorted_wrt_append)
  then show ?thesis by (simp add: ys takeWhile_append2 case_prod_unfold)
qed

lemma reduce_releasing_ok:
  assumes fc: "safe_spec fc" and rel: "releasing_ok (releasing_pledges pb)"
    and sum: "values_sum (releasing_pledges pb) = total_releasing_pledge pb" and fit: "fits64 (total_releasing_pledge pb)"
    and x: "0 \<le> x" "x \<le> total_releasing_pledge pb"
  shows "\<exists>m. reduce_releasing fc x pb =
      Inr (pb\<lparr>total_releasing_pledge := total_releasing_pledge pb - x, releasing_pledges := m\<rparr>) \<and>
    releasing_ok m \<and> values_sum m = total_releasing_pledge pb - x \<and> set (map fst m) \<subseteq> set (map fst (releasing_pledges pb))"
proof -
  let ?m = "releasing_pledges pb"
  have pos: "\<forall>v \<in> snd ` set (rev ?m). 0 < v" using rel by (simp add: releasing_ok_def)
  have rs: "values_sum (rev ?m) = total_releasing_pledge pb" using sum by (simp add: sum_list_rev flip: rev_map)
  obtain P rest rest' where r: "rev ?m = P @ rest"
    "reduce_loop fc x (- 1) (rev ?m) = Inr (if P = [] then - 1 else fst (last P), P @ rest')"
    "values_sum rest' = values_sum (rev ?m) - x" "map fst rest' = map fst rest" "\<forall>v \<in> snd ` set rest'. 0 < v"
    using reduce_loop_result [OF fc pos, of x "- 1"] fit x rs by auto
  have m: "?m = rev rest @ rev P" using r(1) by (metis rev_append rev_rev_ident)
  have ok': "omap_ok (rev rest' @ rev P)"
    using rel r(4) by (simp add: releasing_ok_def omap_ok_def m rev_map [symmetric])
  have keys: "set (map fst rest') = set (map fst rest)" by (simp only: r(4))
  have noMax: "- 1 \<notin> fst ` set ?m" using rel by (simp add: releasing_ok_def)
  have erase: "(if (if P = [] then - 1 else fst (last P)) \<noteq> (- 1 :: 32 word)
      then takeWhile (\<lambda>(k, _). k < (if P = [] then - 1 else fst (last P))) (rev (P @ rest')) else rev (P @ rest')) = rev rest'"
  proof (cases "P = []")
    case False
    then have "fst (last P) \<noteq> - 1" using noMax last_in_set [OF False] by (metis UnCI image_eqI m set_append set_rev)
    with False takeWhile_below [OF ok'] show ?thesis by (simp add: hd_rev)
  qed simp
  have "fits64 (total_releasing_pledge pb - x)" using fit x by (auto simp: fits64_def int64_min_def)
  moreover have "fits64 x" using fit x by (auto simp: fits64_def int64_min_def)
  ultimately have "ssub fc (total_releasing_pledge pb) x = Inr (total_releasing_pledge pb - x)"
    using fit fc by (simp add: ssub_eq_Inr)
  then have "reduce_releasing fc x pb =
      Inr (pb\<lparr>total_releasing_pledge := total_releasing_pledge pb - x, releasing_pledges := rev rest'\<rparr>)"
    unfolding reduce_releasing_def using x(2) erase by (simp add: r(2) Let_def)
  moreover have "releasing_ok (rev rest')"
    using omap_ok_append [OF ok'] r(5) noMax keys by (auto simp: releasing_ok_def m)
  moreover have "values_sum (rev rest') = total_releasing_pledge pb - x"
    using r(3) rs by (simp add: sum_list_rev flip: rev_map)
  moreover have "set (map fst (rev rest')) \<subseteq> set (map fst ?m)" using keys by (auto simp: m)
  ultimately show ?thesis by blast
qed

lemma releasing_ok_put:
  assumes "releasing_ok m" and "0 < v" and "n \<noteq> - 1"
  shows "releasing_ok (omap_put n v m)"
proof -
  from assms(1) have m: "omap_ok m" "\<forall>w \<in> snd ` set m. 0 < w" "- 1 \<notin> fst ` set m"
    unfolding releasing_ok_def by blast+
  have "\<forall>w \<in> snd ` set (omap_put n v m). 0 < w" using m(2) assms(2) values_omap_put [of n v m] by blast
  moreover have "- 1 \<notin> fst ` set (omap_put n v m)" unfolding set_omap_put using m(3) assms(3) by blast
  ultimately show ?thesis using omap_ok_put [OF m(1)] unfolding releasing_ok_def by blast
qed

lemma releasing_ok_butlast: "releasing_ok m \<Longrightarrow> releasing_ok (butlast m)"
  by (cases m rule: rev_cases) (auto simp: releasing_ok_def dest: omap_ok_append)

lemma length_omap_put_le: "length (omap_put k v m) \<le> Suc (length m)"
  by (induction k v m rule: omap_put.induct) auto

lemma new_releasing_effect:
  assumes fc: "safe_spec fc" and rel: "releasing_ok (releasing_pledges pb)"
    and sum: "values_sum (releasing_pledges pb) = total_releasing_pledge pb"
    and x: "0 < amount a" and fit: "fits64 (total_releasing_pledge pb + amount a)" and n: "n \<noteq> - 1"
    and run: "new_releasing fc env a n pb = Inr pb'"
  shows "\<exists>m. pb' = pb\<lparr>releasing_pledges := m, total_releasing_pledge := total_releasing_pledge pb + amount a\<rparr> \<and>
    releasing_ok m \<and> values_sum m = total_releasing_pledge pb + amount a - overwritten env n pb \<and> length m \<le> max_releasing_size env"
proof -
  let ?m = "releasing_pledges pb" and ?t = "total_releasing_pledge pb"
  have pos: "\<forall>v \<in> snd ` set ?m. 0 < v" and ok: "omap_ok ?m" using rel by (simp_all add: releasing_ok_def)
  have t: "0 \<le> ?t" using values_nonneg [OF pos] sum by simp
  have part: "fits64 y \<and> fits64 (amount a) \<and> fits64 (y + amount a)" if "0 \<le> y" "y \<le> ?t" for y
    using that x fit by (auto simp: fits64_def int64_min_def)
  then have addt: "sadd fc ?t (amount a) = Inr (?t + amount a)" using t fc fit by (simp add: sadd_eq_Inr)
  show ?thesis
  proof (cases "length ?m = max_releasing_size env")
    case True
    with run have ne: "?m \<noteq> []" by (auto simp: new_releasing_def fc_assert_def Let_def split: if_splits)
    let ?l = "last ?m" and ?b = "butlast ?m"
    have split: "?m = ?b @ [?l]" using ne by simp
    have l: "0 < snd ?l" "snd ?l \<le> ?t" using pos value_le_sum [OF pos, of ?l] ne sum by auto
    have addl: "sadd fc (snd ?l) (amount a) = Inr (snd ?l + amount a)"
      using part [of "snd ?l"] l fc by (simp add: sadd_eq_Inr)
    let ?m' = "omap_put n (snd ?l + amount a) ?b"
    have "omap_ok ?b" using omap_ok_append [of ?b "[?l]"] ok split by simp
    moreover have "values_sum ?m = values_sum ?b + snd ?l" by (subst split) simp
    ultimately have "values_sum ?m' = ?t + amount a - overwritten env n pb"
      using values_sum_put [of ?b n] sum True by (simp add: overwritten_def)
    moreover have "releasing_ok ?m'" using releasing_ok_put [OF releasing_ok_butlast [OF rel] _ n] l x by simp
    moreover have "length ?m' \<le> max_releasing_size env" using length_omap_put_le [of n "snd ?l + amount a" ?b] True ne length_greater_0_conv [of ?m] by simp
    moreover have "pb' = pb\<lparr>releasing_pledges := ?m', total_releasing_pledge := ?t + amount a\<rparr>"
      using run True ne addl addt by (simp add: new_releasing_def fc_assert_def Let_def split: if_splits)
    ultimately show ?thesis by blast
  next
    case False
    with run have lt: "length ?m < max_releasing_size env" by (auto simp: new_releasing_def fc_assert_def Let_def split: if_splits)
    let ?g = "omap_get n 0 ?m"
    have g: "0 \<le> ?g \<and> ?g \<le> ?t"
      using pos value_le_sum [OF pos] sum t
      by (auto simp: omap_get_def split: option.splits dest!: map_of_SomeD)
    have addg: "sadd fc ?g (amount a) = Inr (?g + amount a)" using part [of ?g] g fc by (simp add: sadd_eq_Inr)
    let ?m' = "omap_put n (?g + amount a) ?m"
    have "values_sum ?m' = ?t + amount a - overwritten env n pb" using values_sum_put [OF ok] sum False by (simp add: overwritten_def)
    moreover have "releasing_ok ?m'" using releasing_ok_put [OF rel _ n] g x by simp
    moreover have "length ?m' \<le> max_releasing_size env" using length_omap_put_le [of n "?g + amount a" ?m] lt by simp
    moreover have "pb' = pb\<lparr>releasing_pledges := ?m', total_releasing_pledge := ?t + amount a\<rparr>"
      using run lt addg addt by (simp add: new_releasing_def fc_assert_def Let_def split: if_splits)
    ultimately show ?thesis by blast
  qed
qed

lemma update_pledge_inverts:
  assumes fc: "safe_spec fc" and inv: "pledge_inv pb" and new: "0 \<le> amount a" "fits64 (amount a)"
    and run: "update_pledge fc env a n pb = Inr (pb', d)"
  obtains (cleared) "pledge pb + total_releasing_pledge pb \<le> amount a"
      "pb' = pb\<lparr>pledge := amount a, releasing_pledges := [], total_releasing_pledge := 0\<rparr>"
      "d = amount a - (pledge pb + total_releasing_pledge pb)"
  | (released) "amount a < pledge pb" "d = 0"
      "new_releasing fc env (mk_asset (pledge pb - amount a) core_asset_aid) n (pb\<lparr>pledge := amount a\<rparr>) = Inr pb'"
  | (reduced) "pledge pb \<le> amount a" "amount a < pledge pb + total_releasing_pledge pb" "d = 0"
      "reduce_releasing fc (amount a - pledge pb) (pb\<lparr>pledge := amount a\<rparr>) = Inr pb'"
proof -
  let ?p = "pledge pb" and ?t = "total_releasing_pledge pb"
  have t: "0 \<le> ?t" "0 \<le> ?p" "fits64 (?p + ?t)"
    using inv values_nonneg [of "releasing_pledges pb"] by (auto simp: pledge_inv_def releasing_ok_def)
  have fits: "fits64 ?p" "fits64 ?t" "fits64 (amount a - (?p + ?t))" "fits64 (?p - amount a)" "fits64 (- (?p - amount a))"
    using t new by (auto simp: fits64_def int64_min_def int64_max_def)
  note arith = sadd_eq_Inr ssub_eq_Inr sneg_eq_Inr
  have "sadd fc ?p ?t = Inr (?p + ?t)" "ssub fc (amount a) (?p + ?t) = Inr (amount a - (?p + ?t))"
    "ssub fc ?p (amount a) = Inr (?p - amount a)" "sneg fc (?p - amount a) = Inr (- (?p - amount a))"
    using fc fits t new by (simp_all add: arith)
  with run t show ?thesis
    by (auto simp: update_pledge_def total_unrelease_pledge_def Let_def result_simps split: if_splits
        intro: cleared released reduced)
qed

section \<open>Properties\<close>

text \<open>
  C17. What changing a pledge does to the books, whenever it succeeds: the pledge becomes the new
  amount; what is locked in total (pledged and still releasing) grows exactly by the returned amount,
  which is what the new pledge exceeds the old total by and otherwise zero, so a smaller pledge never
  frees coins at once. The pending releases stay ordered and positive. They add up to
  \<open>total_releasing_pledge\<close>, except for an earlier release that is overwritten: when the pledge is
  lowered, the list is full and the new block number is that of an earlier pending release, its amount
  leaves the list but not the total, and the invariant is lost. The block number is not the largest
  32-bit number, which the code uses as a marker.
\<close>

theorem update_pledge_accounting:
  assumes "safe_spec fc" and "pledge_inv pb" and "0 \<le> amount a" and "fits64 (amount a)" and "n \<noteq> - 1"
    and "update_pledge fc env a n pb = Inr (pb', d)"
  defines "lost \<equiv> (if amount a < pledge pb then overwritten env n pb else 0)"
  shows "pledge pb' = amount a \<and>
    d = max 0 (amount a - (pledge pb + total_releasing_pledge pb)) \<and>
    pledge pb' + total_releasing_pledge pb' = pledge pb + total_releasing_pledge pb + d \<and>
    releasing_ok (releasing_pledges pb') \<and> values_sum (releasing_pledges pb') = total_releasing_pledge pb' - lost \<and>
    (pledge_inv pb' \<longleftrightarrow> lost = 0) \<and>
    length (releasing_pledges pb') \<le> max (max_releasing_size env) (length (releasing_pledges pb))"
proof -
  have inv: "releasing_ok (releasing_pledges pb)" "values_sum (releasing_pledges pb) = total_releasing_pledge pb"
    "fits64 (pledge pb + total_releasing_pledge pb)" "0 \<le> total_releasing_pledge pb" "0 \<le> pledge pb"
    using assms(2) values_nonneg [of "releasing_pledges pb"] by (auto simp: pledge_inv_def releasing_ok_def)
  show ?thesis
    using assms(1-4,6)
  proof (cases rule: update_pledge_inverts)
    case cleared
    with assms(3,4) inv show ?thesis by (simp add: pledge_inv_def releasing_ok_def omap_ok_def lost_def)
  next
    case released
    let ?pb = "pb\<lparr>pledge := amount a\<rparr>" and ?a = "mk_asset (pledge pb - amount a) core_asset_aid"
    have "fits64 (total_releasing_pledge ?pb + amount ?a)"
      using inv(3,4) released(1) assms(3) by (auto simp: mk_asset_def fits64_def int64_min_def)
    from new_releasing_effect [OF assms(1) _ _ _ this assms(5) released(3)] inv(1,2) released(1) obtain m where
      "pb' = ?pb\<lparr>releasing_pledges := m, total_releasing_pledge := total_releasing_pledge pb + (pledge pb - amount a)\<rparr>"
      "releasing_ok m" "values_sum m = total_releasing_pledge pb + (pledge pb - amount a) - overwritten env n pb" "length m \<le> max_releasing_size env"
      by (auto simp: mk_asset_def overwritten_def)
    with released(1,2) inv(3,4) assms(3) show ?thesis by (auto simp: pledge_inv_def lost_def add.commute)
  next
    case reduced
    let ?pb = "pb\<lparr>pledge := amount a\<rparr>"
    have "fits64 (total_releasing_pledge ?pb)" using inv(3-5) by (auto simp: fits64_def int64_min_def)
    then obtain m where m: "reduce_releasing fc (amount a - pledge pb) ?pb =
        Inr (?pb\<lparr>total_releasing_pledge := total_releasing_pledge ?pb - (amount a - pledge pb), releasing_pledges := m\<rparr>)"
      "releasing_ok m" "values_sum m = total_releasing_pledge ?pb - (amount a - pledge pb)"
      "set (map fst m) \<subseteq> set (map fst (releasing_pledges ?pb))"
      using reduce_releasing_ok [OF assms(1), of ?pb "amount a - pledge pb"] inv(1,2) reduced(1,2) by auto
    have "distinct (map fst m)" "distinct (map fst (releasing_pledges pb))"
      using m(2) inv(1) by (auto simp: releasing_ok_def omap_ok_def strict_sorted_iff)
    then have "length m \<le> length (releasing_pledges pb)"
      using card_mono [OF _ m(4)] distinct_card [of "map fst m"] distinct_card [of "map fst (releasing_pledges pb)"] by simp
    with m reduced inv assms(3) show ?thesis by (simp add: pledge_inv_def lost_def add.commute)
  qed
qed

definition example_pledge :: pledge_balance_object where
  "example_pledge = \<lparr>superior_index = 1, pledge_type = Witness, pledge_asset_id = 0, pledge = 100,
     total_releasing_pledge = 30, releasing_pledges = [(10, 10), (20, 20)]\<rparr>"

definition example_pledge_env :: pledge_env where
  "example_pledge_env = \<lparr>enabled_hardfork_version = 2, max_pledge_releasing_size = 2\<rparr>"

theorem update_pledge_accounting_witness:
  "(\<exists>pb' d. update_pledge int64_safe example_pledge_env (mk_asset 60 0) 50 example_pledge = Inr (pb', d) \<and>
     pledge_inv pb' \<and> pledge pb' = 60 \<and> pledge pb' + total_releasing_pledge pb' = 130 \<and> d = 0) \<and>
   (\<exists>pb' d. update_pledge int64_safe example_pledge_env (mk_asset 60 0) 10 example_pledge = Inr (pb', d) \<and>
     total_releasing_pledge pb' = 70 \<and> values_sum (releasing_pledges pb') = 60 \<and> \<not> pledge_inv pb')"
proof -
  have run: "update_pledge int64_safe example_pledge_env (mk_asset 60 0) 50 example_pledge =
      Inr (example_pledge\<lparr>pledge := 60, total_releasing_pledge := 70, releasing_pledges := [(10, 10), (50, 60)]\<rparr>, 0)"
    and run': "update_pledge int64_safe example_pledge_env (mk_asset 60 0) 10 example_pledge =
      Inr (example_pledge\<lparr>pledge := 60, total_releasing_pledge := 70, releasing_pledges := [(10, 60)]\<rparr>, 0)" by code_simp+
  have inv: "pledge_inv example_pledge"
    by (simp add: pledge_inv_def releasing_ok_def omap_ok_def example_pledge_def fits64_def int64_min_def int64_max_def)
  have lost: "overwritten example_pledge_env 50 example_pledge = 0" "overwritten example_pledge_env 10 example_pledge = 10"
    "pledge example_pledge = 100" "amount (mk_asset 60 0) = 60" by code_simp+
  have a: "0 \<le> amount (mk_asset 60 0)" "fits64 (amount (mk_asset 60 0))" "(50 :: 32 word) \<noteq> - 1" "(10 :: 32 word) \<noteq> - 1" by code_simp+
  from update_pledge_accounting [OF int64_safe_spec inv a(1-3) run] update_pledge_accounting [OF int64_safe_spec inv a(1,2,4) run']
  show ?thesis unfolding run run' by (simp add: lost)
qed

text \<open>
  C39. \<open>update_pledge\<close> hands the amount to release on as an amount of the core asset. So a pledge in
  any other asset can be raised but never lowered: lowering it fails.
\<close>

theorem update_pledge_only_lowers_core:
  assumes "safe_spec fc" and "pledge_inv pb" and "0 \<le> amount a" and "fits64 (amount a)"
    and "amount a < pledge pb" and "pledge_asset_id pb \<noteq> core_asset_aid" and "asset_id a = pledge_asset_id pb"
  shows "update_pledge fc env a n pb = Inl (Assert_Exception ''erro asset id '')"
proof -
  let ?p = "pledge pb" and ?t = "total_releasing_pledge pb"
  have t: "0 \<le> ?t" "0 \<le> ?p" "fits64 (?p + ?t)"
    using assms(2) values_nonneg [of "releasing_pledges pb"] by (auto simp: pledge_inv_def releasing_ok_def)
  have fits: "fits64 ?p" "fits64 ?t" "fits64 (amount a - (?p + ?t))" "fits64 (?p - amount a)"
    using t assms(3,4) by (auto simp: fits64_def int64_min_def int64_max_def)
  have "sadd fc ?p ?t = Inr (?p + ?t)" "ssub fc (amount a) (?p + ?t) = Inr (amount a - (?p + ?t))"
    "ssub fc ?p (amount a) = Inr (?p - amount a)"
    using assms fits t by (simp_all add: sadd_eq_Inr ssub_eq_Inr)
  moreover have "core_asset_aid \<noteq> pledge_asset_id pb" using assms(6) by simp
  ultimately show ?thesis using assms(5,7) t
    by (simp add: update_pledge_def total_unrelease_pledge_def Let_def new_releasing_def mk_asset_def)
qed

theorem update_pledge_only_lowers_core_witness:
  "update_pledge int64_safe example_pledge_env (mk_asset 60 5) 50 (example_pledge\<lparr>pledge_asset_id := 5\<rparr>) =
     Inl (Assert_Exception ''erro asset id '')"
  by (rule update_pledge_only_lowers_core)
    (simp_all add: pledge_inv_def releasing_ok_def omap_ok_def example_pledge_def fits64_def int64_min_def int64_max_def
      mk_asset_def core_asset_aid_def)

end
