(* ===== verification/Account_Statistics.thy ===== *)
theory Account_Statistics
  imports Pledge_Balance Account_Uid
begin

text \<open>
  The frequently changing part of an account and the coin-seconds it earns:
  \<^verbatim>\<open>_account_statistics_object\<close> of \<^verbatim>\<open>account_object.hpp\<close> and \<^verbatim>\<open>account_object.cpp\<close>. Coin-seconds pay
  fees; they accrue with the balance, are rounded to minutes, averaged over a window and capped by
  it. The computation is in 128 and 64 bits; it is compared with the same formula on integers.
\<close>

section \<open>The object\<close>

record account_statistics_object =
  owner :: account_uid_type
  most_recent_op :: "64 word"
  total_ops :: "32 word"
  removed_ops :: "32 word"
  total_core_in_orders :: int
  prepaid :: int
  csaf :: int
  core_balance :: int
  core_leased_in :: int
  core_leased_out :: int
  average_coins :: int
  average_coins_last_update :: "32 word"
  coin_seconds_earned :: "128 word"
  coin_seconds_earned_last_update :: "32 word"
  total_mining_pledge :: int
  last_witness_sequence :: "32 word"
  uncollected_witness_pay :: int
  uncollected_pledge_bonus :: int
  uncollected_market_fees :: "(asset_aid_type \<times> int) list"
  uncollected_score_bonus :: int
  witness_last_confirmed_block_num :: "64 word"
  witness_last_aslot :: "64 word"
  witness_total_produced :: "64 word"
  witness_total_missed :: "64 word"
  witness_last_reported_block_num :: "64 word"
  witness_total_reported :: "64 word"
  last_committee_member_sequence :: "32 word"
  can_vote :: bool
  is_voter :: bool
  last_voter_sequence :: "32 word"
  last_platform_sequence :: "32 word"
  last_post_sequence :: "64 word"
  last_custom_vote_sequence :: "64 word"
  last_advertising_sequence :: "64 word"
  last_license_sequence :: "64 word"
  beneficiary :: "account_uid_type option"
  pledge_balance_ids :: "(pledge_balance_type \<times> nat) list"

definition account_statistics_default :: account_statistics_object where
  "account_statistics_default = \<lparr>owner = 0, most_recent_op = 0, total_ops = 0, removed_ops = 0,
     total_core_in_orders = 0, prepaid = 0, csaf = 0, core_balance = 0, core_leased_in = 0, core_leased_out = 0,
     average_coins = 0, average_coins_last_update = 0, coin_seconds_earned = 0, coin_seconds_earned_last_update = 0,
     total_mining_pledge = 0, last_witness_sequence = 0, uncollected_witness_pay = 0, uncollected_pledge_bonus = 0,
     uncollected_market_fees = [], uncollected_score_bonus = 0, witness_last_confirmed_block_num = 0,
     witness_last_aslot = 0, witness_total_produced = 0, witness_total_missed = 0,
     witness_last_reported_block_num = 0, witness_total_reported = 0, last_committee_member_sequence = 0,
     can_vote = True, is_voter = False, last_voter_sequence = 0, last_platform_sequence = 0, last_post_sequence = 0,
     last_custom_vote_sequence = 0, last_advertising_sequence = 0, last_license_sequence = 0, beneficiary = None,
     pledge_balance_ids = []\<rparr>"

text \<open>Pledge objects are read from the database by id; an id without object throws.\<close>

type_synonym pledge_db = "nat \<Rightarrow> pledge_balance_object option"

definition db_get_pledge :: "pledge_db \<Rightarrow> nat \<Rightarrow> pledge_balance_object result" where
  "db_get_pledge db i = option_or (Assert_Exception ''Unable to find Object'') (db i)"

definition GRAPHENE_100_PERCENT :: int where
  "GRAPHENE_100_PERCENT = 10000"

definition share_of_u128 :: "128 word \<Rightarrow> int" where
  "share_of_u128 r = sint (ucast r :: 64 word)"

definition cut_fee :: "int \<Rightarrow> 16 word \<Rightarrow> int" where
  "cut_fee a p =
     (if a = 0 \<or> p = 0 then 0
      else if uint p = GRAPHENE_100_PERCENT then a
      else share_of_u128 ((u128 a * ucast p) div u128 GRAPHENE_100_PERCENT))"

section \<open>Pledges and available balance\<close>

definition get_votes_from_core_balance :: "account_statistics_object \<Rightarrow> 64 word" where
  "get_votes_from_core_balance s = word_of_int (core_balance s) + word_of_int (total_core_in_orders s)"

definition get_all_pledge_balance :: "safe_ops \<Rightarrow> pledge_db \<Rightarrow> asset_aid_type \<Rightarrow> account_statistics_object \<Rightarrow> int result" where
  "get_all_pledge_balance fc db asset s =
     foldE (\<lambda>(ty, i) res. bindE (db_get_pledge db i) (\<lambda>pb.
        if pledge_asset_id pb = asset then bindE (total_unrelease_pledge fc pb) (\<lambda>x. sadd fc res x) else Inr res))
       (pledge_balance_ids s) 0"

definition get_pledge_balance :: "safe_ops \<Rightarrow> pledge_db \<Rightarrow> asset_aid_type \<Rightarrow> pledge_balance_type \<Rightarrow>
    account_statistics_object \<Rightarrow> int result" where
  "get_pledge_balance fc db asset ty s =
     (case map_of (pledge_balance_ids s) ty of
        Some i \<Rightarrow> bindE (db_get_pledge db i) (\<lambda>pb.
          if pledge_asset_id pb = asset then total_unrelease_pledge fc pb else Inr 0)
      | None \<Rightarrow> Inr 0)"

definition get_releasing_pledge :: "pledge_db \<Rightarrow> asset_aid_type \<Rightarrow> pledge_balance_type \<Rightarrow>
    account_statistics_object \<Rightarrow> int result" where
  "get_releasing_pledge db asset ty s =
     (case map_of (pledge_balance_ids s) ty of
        Some i \<Rightarrow> bindE (db_get_pledge db i) (\<lambda>pb.
          if pledge_asset_id pb = asset then Inr (total_releasing_pledge pb) else Inr 0)
      | None \<Rightarrow> Inr 0)"

definition get_available_core_balance :: "safe_ops \<Rightarrow> pledge_db \<Rightarrow> account_statistics_object \<Rightarrow> int result" where
  "get_available_core_balance fc db s =
     bindE (get_all_pledge_balance fc db core_asset_aid s) (\<lambda>p.
     bindE (ssub fc (core_balance s) p) (\<lambda>x.
     bindE (ssub fc x (total_mining_pledge s)) (\<lambda>y. ssub fc y (core_leased_out s))))"

definition get_available_core_balance_excluding :: "safe_ops \<Rightarrow> pledge_db \<Rightarrow> pledge_balance_type \<Rightarrow>
    account_statistics_object \<Rightarrow> int result" where
  "get_available_core_balance_excluding fc db exclude_type s =
     bindE (get_available_core_balance fc db s) (\<lambda>x.
     bindE (get_pledge_balance fc db core_asset_aid exclude_type s) (\<lambda>y. sadd fc x y))"

definition add_uncollected_market_fee :: "safe_ops \<Rightarrow> asset_aid_type \<Rightarrow> int \<Rightarrow> account_statistics_object \<Rightarrow>
    account_statistics_object result" where
  "add_uncollected_market_fee fc aid amt s =
     (case map_of (uncollected_market_fees s) aid of
        Some x \<Rightarrow> bindE (sadd fc x amt) (\<lambda>y.
          Inr (s\<lparr>uncollected_market_fees := omap_put aid y (uncollected_market_fees s)\<rparr>))
      | None \<Rightarrow> Inr (s\<lparr>uncollected_market_fees := omap_put aid amt (uncollected_market_fees s)\<rparr>))"

record account_balance_object =
  balance_owner :: account_uid_type
  asset_type :: asset_aid_type
  balance :: int

definition balance_adjust :: "safe_ops \<Rightarrow> asset \<Rightarrow> account_balance_object \<Rightarrow> account_balance_object result" where
  "balance_adjust fc delta b = bindE (sadd fc (balance b) (amount delta)) (\<lambda>x. Inr (b\<lparr>balance := x\<rparr>))"

section \<open>Coin-seconds\<close>

definition enable_head_fork_none :: nat where
  "enable_head_fork_none = 0"

definition enable_head_fork_04 :: nat where
  "enable_head_fork_04 = 1"

definition round_minute :: "32 word \<Rightarrow> 32 word" where
  "round_minute now = (now div 60) * 60"

definition leased_balance :: "safe_ops \<Rightarrow> account_statistics_object \<Rightarrow> int result" where
  "leased_balance fc s =
     bindE (sadd fc (core_balance s) (core_leased_in s)) (\<lambda>x. ssub fc x (core_leased_out s))"

definition effective_balance :: "safe_ops \<Rightarrow> pledge_db \<Rightarrow> nat \<Rightarrow> account_statistics_object \<Rightarrow> int result" where
  "effective_balance fc db hf s =
     (if hf = enable_head_fork_none then leased_balance fc s
      else if hf = enable_head_fork_04
      then if map_of (pledge_balance_ids s) Witness \<noteq> None
           then bindE (leased_balance fc s) (\<lambda>x.
                bindE (get_pledge_balance fc db core_asset_aid Witness s) (\<lambda>p. ssub fc x p))
           else leased_balance fc s
      else if hf = enable_head_fork_05
      then (case map_of (pledge_balance_ids s) Lock_balance of
              Some i \<Rightarrow> bindE (db_get_pledge db i) (\<lambda>pb.
                Inr (if core_asset_aid = pledge_asset_id pb then pledge pb else 0))
            | None \<Rightarrow> Inr 0)
      else Inr 0)"

definition average_step :: "64 word \<Rightarrow> 32 word \<Rightarrow> int \<Rightarrow> account_statistics_object \<Rightarrow> int" where
  "average_step window now_rounded eff s =
     (if now_rounded \<le> average_coins_last_update s then average_coins s
      else let delta_seconds = ucast (now_rounded - average_coins_last_update s) :: 64 word
           in if window \<le> delta_seconds then eff
              else let old_seconds = window - delta_seconds;
                       old_coin_seconds = u128 (average_coins s) * ucast old_seconds;
                       new_coin_seconds = u128 eff * ucast delta_seconds
                   in share_of_u128 ((old_coin_seconds + new_coin_seconds) div ucast window))"

definition compute_coin_seconds_earned :: "safe_ops \<Rightarrow> pledge_db \<Rightarrow> 64 word \<Rightarrow> 32 word \<Rightarrow> nat \<Rightarrow>
    account_statistics_object \<Rightarrow> (128 word \<times> int) result" where
  "compute_coin_seconds_earned fc db window now hf s =
     bindE (effective_balance fc db hf s) (\<lambda>eff.
       let now_rounded = round_minute now;
           new_average_coins = average_step window now_rounded eff s;
           max_coin_seconds = u128 new_average_coins * ucast window;
           earned = (if now_rounded \<le> coin_seconds_earned_last_update s then coin_seconds_earned s
                     else coin_seconds_earned s +
                       u128 eff * ucast (now_rounded - coin_seconds_earned_last_update s))
       in Inr (if max_coin_seconds < earned then max_coin_seconds else earned, new_average_coins))"

definition compute_coin_seconds_earned_fix :: "safe_ops \<Rightarrow> pledge_db \<Rightarrow> 64 word \<Rightarrow> 32 word \<Rightarrow> nat \<Rightarrow>
    account_statistics_object \<Rightarrow> (128 word \<times> int) result" where
  "compute_coin_seconds_earned_fix fc db window now hf s =
     compute_coin_seconds_earned fc db window now (if hf < enable_head_fork_05 then enable_head_fork_none else hf) s"

definition update_coin_seconds_earned :: "safe_ops \<Rightarrow> pledge_db \<Rightarrow> 64 word \<Rightarrow> 32 word \<Rightarrow> nat \<Rightarrow>
    account_statistics_object \<Rightarrow> account_statistics_object result" where
  "update_coin_seconds_earned fc db window now hf s =
     (let now_rounded = round_minute now
      in if now_rounded \<le> coin_seconds_earned_last_update s \<and> now_rounded \<le> average_coins_last_update s then Inr s
         else bindE (compute_coin_seconds_earned fc db window now_rounded hf s) (\<lambda>(earned, avg).
           Inr (s\<lparr>coin_seconds_earned := earned, coin_seconds_earned_last_update := now_rounded,
                  average_coins := avg, average_coins_last_update := now_rounded\<rparr>)))"

definition set_coin_seconds_earned :: "128 word \<Rightarrow> 32 word \<Rightarrow> account_statistics_object \<Rightarrow> account_statistics_object" where
  "set_coin_seconds_earned new_coin_seconds now s =
     (let now_rounded = round_minute now
      in s\<lparr>coin_seconds_earned := new_coin_seconds,
           coin_seconds_earned_last_update :=
             (if coin_seconds_earned_last_update s < now_rounded then now_rounded else coin_seconds_earned_last_update s)\<rparr>)"

section \<open>The formulas on integers\<close>

definition amount_ok :: "int \<Rightarrow> bool" where
  "amount_ok x \<longleftrightarrow> 0 \<le> x \<and> x < 2 ^ 63"

definition average_spec :: "int \<Rightarrow> int \<Rightarrow> int \<Rightarrow> int \<Rightarrow> int \<Rightarrow> int" where
  "average_spec window now prev avg eff =
     (if now \<le> prev then avg else if window \<le> now - prev then eff
      else (avg * (window - (now - prev)) + eff * (now - prev)) div window)"

definition earned_spec :: "int \<Rightarrow> int \<Rightarrow> int \<Rightarrow> int \<Rightarrow> int \<Rightarrow> int \<Rightarrow> int" where
  "earned_spec window now prev earned avg eff =
     min (avg * window) (if now \<le> prev then earned else earned + eff * (now - prev))"

lemma uint_ucast_up:
  "uint (ucast (a :: 64 word) :: 128 word) = uint a" "uint (ucast (b :: 32 word) :: 128 word) = uint b"
  "uint (ucast (b :: 32 word) :: 64 word) = uint b" "uint (ucast (c :: 16 word) :: 128 word) = uint c"
  using unsigned_less [of a, where 'a = int] unsigned_less [of b, where 'a = int] unsigned_less [of c, where 'a = int]
  by (simp_all add: unsigned_ucast_eq take_bit_int_eq_self)

lemma share_of_u128_exact:
  assumes "uint r < 2 ^ 63"
  shows "share_of_u128 r = uint r"
proof -
  have "signed_take_bit 63 (uint r) = uint r"
  proof (rule signed_take_bit_int_eq_self)
    have "- (2 ^ 63) \<le> (0 :: int)" by simp
    then show "- (2 ^ 63) \<le> uint r" using uint_ge_0 order_trans by blast
  qed (rule assms)
  then show ?thesis using assms by (simp add: share_of_u128_def sint_uint unsigned_ucast_eq take_bit_int_eq_self)
qed

lemma uint_amount_times:
  assumes "amount_ok x" "0 \<le> uint w" "uint w < 2 ^ 64"
  shows "uint (u128 x * w) = x * uint w" "x * uint w < 2 ^ 127"
proof -
  have "x * uint w \<le> (2 ^ 63 - 1) * (2 ^ 64 - 1)" using assms by (intro mult_mono) (auto simp: amount_ok_def)
  then show lt: "x * uint w < 2 ^ 127" by simp
  have "u128 x * w = u128 (x * uint w)" by (simp add: u128_def)
  with lt assms show "uint (u128 x * w) = x * uint w" by (simp add: uint_u128 amount_ok_def)
qed

lemma uint_amount_times64: "amount_ok x \<Longrightarrow> uint (u128 x * ucast (w :: 64 word)) = x * uint w"
  using uint_amount_times(1) [of x "ucast w"] unsigned_less [of w, where 'a = int] by (simp add: uint_ucast_up)

lemma weighted_average_bounds:
  fixes a b d w :: int
  assumes "0 < w" "0 \<le> d" "d \<le> w"
  shows "min a b \<le> (a * (w - d) + b * d) div w" "(a * (w - d) + b * d) div w \<le> max a b"
proof -
  have "min a b * w = min a b * (w - d) + min a b * d" by (simp add: algebra_simps)
  also have "\<dots> \<le> a * (w - d) + b * d" using assms by (intro add_mono mult_right_mono) auto
  finally have "min a b * w div w \<le> (a * (w - d) + b * d) div w" using assms by (intro zdiv_mono1)
  then show "min a b \<le> (a * (w - d) + b * d) div w" using assms by simp
  have "a * (w - d) + b * d \<le> max a b * (w - d) + max a b * d" using assms by (intro add_mono mult_right_mono) auto
  also have "\<dots> = max a b * w" by (simp add: algebra_simps)
  finally have "(a * (w - d) + b * d) div w \<le> max a b * w div w" using assms by (intro zdiv_mono1)
  then show "(a * (w - d) + b * d) div w \<le> max a b" using assms by simp
qed

lemma average_spec_bounds: "0 \<le> w \<Longrightarrow> min avg eff \<le> average_spec w now prev avg eff \<and> average_spec w now prev avg eff \<le> max avg eff"
  using weighted_average_bounds [of w "now - prev" avg eff] by (auto simp: average_spec_def)

lemma uint_seconds: "prev < now \<Longrightarrow> uint (now - prev :: 32 word) = uint now - uint prev"
  by (rule uint_minus_simple_alt [THEN iffD1]) (rule less_imp_le)

lemma average_step_exact:
  assumes "amount_ok (average_coins s)" "amount_ok eff"
  shows "average_step window now eff s =
    average_spec (uint window) (uint now) (uint (average_coins_last_update s)) (average_coins s) eff"
proof (cases "now \<le> average_coins_last_update s")
  case True
  then show ?thesis by (simp add: average_step_def average_spec_def word_le_def)
next
  case False
  let ?a = "average_coins s" and ?l = "average_coins_last_update s"
  let ?d = "ucast (now - ?l) :: 64 word"
  from False have lt: "uint ?l < uint now" by (simp add: word_le_def not_le)
  have d: "uint ?d = uint now - uint ?l" using False by (simp add: uint_ucast_up uint_seconds)
  show ?thesis
  proof (cases "window \<le> ?d")
    case True
    then have "uint window \<le> uint now - uint ?l" by (simp add: word_le_def d)
    with False lt True show ?thesis by (simp add: average_step_def average_spec_def Let_def)
  next
    case small: False
    then have dw: "uint ?d < uint window" by (simp add: word_le_def not_le)
    have old: "uint (window - ?d) = uint window - uint ?d" 
      using dw by (intro uint_minus_simple_alt [THEN iffD1]) (simp add: word_le_def)
    let ?o = "?a * (uint window - uint ?d)" and ?n = "eff * uint ?d"
    have W: "uint window < 2 ^ 64" using unsigned_less [of window, where 'a = int] by simp
    have parts: "uint (u128 ?a * ucast (window - ?d)) = ?o" "uint (u128 eff * ucast ?d) = ?n"
      by (simp_all only: uint_amount_times64 [OF assms(1)] uint_amount_times64 [OF assms(2)] old)
    have div: "(?o + ?n) div uint window \<le> max ?a eff"
      using weighted_average_bounds(2) [of "uint window" "uint ?d" ?a eff] dw by (simp add: order_le_less_trans [OF uint_ge_0])
    have "?o + ?n \<le> max ?a eff * (uint window - uint ?d) + max ?a eff * uint ?d"
      using dw by (intro add_mono mult_right_mono) auto
    also have "\<dots> = max ?a eff * uint window" by (simp add: algebra_simps)
    also have "\<dots> \<le> (2 ^ 63 - 1) * (2 ^ 64 - 1)"
      using assms W by (intro mult_mono) (auto simp: amount_ok_def)
    finally have "?o + ?n < 2 ^ 128" by simp
    moreover have "0 \<le> ?o" "0 \<le> ?n" using assms dw by (simp_all add: amount_ok_def)
    ultimately have sum: "uint (u128 ?a * ucast (window - ?d) + u128 eff * ucast ?d) = ?o + ?n"
      by (simp add: parts uint_word_ariths(1))
    have "uint ((u128 ?a * ucast (window - ?d) + u128 eff * ucast ?d) div ucast window) = (?o + ?n) div uint window"
      by (simp only: uint_div_distrib sum uint_ucast_up)
    moreover have "(?o + ?n) div uint window < 2 ^ 63" 
      by (rule order_le_less_trans [OF div]) (use assms in \<open>simp add: amount_ok_def\<close>)
    ultimately have "average_step window now eff s = (?o + ?n) div uint window"
      using False small by (simp add: average_step_def Let_def share_of_u128_exact)
    then show ?thesis using lt dw d by (simp add: average_spec_def)
  qed
qed

section \<open>Properties\<close>

text \<open>
  C18. The coin-seconds of an account, computed in 128 and 64 bits, are exactly the integer formula:
  the moving average over the window, and the earned amount capped by what a full window of that
  average earns.
\<close>

theorem compute_coin_seconds_exact:
  assumes "effective_balance fc db hf s = Inr eff" "amount_ok eff" "amount_ok (average_coins s)"
    and "uint (coin_seconds_earned s) < 2 ^ 127"
  shows "\<exists>earned. compute_coin_seconds_earned fc db window now hf s = Inr (earned,
      average_spec (uint window) (uint (round_minute now)) (uint (average_coins_last_update s)) (average_coins s) eff) \<and>
    uint earned = earned_spec (uint window) (uint (round_minute now)) (uint (coin_seconds_earned_last_update s))
      (uint (coin_seconds_earned s))
      (average_spec (uint window) (uint (round_minute now)) (uint (average_coins_last_update s)) (average_coins s) eff) eff"
proof -
  let ?now = "round_minute now" and ?l = "coin_seconds_earned_last_update s" and ?e = "coin_seconds_earned s"
  let ?avg = "average_spec (uint window) (uint ?now) (uint (average_coins_last_update s)) (average_coins s) eff"
  have avg: "average_step window ?now eff s = ?avg" by (rule average_step_exact [OF assms(3,2)])
  have ok: "amount_ok ?avg"
    using average_spec_bounds [of "uint window" "average_coins s" eff] assms(2,3) unfolding amount_ok_def
    by (smt (verit) uint_ge_0)
  have cap: "uint (u128 ?avg * ucast window) = ?avg * uint window" by (rule uint_amount_times64 [OF ok])
  let ?m = "if ?now \<le> ?l then ?e else ?e + u128 eff * ucast (?now - ?l)"
  have m: "uint ?m = (if uint ?now \<le> uint ?l then uint ?e else uint ?e + eff * (uint ?now - uint ?l))"
  proof (cases "?now \<le> ?l")
    case True
    then show ?thesis by (simp add: word_le_def)
  next
    case False
    let ?d = "ucast (?now - ?l) :: 128 word"
    have d: "uint ?d = uint ?now - uint ?l" using False by (simp add: uint_ucast_up uint_seconds)
    have lt: "uint ?d < 2 ^ 64"
      using unsigned_less [of "?now - ?l", where 'a = int] by (simp add: uint_ucast_up)
    have "uint (u128 eff * ?d) = eff * uint ?d" "eff * uint ?d < 2 ^ 127"
      using uint_amount_times [OF assms(2) uint_ge_0 lt] by simp_all
    moreover from this have "uint (?e + u128 eff * ?d) = uint ?e + eff * uint ?d"
      using assms(2,4) by (simp add: uint_word_ariths(1) amount_ok_def)
    ultimately show ?thesis using False d by (simp add: word_le_def)
  qed
  let ?r = "if u128 ?avg * ucast window < ?m then u128 ?avg * ucast window else ?m"
  have "uint ?r = min (uint (u128 ?avg * ucast window)) (uint ?m)" unfolding word_less_def min_def by auto
  then have "uint ?r = earned_spec (uint window) (uint ?now) (uint ?l) (uint ?e) ?avg eff"
    unfolding cap m earned_spec_def .
  moreover have "compute_coin_seconds_earned fc db window now hf s = Inr (?r, ?avg)"
    unfolding compute_coin_seconds_earned_def assms(1) bindE_Inr Let_def avg ..
  ultimately show ?thesis by blast
qed

definition seconds_ok :: "64 word \<Rightarrow> account_statistics_object \<Rightarrow> bool" where
  "seconds_ok window s \<longleftrightarrow> amount_ok (average_coins s) \<and> uint (coin_seconds_earned s) \<le> average_coins s * uint window"

lemma round_minute_idem: "round_minute (round_minute now) = round_minute now"
proof -
  have "uint (round_minute now) = uint now div 60 * 60"
  proof -
    have "uint now div 60 * 60 \<le> uint now" by (simp add: div_times_less_eq_dividend)
    moreover have "uint now < 2 ^ 32" using unsigned_less [of now, where 'a = int] by simp
    ultimately have "uint now div 60 * 60 < 2 ^ 32" by linarith
    moreover have "0 \<le> uint now div 60 * 60" by (simp add: pos_imp_zdiv_nonneg_iff)
    ultimately show ?thesis by (simp add: round_minute_def uint_word_ariths(3) uint_div_distrib)
  qed
  then have "uint (round_minute now div 60) = uint (now div 60)" by (simp add: uint_div_distrib)
  then have "round_minute now div 60 = now div 60" by (simp only: word_uint_eq_iff)
  then show ?thesis by (simp add: round_minute_def)
qed

lemma update_coin_seconds_cases:
  assumes "update_coin_seconds_earned fc db window now hf s = Inr s'"
  obtains "s' = s" "round_minute now \<le> coin_seconds_earned_last_update s" "round_minute now \<le> average_coins_last_update s"
  | earned avg where "compute_coin_seconds_earned fc db window (round_minute now) hf s = Inr (earned, avg)"
    "s' = s\<lparr>coin_seconds_earned := earned, coin_seconds_earned_last_update := round_minute now,
            average_coins := avg, average_coins_last_update := round_minute now\<rparr>"
proof (cases "round_minute now \<le> coin_seconds_earned_last_update s \<and> round_minute now \<le> average_coins_last_update s")
  case True
  with assms that(1) show ?thesis unfolding update_coin_seconds_earned_def Let_def by simp
next
  case False
  show ?thesis
  proof (cases "compute_coin_seconds_earned fc db window (round_minute now) hf s")
    case (Inl e)
    with assms False show ?thesis unfolding update_coin_seconds_earned_def Let_def by simp
  next
    case (Inr r)
    obtain earned avg where r: "r = (earned, avg)" by fastforce
    have "Inr s' = (Inr (s\<lparr>coin_seconds_earned := earned, coin_seconds_earned_last_update := round_minute now,
            average_coins := avg, average_coins_last_update := round_minute now\<rparr>) :: account_statistics_object result)"
      unfolding assms [symmetric] update_coin_seconds_earned_def Let_def if_not_P [OF False] Inr r bindE_Inr prod.case ..
    then show ?thesis using that(2) [OF Inr [unfolded r]] by blast
  qed
qed

lemma update_in_same_minute:
  assumes "now' div 60 = now div 60"
  shows "update_coin_seconds_earned fc db window now' hf s = update_coin_seconds_earned fc db window now hf s"
proof -
  have "round_minute now' = round_minute now" unfolding round_minute_def assms ..
  then show ?thesis unfolding update_coin_seconds_earned_def by (simp only:)
qed

text \<open>
  C19. Bringing an account's coin-seconds up to date, when its effective balance is an amount from 0
  to the largest 64-bit one, keeps them within one window of the average balance, moves the average
  towards the effective balance without passing it, and a further update at any time of the same
  minute changes nothing.
\<close>

theorem update_coin_seconds_invariant:
  assumes "update_coin_seconds_earned fc db window now hf s = Inr s'" and "seconds_ok window s"
    and "effective_balance fc db hf s = Inr eff" "amount_ok eff"
  shows "seconds_ok window s' \<and> min (average_coins s) eff \<le> average_coins s' \<and> average_coins s' \<le> max (average_coins s) eff \<and>
    (\<forall>now'. now' div 60 = now div 60 \<longrightarrow> update_coin_seconds_earned fc db window now' hf s' = Inr s')"
  using assms(1)
proof (cases rule: update_coin_seconds_cases)
  case 1
  moreover have "update_coin_seconds_earned fc db window now' hf s = Inr s'" if "now' div 60 = now div 60" for now'
    using assms(1) unfolding update_in_same_minute [OF that] .
  ultimately show ?thesis using assms(2) by auto
next
  case (2 earned avg)
  have W: "uint window < 2 ^ 64" using unsigned_less [of window, where 'a = int] by simp
  have "average_coins s * uint window \<le> (2 ^ 63 - 1) * (2 ^ 64 - 1)"
    using assms(2) W by (intro mult_mono) (auto simp: seconds_ok_def amount_ok_def)
  then have e: "uint (coin_seconds_earned s) < 2 ^ 127" using assms(2) by (simp add: seconds_ok_def)
  have a: "amount_ok (average_coins s)" using assms(2) by (simp add: seconds_ok_def)
  let ?avg = "average_spec (uint window) (uint (round_minute (round_minute now))) (uint (average_coins_last_update s)) (average_coins s) eff"
  have avg: "avg = ?avg" and earned: "uint earned \<le> avg * uint window"
    using compute_coin_seconds_exact [OF assms(3,4) a e, of window "round_minute now"] 2(1) by (auto simp: earned_spec_def)
  have b: "min (average_coins s) eff \<le> avg" "avg \<le> max (average_coins s) eff"
    unfolding avg using average_spec_bounds [of "uint window" "average_coins s" eff] by (simp_all add: uint_ge_0)
  then have "amount_ok avg" using a assms(4) unfolding amount_ok_def by linarith
  then have "seconds_ok window s'" using earned by (simp add: 2(2) seconds_ok_def)
  moreover have "update_coin_seconds_earned fc db window now hf s' = Inr s'"
    by (simp add: 2(2) update_coin_seconds_earned_def Let_def)
  then have "update_coin_seconds_earned fc db window now' hf s' = Inr s'" if "now' div 60 = now div 60" for now'
    using update_in_same_minute [OF that] by metis
  moreover have "average_coins s' = avg" by (simp add: 2(2))
  ultimately show ?thesis using b by blast
qed

text \<open>
  C35. A fee share is the exact percentage rounded down: never negative and never more than the fee.
\<close>

theorem cut_fee_exact:
  assumes "amount_ok a" "uint p \<le> GRAPHENE_100_PERCENT"
  shows "cut_fee a p = a * uint p div GRAPHENE_100_PERCENT \<and> 0 \<le> cut_fee a p \<and> cut_fee a p \<le> a"
proof -
  have le: "a * uint p div 10000 \<le> a"
  proof -
    have "a * uint p \<le> a * 10000" using assms by (intro mult_left_mono) (auto simp: amount_ok_def GRAPHENE_100_PERCENT_def)
    then have "a * uint p div 10000 \<le> a * 10000 div 10000" by (intro zdiv_mono1) simp_all
    then show ?thesis by simp
  qed
  have "uint (u128 a * ucast p) = a * uint p"
    using uint_amount_times(1) [OF assms(1), of "ucast p"] assms(2) by (simp add: uint_ucast_up GRAPHENE_100_PERCENT_def)
  then have "uint ((u128 a * ucast p) div u128 10000) = a * uint p div 10000"
    by (simp only: uint_div_distrib) (simp add: uint_u128)
  moreover have "a * uint p div 10000 < 2 ^ 63" using le assms(1) by (simp add: amount_ok_def)
  ultimately have "share_of_u128 ((u128 a * ucast p) div u128 10000) = a * uint p div 10000"
    by (simp add: share_of_u128_exact)
  then have "cut_fee a p = a * uint p div 10000"
    by (auto simp: cut_fee_def GRAPHENE_100_PERCENT_def)
  moreover have "0 \<le> a * uint p div 10000" using assms(1) by (simp add: amount_ok_def pos_imp_zdiv_nonneg_iff)
  ultimately show ?thesis using le by (simp add: GRAPHENE_100_PERCENT_def)
qed

definition example_stats :: account_statistics_object where
  "example_stats = account_statistics_default\<lparr>core_balance := 1000, average_coins := 400, coin_seconds_earned := 500,
     average_coins_last_update := 600, coin_seconds_earned_last_update := 600\<rparr>"

lemma example_effective: "effective_balance int64_safe (\<lambda>_. None) 0 example_stats = Inr 1000"
  by code_simp

theorem compute_coin_seconds_exact_witness:
  "\<exists>earned. compute_coin_seconds_earned int64_safe (\<lambda>_. None) 3600 1230 0 example_stats = Inr (earned, 500) \<and> uint earned = 600500"
  using compute_coin_seconds_exact [OF example_effective, of 3600 1230]
  by (simp add: amount_ok_def example_stats_def average_spec_def earned_spec_def round_minute_def)

theorem update_coin_seconds_invariant_witness:
  "\<exists>s'. update_coin_seconds_earned int64_safe (\<lambda>_. None) 3600 1230 0 example_stats = Inr s' \<and> seconds_ok 3600 s' \<and>
    update_coin_seconds_earned int64_safe (\<lambda>_. None) 3600 1259 0 s' = Inr s'"
proof -
  have "\<not> isl (update_coin_seconds_earned int64_safe (\<lambda>_. None) 3600 1230 0 example_stats)" by code_simp
  then obtain s' where s': "update_coin_seconds_earned int64_safe (\<lambda>_. None) 3600 1230 0 example_stats = Inr s'"
    by (metis sum.collapse(2))
  have ok: "seconds_ok 3600 example_stats" by (simp add: seconds_ok_def example_stats_def amount_ok_def)
  have "amount_ok 1000" by (simp add: amount_ok_def)
  note u = update_coin_seconds_invariant [OF s' ok example_effective this]
  have "(1259 :: 32 word) div 60 = 1230 div 60" by code_simp
  with u s' show ?thesis by blast
qed

theorem cut_fee_exact_witness: "cut_fee 1999 2500 = 499 \<and> 0 \<le> cut_fee 1999 2500 \<and> cut_fee 1999 2500 \<le> 1999"
  using cut_fee_exact [of 1999 2500] by (simp add: amount_ok_def GRAPHENE_100_PERCENT_def)

end
