(* ===== verification/Witness_Schedule.thy ===== *)
theory Witness_Schedule
  imports Account_Statistics "HOL-Library.Product_Lexorder" "HOL-Library.Multiset"
begin

text \<open>
  Slots and the choice of block producers: \<^verbatim>\<open>db_witness_schedule.cpp\<close>, the objects of
  \<^verbatim>\<open>witness_object.hpp\<close> and \<^verbatim>\<open>witness_schedule_object.hpp\<close>, and \<^verbatim>\<open>get_witness_pay_by_pledge\<close> of
  \<^verbatim>\<open>db_update.cpp\<close>. The witnesses are a list of rows; an ordered index of the container is the list
  sorted by the index's composite key. Virtual times are 128-bit and votes 64-bit words that wrap;
  the code tests for the overflows it expects.
\<close>

unbundle bit_operations_syntax

section \<open>State\<close>

record witness_object =
  wit_id :: nat
  account :: account_uid_type
  wit_name :: string
  wit_sequence :: "32 word"
  is_valid :: bool
  signing_key :: "264 word"
  wit_pledge :: "64 word"
  pledge_last_update :: "32 word"
  average_pledge :: "64 word"
  average_pledge_last_update :: "32 word"
  average_pledge_next_update_block :: "32 word"
  total_votes :: "64 word"
  by_pledge_position :: "128 word"
  by_pledge_position_last_update :: "128 word"
  by_pledge_scheduled_time :: "128 word"
  by_vote_position :: "128 word"
  by_vote_position_last_update :: "128 word"
  by_vote_scheduled_time :: "128 word"
  last_confirmed_block_num :: "32 word"
  last_aslot :: "64 word"
  total_produced :: "64 word"
  total_missed :: "64 word"
  wit_url :: string
  can_pledge :: bool
  bonus_rate :: "32 word"
  wit_total_mining_pledge :: "64 word"
  bonus_per_pledge :: "(32 word \<times> int) list"
  unhandled_bonus :: int
  need_distribute_bonus :: int
  already_distribute_bonus :: int
  last_update_bonus_block_num :: "32 word"

datatype scheduled_witness_type = scheduled_by_vote_top | scheduled_by_vote_rest | scheduled_by_pledge

record witness_schedule_object =
  next_schedule_block_num :: "32 word"
  current_by_pledge_time :: "128 word"
  current_by_vote_time :: "128 word"
  current_shuffled_witnesses :: "account_uid_type list"

record schedule_parameters =
  block_interval :: "8 word"
  maintenance_skip_slots :: "8 word"
  content_award_skip_slots :: "8 word"
  by_vote_top_witness_count :: "16 word"
  by_vote_rest_witness_count :: "16 word"
  by_pledge_witness_count :: "16 word"
  min_witness_block_produce_pledge :: "64 word"
  max_witness_pledge_seconds :: "64 word"
  witness_avg_pledge_update_interval :: "32 word"
  by_pledge_witness_pay_per_block_param :: int

text \<open>The part of the chain state the schedule reads and writes.\<close>

record schedule_state =
  witnesses :: "witness_object list"
  wso :: witness_schedule_object
  parameters :: schedule_parameters
  active_witnesses :: "(account_uid_type \<times> scheduled_witness_type) list"
  head_block_num :: "32 word"
  head_block_time :: "32 word"
  current_aslot :: "64 word"
  recent_slots_filled :: "128 word"
  maintenance_flag :: bool
  content_award_skip_flag :: bool
  dgp_hardfork_version :: nat
  total_witness_pledge :: int
  by_pledge_witness_pay_per_block :: int

definition UINT128_MAX_VALUE :: "128 word" where
  "UINT128_MAX_VALUE = - 1"

definition GRAPHENE_VIRTUAL_LAP_LENGTH :: "128 word" where
  "GRAPHENE_VIRTUAL_LAP_LENGTH = UINT128_MAX_VALUE"

definition HARDFORK_0_4_TIME :: "32 word" where
  "HARDFORK_0_4_TIME = 1561852800"

definition GRAPHENE_BLOCKCHAIN_PRECISION :: int where
  "GRAPHENE_BLOCKCHAIN_PRECISION = 100000"

definition GRAPHENE_1_PERCENT :: int where
  "GRAPHENE_1_PERCENT = 100"

definition GRAPHENE_PLEDGE_BONUS_PRECISION :: int where
  "GRAPHENE_PLEDGE_BONUS_PRECISION = 1000000000000"

definition modify_witness :: "nat \<Rightarrow> (witness_object \<Rightarrow> witness_object) \<Rightarrow> schedule_state \<Rightarrow> schedule_state" where
  "modify_witness i f st = st\<lparr>witnesses := map (\<lambda>w. if wit_id w = i then f w else w) (witnesses st)\<rparr>"

section \<open>Bonus of a witness\<close>

definition get_bonus_block_num :: "witness_object \<Rightarrow> 32 word" where
  "get_bonus_block_num w =
     (if wit_total_mining_pledge w > 0 \<and> (bonus_per_pledge w \<noteq> [] \<or> unhandled_bonus w > 0)
      then last_update_bonus_block_num w + 10000 else - 1)"

text \<open>
  The sum over the map starts from the literal \<^verbatim>\<open>0\<close>, so \<^verbatim>\<open>std::accumulate\<close> keeps it in an \<^verbatim>\<open>int\<close>:
  every partial sum is truncated to 32 bits.
\<close>

definition accumulate_bonus :: "32 word \<Rightarrow> witness_object \<Rightarrow> 32 word" where
  "accumulate_bonus start_block_num w =
     fold (\<lambda>(_, x) acc. ucast (scast acc + word_of_int x :: 64 word))
       (dropWhile (\<lambda>(k, _). k < start_block_num) (bonus_per_pledge w)) 0"

definition accumulate_bonus_per_pledge :: "safe_ops \<Rightarrow> 32 word \<Rightarrow> witness_object \<Rightarrow> int result" where
  "accumulate_bonus_per_pledge fc start_block_num w =
     (let r = sint (accumulate_bonus start_block_num w)
      in if unhandled_bonus w > 0 \<and> wit_total_mining_pledge w > 0
         then sadd fc r (share_of_u128 ((u128 (unhandled_bonus w) * u128 GRAPHENE_PLEDGE_BONUS_PRECISION) div
                ucast (wit_total_mining_pledge w)))
         else Inr r)"

section \<open>Slots\<close>

definition get_scheduled_witness :: "32 word \<Rightarrow> schedule_state \<Rightarrow> account_uid_type result" where
  "get_scheduled_witness slot_num st =
     (let aslot = current_aslot st + ucast slot_num; ws = current_shuffled_witnesses (wso st)
      in if ws = [] then Inl (Undefined_Behaviour ''division by zero'') else Inr (ws ! (unat aslot mod length ws)))"

text \<open>
  \<^verbatim>\<open>slot_num * interval\<close> is 32-bit, as is the time. The head block's slot is rounded down to the
  interval.
\<close>

definition get_slot_time :: "32 word \<Rightarrow> schedule_state \<Rightarrow> 32 word" where
  "get_slot_time slot_num st =
     (if slot_num = 0 then 0
      else let interval = ucast (block_interval (parameters st)) :: 32 word
           in if head_block_num st = 0 then head_block_time st + slot_num * interval
              else let head_slot_time = (head_block_time st div interval) * interval;
                       slot_num = (if maintenance_flag st then slot_num + ucast (maintenance_skip_slots (parameters st)) else slot_num);
                       slot_num = (if content_award_skip_flag st then slot_num + ucast (content_award_skip_slots (parameters st)) else slot_num)
                   in head_slot_time + slot_num * interval)"

definition get_slot_at_time :: "32 word \<Rightarrow> schedule_state \<Rightarrow> 32 word" where
  "get_slot_at_time w_time st =
     (let first_slot_time = get_slot_time 1 st
      in if w_time < first_slot_time then 0
         else (w_time - first_slot_time) div ucast (block_interval (parameters st)) + 1)"

definition witness_participation_rate :: "schedule_state \<Rightarrow> 32 word" where
  "witness_participation_rate st =
     word_of_int (GRAPHENE_100_PERCENT * int (length (filter (bit (recent_slots_filled st)) [0..<128])) div 128)"

section \<open>Choosing the witnesses\<close>

text \<open>The valid rows in the order of the three indices that are iterated.\<close>

definition by_votes :: "witness_object list \<Rightarrow> witness_object list" where
  "by_votes ws = sort_key (\<lambda>w. (- uint (total_votes w), account w, wit_sequence w)) (filter is_valid ws)"

definition by_vote_schedule :: "witness_object list \<Rightarrow> witness_object list" where
  "by_vote_schedule ws = sort_key (\<lambda>w. (by_vote_scheduled_time w, account w, wit_sequence w)) (filter is_valid ws)"

definition by_pledge_schedule :: "witness_object list \<Rightarrow> witness_object list" where
  "by_pledge_schedule ws = sort_key (\<lambda>w. (by_pledge_scheduled_time w, account w, wit_sequence w)) (filter is_valid ws)"

type_synonym new_witnesses = "(account_uid_type \<times> scheduled_witness_type) list"

text \<open>\<^verbatim>\<open>flat_map::insert\<close> keeps an entry that is already there.\<close>

definition insert_witness :: "account_uid_type \<Rightarrow> scheduled_witness_type \<Rightarrow> new_witnesses \<Rightarrow> new_witnesses" where
  "insert_witness u ty m = (if map_of m u = None then omap_put u ty m else m)"

fun add_top :: "nat \<Rightarrow> witness_object list \<Rightarrow> new_witnesses \<Rightarrow> new_witnesses" where
  "add_top top_max [] m = m"
| "add_top top_max (w # ws) m =
     (if length m < top_max
      then add_top top_max ws (if signing_key w \<noteq> 0 then insert_witness (account w) scheduled_by_vote_top m else m)
      else m)"

text \<open>The by-vote loop: rows processed (in order), the last scheduled time seen, how many were added.\<close>

fun add_rest :: "nat \<Rightarrow> witness_object list \<Rightarrow> 16 word \<Rightarrow> witness_object list \<Rightarrow> 128 word \<Rightarrow> new_witnesses \<Rightarrow>
    16 word \<times> witness_object list \<times> 128 word \<times> new_witnesses" where
  "add_rest rest_max [] added processed t m = (added, processed, t, m)"
| "add_rest rest_max (w # ws) added processed t m =
     (if unat added < rest_max
      then if signing_key w \<noteq> 0 \<and> map_of m (account w) = None
           then add_rest rest_max ws (added + 1) (processed @ [w]) (by_vote_scheduled_time w)
                  (insert_witness (account w) scheduled_by_vote_rest m)
           else add_rest rest_max ws added (processed @ [w]) (by_vote_scheduled_time w) m
      else (added, processed, t, m))"

fun add_pledge :: "(witness_object \<Rightarrow> bool) \<Rightarrow> nat \<Rightarrow> witness_object list \<Rightarrow> 16 word \<Rightarrow> witness_object list \<Rightarrow> 128 word \<Rightarrow>
    new_witnesses \<Rightarrow> 16 word \<times> witness_object list \<times> 128 word \<times> new_witnesses" where
  "add_pledge enough pledge_max [] added processed t m = (added, processed, t, m)"
| "add_pledge enough pledge_max (w # ws) added processed t m =
     (if unat added < pledge_max
      then if signing_key w \<noteq> 0 \<and> map_of m (account w) = None \<and> enough w
           then add_pledge enough pledge_max ws (added + 1) (processed @ [w]) (by_pledge_scheduled_time w)
                  (insert_witness (account w) scheduled_by_pledge m)
           else add_pledge enough pledge_max ws added (processed @ [w]) (by_pledge_scheduled_time w) m
      else (added, processed, t, m))"

definition reset_witness_by_pledge_schedule :: "schedule_state \<Rightarrow> schedule_state" where
  "reset_witness_by_pledge_schedule st =
     st\<lparr>wso := (wso st)\<lparr>current_by_pledge_time := 0\<rparr>,
        witnesses := map (\<lambda>w. if is_valid w
          then w\<lparr>by_pledge_position := 0, by_pledge_position_last_update := 0,
                 by_pledge_scheduled_time := GRAPHENE_VIRTUAL_LAP_LENGTH div ucast (average_pledge w + wit_total_mining_pledge w + 1)\<rparr>
          else w) (witnesses st)\<rparr>"

definition reset_witness_by_vote_schedule :: "schedule_state \<Rightarrow> schedule_state" where
  "reset_witness_by_vote_schedule st =
     st\<lparr>wso := (wso st)\<lparr>current_by_vote_time := 0\<rparr>,
        witnesses := map (\<lambda>w. if is_valid w
          then w\<lparr>by_vote_position := 0, by_vote_position_last_update := 0,
                 by_vote_scheduled_time := GRAPHENE_VIRTUAL_LAP_LENGTH div ucast (total_votes w + 1)\<rparr>
          else w) (witnesses st)\<rparr>"

fun reschedule_votes :: "128 word \<Rightarrow> witness_object list \<Rightarrow> schedule_state \<Rightarrow> bool \<times> schedule_state" where
  "reschedule_votes t [] st = (False, st)"
| "reschedule_votes t (w # ws) st =
     (let new_time = t + GRAPHENE_VIRTUAL_LAP_LENGTH div ucast (total_votes w + 1)
      in if new_time < t then (True, st)
         else reschedule_votes t ws (modify_witness (wit_id w)
                (\<lambda>w. w\<lparr>by_vote_position := 0, by_vote_position_last_update := t, by_vote_scheduled_time := new_time\<rparr>) st))"

fun reschedule_pledges :: "128 word \<Rightarrow> witness_object list \<Rightarrow> schedule_state \<Rightarrow> bool \<times> schedule_state" where
  "reschedule_pledges t [] st = (False, st)"
| "reschedule_pledges t (w # ws) st =
     (let new_time = t + GRAPHENE_VIRTUAL_LAP_LENGTH div ucast (average_pledge w + wit_total_mining_pledge w + 1)
      in if new_time < t then (True, st)
         else reschedule_pledges t ws (modify_witness (wit_id w)
                (\<lambda>w. w\<lparr>by_pledge_position := 0, by_pledge_position_last_update := t, by_pledge_scheduled_time := new_time\<rparr>) st))"

definition apply_vote_times :: "16 word \<Rightarrow> witness_object list \<Rightarrow> 128 word \<Rightarrow> schedule_state \<Rightarrow> schedule_state" where
  "apply_vote_times rest_added processed t st =
     (if rest_added > 0
      then let (reset, st) = reschedule_votes t processed st
           in if reset then reset_witness_by_vote_schedule st else st\<lparr>wso := (wso st)\<lparr>current_by_vote_time := t\<rparr>\<rparr>
      else st)"

definition apply_pledge_times :: "16 word \<Rightarrow> witness_object list \<Rightarrow> 128 word \<Rightarrow> schedule_state \<Rightarrow> schedule_state" where
  "apply_pledge_times pledge_added processed t st =
     (if pledge_added > 0
      then let (reset, st) = reschedule_pledges t processed st
           in if reset then reset_witness_by_pledge_schedule st else st\<lparr>wso := (wso st)\<lparr>current_by_pledge_time := t\<rparr>\<rparr>
      else st)"

section \<open>Pay of the witnesses scheduled by pledge\<close>

text \<open>
  \<^verbatim>\<open>fc::bigint\<close> is an unbounded integer. The divisor \<^verbatim>\<open>86400 * 365 * by_pledge_witness_count\<close> is a
  product of \<^verbatim>\<open>int\<close>s, which overflows above 68 witnesses.
\<close>

definition witness_pay_per_year :: "int \<Rightarrow> int" where
  "witness_pay_per_year tot =
     (let lower = GRAPHENE_BLOCKCHAIN_PRECISION * 10000000; upper = GRAPHENE_BLOCKCHAIN_PRECISION * 320000000;
          a = GRAPHENE_BLOCKCHAIN_PRECISION * 10000000
      in if tot < lower then (GRAPHENE_1_PERCENT * 25) * tot div GRAPHENE_100_PERCENT
         else if tot < upper
         then let rate = tot * tot * 69370 * a - tot * tot * tot * 1052 - tot * 1656000 * a * a + 21120000 * a * a * a
              in tot * rate * GRAPHENE_1_PERCENT div (a * a * a * 1000000 * GRAPHENE_100_PERCENT)
         else 150110208 * GRAPHENE_BLOCKCHAIN_PRECISION div 10)"

definition get_witness_pay_by_pledge :: "schedule_state \<Rightarrow> 16 word \<Rightarrow> int result" where
  "get_witness_pay_by_pledge st cnt =
     (if head_block_time st < HARDFORK_0_4_TIME then Inr (by_pledge_witness_pay_per_block_param (parameters st))
      else if 86400 * 365 * uint cnt > 2 ^ 31 - 1 then Inl (Undefined_Behaviour ''int overflow'')
      else Inr (witness_pay_per_year (total_witness_pledge st) * uint (block_interval (parameters st)) *
             int (length (active_witnesses st)) div (86400 * 365 * uint cnt)))"

section \<open>Shuffling\<close>

definition xorshift :: "64 word \<Rightarrow> 64 word" where
  "xorshift k =
     (let k = k XOR drop_bit 12 k; k = k XOR push_bit 25 k; k = k XOR drop_bit 27 k in k * 2685821657736338717)"

definition swap :: "nat \<Rightarrow> nat \<Rightarrow> 'a list \<Rightarrow> 'a list" where
  "swap i j xs = xs[i := xs ! j, j := xs ! i]"

text \<open>One pass: position \<open>i\<close> is swapped with a position drawn from \<open>i\<close> to the end. The argument counts the passes left.\<close>

fun shuffle_from :: "64 word \<Rightarrow> nat \<Rightarrow> nat \<Rightarrow> 'a list \<Rightarrow> 'a list" where
  "shuffle_from now_hi 0 i xs = xs"
| "shuffle_from now_hi (Suc n) i xs =
     (let k = xorshift (now_hi + of_nat i * 2685821657736338717); jmax = of_nat (length xs - i)
      in shuffle_from now_hi n (Suc i) (swap i (i + unat (k mod jmax)) xs))"

definition shuffle :: "32 word \<Rightarrow> 'a list \<Rightarrow> 'a list" where
  "shuffle now xs = shuffle_from (push_bit 32 (ucast now)) (length xs) 0 xs"

section \<open>Updating the schedule\<close>

definition enough_pledge :: "schedule_state \<Rightarrow> witness_object \<Rightarrow> bool" where
  "enough_pledge st w \<longleftrightarrow> sint (wit_pledge w) \<ge> sint (min_witness_block_produce_pledge (parameters st)) \<or>
     head_block_time st < HARDFORK_0_4_TIME"

definition update_witness_schedule :: "schedule_state \<Rightarrow> schedule_state result" where
  "update_witness_schedule st =
     (if head_block_num st \<ge> next_schedule_block_num (wso st)
      then let p = parameters st;
               m = add_top (unat (by_vote_top_witness_count p)) (by_votes (witnesses st)) [];
               (rest_added, processed, t, m) =
                 add_rest (unat (by_vote_rest_witness_count p)) (by_vote_schedule (witnesses st)) 0 [] (current_by_vote_time (wso st)) m;
               st = apply_vote_times rest_added processed t st;
               (pledge_added, processed, t, m) =
                 add_pledge (enough_pledge st) (unat (by_pledge_witness_count p)) (by_pledge_schedule (witnesses st)) 0 []
                   (current_by_pledge_time (wso st)) m;
               st = apply_pledge_times pledge_added processed t st;
               st = st\<lparr>active_witnesses := m\<rparr>
           in bindE (if pledge_added > 0 then get_witness_pay_by_pledge st pledge_added else Inr 0) (\<lambda>pay.
                let st = st\<lparr>by_pledge_witness_pay_per_block := pay\<rparr>;
                    ws = shuffle (head_block_time st) (map fst (active_witnesses st))
                in Inr (st\<lparr>wso := (wso st)\<lparr>current_shuffled_witnesses := ws,
                        next_schedule_block_num := next_schedule_block_num (wso st) + of_nat (length ws)\<rparr>\<rparr>))
      else Inr st)"

section \<open>Average pledge and votes\<close>

definition find_witness_by_uid :: "account_uid_type \<Rightarrow> schedule_state \<Rightarrow> witness_object option" where
  "find_witness_by_uid uid st = find (\<lambda>w. is_valid w \<and> account w = uid) (witnesses st)"

definition get_witness_by_uid :: "account_uid_type \<Rightarrow> schedule_state \<Rightarrow> witness_object result" where
  "get_witness_by_uid uid st = option_or (Assert_Exception ''witness not found.'') (find_witness_by_uid uid st)"

definition update_pledge_position :: "schedule_state \<Rightarrow> witness_object \<Rightarrow> witness_object" where
  "update_pledge_position st w =
     (if current_by_pledge_time (wso st) > by_pledge_position_last_update w
      then w\<lparr>by_pledge_position := by_pledge_position w +
               (current_by_pledge_time (wso st) - by_pledge_position_last_update w) * ucast (average_pledge w),
             by_pledge_position_last_update := current_by_pledge_time (wso st)\<rparr>
      else w)"

text \<open>
  The moving average towards a target that was set at \<open>last\<close>: shared by the average pledge of a
  witness and the effective votes of a voter. Times are 32-bit, the window 64-bit.
\<close>

definition moving_average :: "nat \<Rightarrow> 64 word \<Rightarrow> 32 word \<Rightarrow> 64 word \<Rightarrow> 32 word \<Rightarrow> 64 word \<Rightarrow> 32 word \<Rightarrow> 64 word" where
  "moving_average hf window now avg avg_last target target_last =
     (let delta_seconds = ucast (now - avg_last) :: 64 word
      in if hf < enable_head_fork_05
         then let old_seconds = window - delta_seconds;
                  old_coin_seconds = ucast avg * ucast old_seconds :: 128 word;
                  new_coin_seconds = ucast target * ucast delta_seconds :: 128 word
              in ucast ((old_coin_seconds + new_coin_seconds) div ucast window)
         else let total_seconds = window - word_of_int (uint avg_last - uint target_last)
              in avg + ucast ((ucast (target - avg) :: 128 word) * ucast delta_seconds div ucast total_seconds))"

definition average_pledge_step :: "schedule_state \<Rightarrow> witness_object \<Rightarrow> witness_object" where
  "average_pledge_step st w =
     (let now = head_block_time st; window = max_witness_pledge_seconds (parameters st);
          next = head_block_num st + witness_avg_pledge_update_interval (parameters st)
      in if average_pledge w = wit_pledge w
         then w\<lparr>average_pledge_last_update := now, average_pledge_next_update_block := - 1\<rparr>
         else if average_pledge w > wit_pledge w \<or> now \<ge> pledge_last_update w + ucast window
         then w\<lparr>average_pledge := wit_pledge w, average_pledge_last_update := now, average_pledge_next_update_block := - 1\<rparr>
         else if now > average_pledge_last_update w
         then w\<lparr>average_pledge := moving_average (dgp_hardfork_version st) window now (average_pledge w)
                  (average_pledge_last_update w) (wit_pledge w) (pledge_last_update w),
                average_pledge_last_update := now, average_pledge_next_update_block := next\<rparr>
         else w\<lparr>average_pledge_next_update_block := next\<rparr>)"

definition pledge_time_step :: "schedule_state \<Rightarrow> 64 word \<Rightarrow> witness_object \<Rightarrow> witness_object" where
  "pledge_time_step st old_avg_pledge w =
     (if old_avg_pledge \<noteq> average_pledge w
      then let need_time = (GRAPHENE_VIRTUAL_LAP_LENGTH - by_pledge_position w) div
                 ucast (average_pledge w + wit_total_mining_pledge w + 1);
               t = by_pledge_position_last_update w + need_time
           in w\<lparr>by_pledge_scheduled_time := (if t < current_by_pledge_time (wso st) then UINT128_MAX_VALUE else t)\<rparr>
      else w)"

definition update_witness_avg_pledge :: "witness_object \<Rightarrow> schedule_state \<Rightarrow> schedule_state" where
  "update_witness_avg_pledge wit st =
     (if \<not> is_valid wit then st
      else modify_witness (wit_id wit)
        (\<lambda>w. pledge_time_step st (average_pledge w) (average_pledge_step st (update_pledge_position st w))) st)"

definition update_witness_avg_pledge_by_uid :: "account_uid_type \<Rightarrow> schedule_state \<Rightarrow> schedule_state result" where
  "update_witness_avg_pledge_by_uid uid st =
     bindE (get_witness_by_uid uid st) (\<lambda>w. Inr (update_witness_avg_pledge w st))"

definition adjust_votes_step :: "witness_schedule_object \<Rightarrow> int \<Rightarrow> witness_object \<Rightarrow> witness_object" where
  "adjust_votes_step ws delta w =
     (let w = (if current_by_vote_time ws > by_vote_position_last_update w
               then w\<lparr>by_vote_position := by_vote_position w +
                        (current_by_vote_time ws - by_vote_position_last_update w) * ucast (total_votes w),
                      by_vote_position_last_update := current_by_vote_time ws\<rparr>
               else w);
          w = w\<lparr>total_votes := total_votes w + word_of_int delta\<rparr>;
          need_time = (GRAPHENE_VIRTUAL_LAP_LENGTH - by_vote_position w) div ucast (total_votes w + 1);
          t = by_vote_position_last_update w + need_time
      in w\<lparr>by_vote_scheduled_time := (if t < current_by_vote_time ws then UINT128_MAX_VALUE else t)\<rparr>)"

definition adjust_witness_votes :: "witness_object \<Rightarrow> int \<Rightarrow> schedule_state \<Rightarrow> schedule_state" where
  "adjust_witness_votes wit delta st =
     (if delta = 0 \<or> \<not> is_valid wit then st
      else modify_witness (wit_id wit) (adjust_votes_step (wso st) delta) st)"

end
