(* ===== verification/Schedule_Correct.thy ===== *)
theory Schedule_Correct
  imports Witness_Schedule
begin

text \<open>
  What the schedule of \<^verbatim>\<open>Witness_Schedule\<close> guarantees: the active witnesses are valid, have a signing
  key, are no more than the parameters allow and each appears once in the shuffled order; every one
  of them comes up exactly once in every round of slots; slot numbers and slot times are inverse; the
  average pledge approaches the pledge without passing it.
\<close>

section \<open>Shuffling permutes\<close>

lemma mset_swap_positions: "i < length xs \<Longrightarrow> j < length xs \<Longrightarrow> mset (swap i j xs) = mset xs"
  by (simp add: swap_def mset_swap)

lemma mset_shuffle_from: "i + n = length xs \<Longrightarrow> length xs < 2 ^ 32 \<Longrightarrow> mset (shuffle_from h n i xs) = mset xs"
proof (induction n arbitrary: i xs)
  case (Suc n)
  let ?k = "xorshift (h + of_nat i * 2685821657736338717) mod of_nat (length xs - i)"
  have "unat (of_nat (length xs - i) :: 64 word) = length xs - i" using Suc.prems(2) by (simp add: unat_of_nat)
  then have "unat ?k = unat (xorshift (h + of_nat i * 2685821657736338717)) mod (length xs - i)"
    by (simp only: unat_mod_distrib)
  also have "\<dots> < length xs - i" using Suc.prems(1) by (intro mod_less_divisor) simp
  finally have "i + unat ?k < length xs" by linarith
  then have "mset (swap i (i + unat ?k) xs) = mset xs" using Suc.prems by (simp add: mset_swap_positions)
  moreover have "Suc i + n = length (swap i (i + unat ?k) xs)" using Suc.prems by (simp add: swap_def)
  ultimately show ?case using Suc.IH [of "Suc i" "swap i (i + unat ?k) xs"] Suc.prems(2) by (simp add: Let_def swap_def)
qed simp

lemma mset_shuffle: "length xs < 2 ^ 32 \<Longrightarrow> mset (shuffle now xs) = mset xs"
  by (simp add: shuffle_def mset_shuffle_from)

lemma length_shuffle [simp]: "length (shuffle now xs) = length xs"
proof -
  have "length (shuffle_from h n i xs) = length xs" for h n i
    by (induction n arbitrary: i xs) (simp_all add: Let_def swap_def)
  then show ?thesis by (simp add: shuffle_def)
qed

section \<open>What the three passes add\<close>

definition electable :: "witness_object list \<Rightarrow> account_uid_type \<Rightarrow> bool" where
  "electable ws u \<longleftrightarrow> (\<exists>w\<in>set ws. is_valid w \<and> signing_key w \<noteq> 0 \<and> account w = u)"

definition elected_ok :: "witness_object list \<Rightarrow> new_witnesses \<Rightarrow> bool" where
  "elected_ok ws m \<longleftrightarrow> omap_ok m \<and> (\<forall>u\<in>fst ` set m. electable ws u)"

lemma length_omap_put: "map_of m k = None \<Longrightarrow> length (omap_put k v m) = Suc (length m)"
  by (induction m) (auto split: if_splits)

lemma length_insert_witness: "length (insert_witness u ty m) \<le> Suc (length m)"
  by (simp add: insert_witness_def length_omap_put)

lemma elected_insert: "elected_ok ws m \<Longrightarrow> electable ws u \<Longrightarrow> elected_ok ws (insert_witness u ty m)"
  unfolding elected_ok_def insert_witness_def using set_omap_put [of u ty m] omap_ok_put [of m u ty] by (simp del: ball_simps) blast

lemma add_top_spec:
  "elected_ok ws m \<Longrightarrow> \<forall>w\<in>set rows. w \<in> set ws \<and> is_valid w \<Longrightarrow>
   elected_ok ws (add_top n rows m) \<and> length (add_top n rows m) \<le> max n (length m)"
proof (induction rows arbitrary: m)
  case (Cons w rows)
  let ?m = "if signing_key w \<noteq> 0 then insert_witness (account w) scheduled_by_vote_top m else m"
  have "elected_ok ws ?m"
    using Cons.prems by (auto intro!: elected_insert simp: electable_def)
  moreover have "length ?m \<le> Suc (length m)" using length_insert_witness [of "account w" scheduled_by_vote_top m] by simp
  ultimately show ?case using Cons.IH [of ?m] Cons.prems by auto
qed simp

lemma unat_inc: "unat (a :: 16 word) < n \<Longrightarrow> n \<le> unat (b :: 16 word) \<Longrightarrow> unat (a + 1) = Suc (unat a)"
  using unsigned_less [of b, where 'a = nat] by (simp add: unat_word_ariths)

lemma add_rest_spec:
  "elected_ok ws m \<Longrightarrow> \<forall>w\<in>set rows. w \<in> set ws \<and> is_valid w \<Longrightarrow> unat added \<le> unat (b :: 16 word) \<Longrightarrow>
   add_rest (unat b) rows added processed t m = (added', processed', t', m') \<Longrightarrow>
   elected_ok ws m' \<and> length m' + unat added = length m + unat added' \<and> unat added' \<le> unat b"
proof (induction rows arbitrary: added processed t m)
  case (Cons w rows)
  show ?case
  proof (cases "unat added < unat b \<and> signing_key w \<noteq> 0 \<and> map_of m (account w) = None")
    case True
    let ?m = "insert_witness (account w) scheduled_by_vote_rest m"
    have "elected_ok ws ?m" using Cons.prems(1,2) True by (auto intro!: elected_insert simp: electable_def)
    moreover have "length ?m = Suc (length m)" using True by (simp add: insert_witness_def length_omap_put)
    moreover have "unat (added + 1) = Suc (unat added)" using True unat_inc by blast
    ultimately show ?thesis using Cons.IH [of ?m "added + 1"] Cons.prems True by fastforce
  next
    case skip: False
    show ?thesis
    proof (cases "unat added < unat b")
      case True
      then have "add_rest (unat b) rows added (processed @ [w]) (by_vote_scheduled_time w) m = (added', processed', t', m')"
        using skip Cons.prems(4) by (auto split: if_splits)
      from Cons.IH [OF Cons.prems(1) _ Cons.prems(3) this] Cons.prems(2) show ?thesis by simp
    next
      case False
      with Cons.prems show ?thesis by simp
    qed
  qed
qed simp

lemma add_pledge_spec:
  "elected_ok ws m \<Longrightarrow> \<forall>w\<in>set rows. w \<in> set ws \<and> is_valid w \<Longrightarrow> unat added \<le> unat (b :: 16 word) \<Longrightarrow>
   add_pledge enough (unat b) rows added processed t m = (added', processed', t', m') \<Longrightarrow>
   elected_ok ws m' \<and> length m' + unat added = length m + unat added' \<and> unat added' \<le> unat b"
proof (induction rows arbitrary: added processed t m)
  case (Cons w rows)
  show ?case
  proof (cases "unat added < unat b \<and> signing_key w \<noteq> 0 \<and> map_of m (account w) = None \<and> enough w")
    case True
    let ?m = "insert_witness (account w) scheduled_by_pledge m"
    have "elected_ok ws ?m" using Cons.prems(1,2) True by (auto intro!: elected_insert simp: electable_def)
    moreover have "length ?m = Suc (length m)" using True by (simp add: insert_witness_def length_omap_put)
    moreover have "unat (added + 1) = Suc (unat added)" using True unat_inc by blast
    ultimately show ?thesis using Cons.IH [of ?m "added + 1"] Cons.prems True by fastforce
  next
    case skip: False
    show ?thesis
    proof (cases "unat added < unat b")
      case True
      then have "add_pledge enough (unat b) rows added (processed @ [w]) (by_pledge_scheduled_time w) m = (added', processed', t', m')"
        using skip Cons.prems(4) by (auto split: if_splits)
      from Cons.IH [OF Cons.prems(1) _ Cons.prems(3) this] Cons.prems(2) show ?thesis by simp
    next
      case False
      with Cons.prems show ?thesis by simp
    qed
  qed
qed simp

section \<open>Rescheduling keeps the rows' identity\<close>

definition row_core :: "witness_object \<Rightarrow> nat \<times> account_uid_type \<times> bool \<times> 264 word" where
  "row_core w = (wit_id w, account w, is_valid w, signing_key w)"

definition same_rows :: "schedule_state \<Rightarrow> schedule_state \<Rightarrow> bool" where
  "same_rows st st' \<longleftrightarrow> map row_core (witnesses st') = map row_core (witnesses st) \<and>
     parameters st' = parameters st \<and> head_block_num st' = head_block_num st \<and> head_block_time st' = head_block_time st \<and>
     current_aslot st' = current_aslot st \<and> next_schedule_block_num (wso st') = next_schedule_block_num (wso st)"

lemma same_rows_refl: "same_rows st st"
  by (simp add: same_rows_def)

lemma same_rows_trans: "same_rows a b \<Longrightarrow> same_rows b c \<Longrightarrow> same_rows a c"
  by (simp add: same_rows_def)

lemma same_rows_modify: "(\<And>w. row_core (f w) = row_core w) \<Longrightarrow> same_rows st (modify_witness i f st)"
  by (simp add: same_rows_def modify_witness_def)

lemma same_rows_reschedule_votes: "reschedule_votes t ws st = (b, st') \<Longrightarrow> same_rows st st'"
proof (induction ws arbitrary: st)
  case (Cons w ws)
  show ?case
  proof (cases "t + GRAPHENE_VIRTUAL_LAP_LENGTH div ucast (total_votes w + 1) < t")
    case True
    with Cons.prems show ?thesis by (simp add: Let_def same_rows_refl)
  next
    case False
    let ?f = "\<lambda>v. v\<lparr>by_vote_position := 0, by_vote_position_last_update := t,
      by_vote_scheduled_time := t + GRAPHENE_VIRTUAL_LAP_LENGTH div ucast (total_votes w + 1)\<rparr>"
    have "same_rows st (modify_witness (wit_id w) ?f st)" by (rule same_rows_modify) (simp add: row_core_def)
    moreover have "reschedule_votes t ws (modify_witness (wit_id w) ?f st) = (b, st')"
      using Cons.prems False by (simp add: Let_def)
    ultimately show ?thesis using Cons.IH same_rows_trans by blast
  qed
qed (simp add: same_rows_refl)

lemma same_rows_reschedule_pledges: "reschedule_pledges t ws st = (b, st') \<Longrightarrow> same_rows st st'"
proof (induction ws arbitrary: st)
  case (Cons w ws)
  show ?case
  proof (cases "t + GRAPHENE_VIRTUAL_LAP_LENGTH div ucast (average_pledge w + wit_total_mining_pledge w + 1) < t")
    case True
    with Cons.prems show ?thesis by (simp add: Let_def same_rows_refl)
  next
    case False
    let ?f = "\<lambda>v. v\<lparr>by_pledge_position := 0, by_pledge_position_last_update := t,
      by_pledge_scheduled_time := t + GRAPHENE_VIRTUAL_LAP_LENGTH div ucast (average_pledge w + wit_total_mining_pledge w + 1)\<rparr>"
    have "same_rows st (modify_witness (wit_id w) ?f st)" by (rule same_rows_modify) (simp add: row_core_def)
    moreover have "reschedule_pledges t ws (modify_witness (wit_id w) ?f st) = (b, st')"
      using Cons.prems False by (simp add: Let_def)
    ultimately show ?thesis using Cons.IH same_rows_trans by blast
  qed
qed (simp add: same_rows_refl)

lemma same_rows_resets:
  "same_rows st (reset_witness_by_vote_schedule st)" "same_rows st (reset_witness_by_pledge_schedule st)"
  by (simp_all add: same_rows_def reset_witness_by_vote_schedule_def reset_witness_by_pledge_schedule_def row_core_def)

lemma same_rows_wso:
  "next_schedule_block_num o' = next_schedule_block_num (wso st) \<Longrightarrow> same_rows st (st\<lparr>wso := o'\<rparr>)"
  by (simp add: same_rows_def)

lemma same_rows_vote_times: "same_rows st (apply_vote_times n p t st)"
proof -
  obtain b st1 where r: "reschedule_votes t p st = (b, st1)" by fastforce
  have s1: "same_rows st st1" by (rule same_rows_reschedule_votes [OF r])
  have s2: "same_rows st (st1\<lparr>wso := (wso st1)\<lparr>current_by_vote_time := t\<rparr>\<rparr>)"
    by (rule same_rows_trans [OF s1 same_rows_wso]) simp
  show ?thesis
    unfolding apply_vote_times_def r Let_def prod.case
    using s2 same_rows_trans [OF s1 same_rows_resets(1)] by (auto intro: same_rows_refl)
qed

lemma same_rows_pledge_times: "same_rows st (apply_pledge_times n p t st)"
proof -
  obtain b st1 where r: "reschedule_pledges t p st = (b, st1)" by fastforce
  have s1: "same_rows st st1" by (rule same_rows_reschedule_pledges [OF r])
  have s2: "same_rows st (st1\<lparr>wso := (wso st1)\<lparr>current_by_pledge_time := t\<rparr>\<rparr>)"
    by (rule same_rows_trans [OF s1 same_rows_wso]) simp
  show ?thesis
    unfolding apply_pledge_times_def r Let_def prod.case
    using s2 same_rows_trans [OF s1 same_rows_resets(2)] by (auto intro: same_rows_refl)
qed

lemma electable_same_rows:
  assumes "same_rows st st'"
  shows "electable (witnesses st') u = electable (witnesses st) u"
proof -
  have e: "electable (witnesses s) u \<longleftrightarrow> (\<exists>c\<in>set (map row_core (witnesses s)). fst (snd (snd c)) \<and> snd (snd (snd c)) \<noteq> 0 \<and> fst (snd c) = u)" for s
    by (auto simp: electable_def row_core_def)
  show ?thesis using assms unfolding e same_rows_def by simp
qed

section \<open>The updated schedule\<close>

lemma update_witness_schedule_steps:
  assumes "update_witness_schedule st = Inr st'" and "next_schedule_block_num (wso st) \<le> head_block_num st"
  obtains ra p t m2 pa p' t' m3 st1 st2 where
    "add_rest (unat (by_vote_rest_witness_count (parameters st))) (by_vote_schedule (witnesses st)) 0 []
       (current_by_vote_time (wso st)) (add_top (unat (by_vote_top_witness_count (parameters st))) (by_votes (witnesses st)) []) = (ra, p, t, m2)"
    "st1 = apply_vote_times ra p t st"
    "add_pledge (enough_pledge st1) (unat (by_pledge_witness_count (parameters st))) (by_pledge_schedule (witnesses st1)) 0 []
       (current_by_pledge_time (wso st1)) m2 = (pa, p', t', m3)"
    "st2 = apply_pledge_times pa p' t' st1"
    "active_witnesses st' = m3" "current_shuffled_witnesses (wso st') = shuffle (head_block_time st2) (map fst m3)"
    "next_schedule_block_num (wso st') = next_schedule_block_num (wso st2) + of_nat (length m3)"
    "current_aslot st' = current_aslot st2"
proof -
  obtain ra p t m2 where r: "add_rest (unat (by_vote_rest_witness_count (parameters st))) (by_vote_schedule (witnesses st)) 0 []
       (current_by_vote_time (wso st)) (add_top (unat (by_vote_top_witness_count (parameters st))) (by_votes (witnesses st)) []) = (ra, p, t, m2)"
    by (metis prod.exhaust)
  define st1 where "st1 = apply_vote_times ra p t st"
  obtain pa p' t' m3 where q: "add_pledge (enough_pledge st1) (unat (by_pledge_witness_count (parameters st))) (by_pledge_schedule (witnesses st1)) 0 []
       (current_by_pledge_time (wso st1)) m2 = (pa, p', t', m3)"
    by (metis prod.exhaust)
  define st2 where "st2 = apply_pledge_times pa p' t' st1"
  define st3 where "st3 = st2\<lparr>active_witnesses := m3\<rparr>"
  let ?pay = "if pa > 0 then get_witness_pay_by_pledge st3 pa else Inr 0"
  let ?fin = "\<lambda>pay. let s = st3\<lparr>by_pledge_witness_pay_per_block := pay\<rparr>;
      ws = shuffle (head_block_time s) (map fst (active_witnesses s))
    in Inr (s\<lparr>wso := (wso s)\<lparr>current_shuffled_witnesses := ws,
         next_schedule_block_num := next_schedule_block_num (wso s) + of_nat (length ws)\<rparr>\<rparr>) :: schedule_state result"
  have "update_witness_schedule st = bindE ?pay ?fin"
    using assms(2) r q unfolding update_witness_schedule_def st1_def st2_def st3_def Let_def by simp
  with assms(1) have "bindE ?pay ?fin = Inr st'" by simp
  then obtain pay where "?fin pay = Inr st'" unfolding bindE_eq_Inr by blast
  then have "st' = st3\<lparr>by_pledge_witness_pay_per_block := pay,
      wso := (wso st3)\<lparr>current_shuffled_witnesses := shuffle (head_block_time st3) (map fst m3),
        next_schedule_block_num := next_schedule_block_num (wso st3) + of_nat (length m3)\<rparr>\<rparr>"
    by (simp add: Let_def st3_def)
  then show ?thesis using that [OF r st1_def q st2_def] by (simp add: st3_def)
qed

lemma elected_witnesses:
  assumes "update_witness_schedule st = Inr st'" and "next_schedule_block_num (wso st) \<le> head_block_num st"
  shows "elected_ok (witnesses st) (active_witnesses st')"
    "length (active_witnesses st') \<le> unat (by_vote_top_witness_count (parameters st)) +
       unat (by_vote_rest_witness_count (parameters st)) + unat (by_pledge_witness_count (parameters st))"
    "mset (current_shuffled_witnesses (wso st')) = mset (map fst (active_witnesses st'))"
    "next_schedule_block_num (wso st') = next_schedule_block_num (wso st) + of_nat (length (active_witnesses st'))"
proof -
  from update_witness_schedule_steps [OF assms] obtain ra p t m2 pa p' t' m3 st1 st2 where
    rest: "add_rest (unat (by_vote_rest_witness_count (parameters st))) (by_vote_schedule (witnesses st)) 0 []
       (current_by_vote_time (wso st)) (add_top (unat (by_vote_top_witness_count (parameters st))) (by_votes (witnesses st)) []) = (ra, p, t, m2)"
    and st1: "st1 = apply_vote_times ra p t st"
    and pl: "add_pledge (enough_pledge st1) (unat (by_pledge_witness_count (parameters st))) (by_pledge_schedule (witnesses st1)) 0 []
       (current_by_pledge_time (wso st1)) m2 = (pa, p', t', m3)"
    and st2: "st2 = apply_pledge_times pa p' t' st1" and m3: "active_witnesses st' = m3"
    and sh: "current_shuffled_witnesses (wso st') = shuffle (head_block_time st2) (map fst m3)"
    and nx: "next_schedule_block_num (wso st') = next_schedule_block_num (wso st2) + of_nat (length m3)"
    by metis
  let ?top = "add_top (unat (by_vote_top_witness_count (parameters st))) (by_votes (witnesses st)) []"
  have rows: "same_rows st st1" "same_rows st st2"
    using st1 st2 same_rows_vote_times same_rows_pledge_times same_rows_trans by blast+
  have top: "elected_ok (witnesses st) ?top \<and> length ?top \<le> max (unat (by_vote_top_witness_count (parameters st))) (length ([] :: new_witnesses))"
    by (rule add_top_spec) (simp_all add: elected_ok_def omap_ok_def by_votes_def)
  have m2: "elected_ok (witnesses st) m2 \<and> length m2 + unat (0 :: 16 word) = length ?top + unat ra \<and>
      unat ra \<le> unat (by_vote_rest_witness_count (parameters st))"
    by (rule add_rest_spec [OF conjunct1 [OF top] _ _ rest]) (simp_all add: by_vote_schedule_def)
  have "elected_ok (witnesses st1) m2" using m2 electable_same_rows [OF rows(1)] by (simp add: elected_ok_def)
  then have m3': "elected_ok (witnesses st1) m3 \<and> length m3 + unat (0 :: 16 word) = length m2 + unat pa \<and>
      unat pa \<le> unat (by_pledge_witness_count (parameters st))"
    by (rule add_pledge_spec [OF _ _ _ pl]) (simp_all add: by_pledge_schedule_def)
  then show "elected_ok (witnesses st) (active_witnesses st')"
    using electable_same_rows [OF rows(1)] by (simp add: elected_ok_def m3)
  show len: "length (active_witnesses st') \<le> unat (by_vote_top_witness_count (parameters st)) +
       unat (by_vote_rest_witness_count (parameters st)) + unat (by_pledge_witness_count (parameters st))"
    using top m2 m3' by (simp add: m3)
  have "unat (c :: 16 word) < 65536" for c using unsigned_less [of c, where 'a = nat] by simp
  from this [of "by_vote_top_witness_count (parameters st)"] this [of "by_vote_rest_witness_count (parameters st)"]
    this [of "by_pledge_witness_count (parameters st)"] len
  have "length (map fst m3) < 2 ^ 32" by (simp add: m3)
  then show "mset (current_shuffled_witnesses (wso st')) = mset (map fst (active_witnesses st'))" by (simp add: sh m3 mset_shuffle)
  show "next_schedule_block_num (wso st') = next_schedule_block_num (wso st) + of_nat (length (active_witnesses st'))"
    using rows(2) by (simp add: nx m3 same_rows_def)
qed

text \<open>
  C14. A new schedule elects only valid witnesses with a signing key, each once and no more than the
  three counts allow; the shuffled order is a permutation of them, and the next election is due after
  one block per elected witness.
\<close>

theorem witness_schedule_elects:
  assumes "update_witness_schedule st = Inr st'" and "next_schedule_block_num (wso st) \<le> head_block_num st"
  shows "(\<forall>u\<in>set (current_shuffled_witnesses (wso st')). \<exists>w\<in>set (witnesses st). is_valid w \<and> signing_key w \<noteq> 0 \<and> account w = u) \<and>
    distinct (current_shuffled_witnesses (wso st')) \<and>
    mset (current_shuffled_witnesses (wso st')) = mset (map fst (active_witnesses st')) \<and>
    length (active_witnesses st') \<le> unat (by_vote_top_witness_count (parameters st)) +
       unat (by_vote_rest_witness_count (parameters st)) + unat (by_pledge_witness_count (parameters st)) \<and>
    next_schedule_block_num (wso st') = next_schedule_block_num (wso st) + of_nat (length (active_witnesses st'))"
proof -
  note e = elected_witnesses [OF assms]
  have "set (current_shuffled_witnesses (wso st')) = fst ` set (active_witnesses st')"
    using arg_cong [OF e(3), of set_mset] by simp
  moreover have "distinct (map fst (active_witnesses st'))"
    using e(1) by (auto simp: elected_ok_def omap_ok_def strict_sorted_iff)
  ultimately show ?thesis using e mset_eq_imp_distinct_iff [OF e(3)] by (auto simp: elected_ok_def electable_def)
qed

lemma ex1_shift_mod:
  fixes a k n :: nat
  assumes "k < n"
  shows "\<exists>!i. i < n \<and> (a + i) mod n = k"
proof (rule ex_ex1I)
  let ?i = "(k + (n - a mod n)) mod n"
  have "a mod n < n" using assms by simp
  have "(a + ?i) mod n = (a mod n + (k + (n - a mod n))) mod n" by (simp add: mod_simps)
  also have "a mod n + (k + (n - a mod n)) = k + n" using \<open>a mod n < n\<close> by simp
  finally show "\<exists>i. i < n \<and> (a + i) mod n = k" using assms by (intro exI [of _ ?i]) simp
next
  have le: "i = j" if "i \<le> j" "j < n" "(a + i) mod n = (a + j) mod n" for i j
  proof -
    have "n dvd (a + j) - (a + i)" using that mod_eq_dvd_iff_nat [of "a + i" "a + j" n] by simp
    then have "n dvd j - i" by simp
    then show ?thesis using that dvd_imp_le [of n "j - i"] by (cases "j - i = 0") auto
  qed
  fix i j assume "i < n \<and> (a + i) mod n = k" "j < n \<and> (a + j) mod n = k"
  then show "i = j" using le [of i j] le [of j i] by (cases "i \<le> j") auto
qed

lemma unat_slot:
  assumes "unat slot + i < 2 ^ 32" "unat a + unat slot + i < 2 ^ 64"
  shows "unat (a + ucast (slot + of_nat i :: 32 word) :: 64 word) = unat a + unat slot + i"
proof -
  have "unat (slot + of_nat i) = unat slot + i" using assms(1) by (simp add: unat_word_ariths unat_of_nat)
  moreover have "unat (ucast (slot + of_nat i :: 32 word) :: 64 word) = unat (slot + of_nat i)"
    using assms(1) by (simp add: unsigned_ucast_eq take_bit_nat_eq_self calculation)
  ultimately show ?thesis using assms(2) by (simp add: unat_word_ariths)
qed

text \<open>
  C12. No active witness is starved: after an election, every run of as many consecutive slots as
  there are active witnesses gives each of them exactly one slot.
\<close>

theorem every_witness_gets_a_slot:
  assumes "update_witness_schedule st = Inr st'" and "next_schedule_block_num (wso st) \<le> head_block_num st"
    and "u \<in> fst ` set (active_witnesses st')"
    and "unat slot + length (active_witnesses st') < 2 ^ 32"
    and "unat (current_aslot st') + unat slot + length (active_witnesses st') < 2 ^ 64"
  shows "\<exists>!i. i < length (active_witnesses st') \<and> get_scheduled_witness (slot + of_nat i) st' = Inr u"
proof -
  let ?ws = "current_shuffled_witnesses (wso st')" and ?n = "length (active_witnesses st')"
  note e = elected_witnesses [OF assms(1,2)]
  have set_ws: "set ?ws = fst ` set (active_witnesses st')" using arg_cong [OF e(3), of set_mset] by simp
  have len: "length ?ws = ?n" using arg_cong [OF e(3), of size] by simp
  have dist: "distinct ?ws"
    using e(1) mset_eq_imp_distinct_iff [OF e(3)] by (auto simp: elected_ok_def omap_ok_def strict_sorted_iff)
  obtain k where k: "k < ?n" "?ws ! k = u" using assms(3) set_ws len by (metis in_set_conv_nth)
  have "get_scheduled_witness (slot + of_nat i) st' = Inr u \<longleftrightarrow> (unat (current_aslot st') + unat slot + i) mod ?n = k"
    if "i < ?n" for i
  proof -
    have "get_scheduled_witness (slot + of_nat i) st' = Inr (?ws ! ((unat (current_aslot st') + unat slot + i) mod ?n))"
      using that assms(4,5) len unat_slot [of slot i "current_aslot st'"] by (auto simp: get_scheduled_witness_def Let_def)
    moreover have "(unat (current_aslot st') + unat slot + i) mod ?n < ?n" by (rule mod_less_divisor) (use k(1) in linarith)
    ultimately show ?thesis using k dist len nth_eq_iff_index_eq [of ?ws] by auto
  qed
  then have eq: "(i < ?n \<and> get_scheduled_witness (slot + of_nat i) st' = Inr u) \<longleftrightarrow>
      (i < ?n \<and> (unat (current_aslot st') + unat slot + i) mod ?n = k)" for i by blast
  show ?thesis unfolding eq by (rule ex1_shift_mod [OF k(1)])
qed

section \<open>Slot times\<close>

text \<open>The time of slot \<open>n\<close> on integers, where nothing wraps.\<close>

definition skipped_slots :: "schedule_state \<Rightarrow> nat" where
  "skipped_slots st = (if head_block_num st = 0 then 0
     else (if maintenance_flag st then unat (maintenance_skip_slots (parameters st)) else 0) +
       (if content_award_skip_flag st then unat (content_award_skip_slots (parameters st)) else 0))"

definition slot_base :: "schedule_state \<Rightarrow> nat" where
  "slot_base st = (let i = unat (block_interval (parameters st)); h = unat (head_block_time st)
     in if head_block_num st = 0 then h else h div i * i)"

definition slots_fit :: "nat \<Rightarrow> schedule_state \<Rightarrow> bool" where
  "slots_fit n st \<longleftrightarrow> 0 < unat (block_interval (parameters st)) \<and>
     slot_base st + (n + skipped_slots st) * unat (block_interval (parameters st)) < 2 ^ 32"

lemma unat_ucast8: "unat (ucast (w :: 8 word) :: 32 word) = unat w"
  using unsigned_less [of w, where 'a = nat] by (simp add: unsigned_ucast_eq take_bit_nat_eq_self)

lemma unat_mult_small: "unat a * unat b < 2 ^ 32 \<Longrightarrow> unat (a * b :: 32 word) = unat a * unat b"
  by (simp add: unat_word_ariths)

lemma unat_add_small: "unat a + unat b < 2 ^ 32 \<Longrightarrow> unat (a + b :: 32 word) = unat a + unat b"
  by (simp add: unat_word_ariths)

lemma get_slot_time_exact:
  assumes "0 < unat n" "slots_fit (unat n) st"
  shows "unat (get_slot_time n st) = slot_base st + (unat n + skipped_slots st) * unat (block_interval (parameters st))"
proof -
  let ?i = "unat (block_interval (parameters st))" and ?p = "parameters st"
  have i: "0 < ?i" and fit: "slot_base st + (unat n + skipped_slots st) * ?i < 2 ^ 32" using assms(2) by (simp_all add: slots_fit_def)
  have "unat n + skipped_slots st \<le> (unat n + skipped_slots st) * ?i" using i by simp
  with fit have cnt: "unat n + skipped_slots st < 2 ^ 32" by linarith
  have n0: "n \<noteq> 0" using assms(1) by auto
  show ?thesis
  proof (cases "head_block_num st = 0")
    case True
    then have base: "slot_base st = unat (head_block_time st)" and sk: "skipped_slots st = 0"
      by (simp_all add: slot_base_def skipped_slots_def)
    have "unat (n * ucast (block_interval ?p) :: 32 word) = unat n * ?i"
      using fit by (subst unat_mult_small) (simp_all add: unat_ucast8 sk)
    with fit True n0 base sk show ?thesis by (simp add: get_slot_time_def Let_def unat_add_small)
  next
    case False
    let ?m = "if maintenance_flag st then n + ucast (maintenance_skip_slots ?p) else n"
    let ?c = "if content_award_skip_flag st then ?m + ucast (content_award_skip_slots ?p) else ?m"
    let ?sm = "if maintenance_flag st then unat (maintenance_skip_slots ?p) else 0"
    have sk: "skipped_slots st = ?sm + (if content_award_skip_flag st then unat (content_award_skip_slots ?p) else 0)"
      using False by (simp add: skipped_slots_def)
    have "unat n + ?sm < 2 ^ 32" using cnt sk by linarith
    then have m: "unat ?m = unat n + ?sm"
      using unat_add_small [of n "ucast (maintenance_skip_slots ?p)"] by (auto simp: unat_ucast8)
    have c: "unat ?c = unat n + skipped_slots st"
      using cnt m sk unat_add_small [of ?m "ucast (content_award_skip_slots ?p)"] by (auto simp: unat_ucast8)
    let ?head = "head_block_time st div ucast (block_interval ?p) * ucast (block_interval ?p) :: 32 word"
    have "unat (head_block_time st) div ?i * ?i \<le> unat (head_block_time st)" by simp
    then have "unat (head_block_time st) div ?i * ?i < 2 ^ 32"
      using unsigned_less [of "head_block_time st", where 'a = nat] by (simp del: div_times_less_eq_dividend)
    then have "unat ?head = unat (head_block_time st) div ?i * ?i"
      by (subst unat_mult_small) (simp_all add: unat_div_distrib unat_ucast8)
    then have head: "unat ?head = slot_base st" using False by (simp add: slot_base_def Let_def)
    have prod: "unat (?c * ucast (block_interval ?p)) = (unat n + skipped_slots st) * ?i"
      using fit by (subst unat_mult_small) (simp_all add: unat_ucast8 c)
    have "get_slot_time n st = ?head + ?c * ucast (block_interval ?p)"
      using False n0 by (simp add: get_slot_time_def Let_def)
    then show ?thesis using fit unat_add_small [of ?head "?c * ucast (block_interval ?p)"] head prod by simp
  qed
qed

text \<open>
  C22. Slot numbers and slot times are inverse: any moment from the time of slot \<open>n\<close> until the next
  slot belongs to slot \<open>n\<close>, and later slots have later times.
\<close>

theorem slot_time_roundtrip:
  assumes "0 < unat n" "slots_fit (unat n + 1) st" "unat d < unat (block_interval (parameters st))"
  shows "get_slot_at_time (get_slot_time n st + d) st = n \<and>
    (\<forall>m. 0 < unat m \<and> unat m < unat n \<longrightarrow> get_slot_time m st < get_slot_time n st)"
proof
  let ?i = "unat (block_interval (parameters st))" and ?b = "slot_base st" and ?k = "skipped_slots st"
  have i: "0 < ?i" and fit: "?b + (unat n + 1 + ?k) * ?i < 2 ^ 32" using assms(2) by (simp_all add: slots_fit_def)
  have mono: "slots_fit j st" if "j \<le> unat n" for j
  proof -
    have "(j + ?k) * ?i \<le> (unat n + 1 + ?k) * ?i" using that by (intro mult_right_mono) simp_all
    then show ?thesis using fit i by (simp add: slots_fit_def)
  qed
  have tn: "unat (get_slot_time n st) = ?b + (unat n + ?k) * ?i" by (rule get_slot_time_exact [OF assms(1) mono]) simp
  have t1: "unat (get_slot_time 1 st) = ?b + (1 + ?k) * ?i"
    using get_slot_time_exact [of 1 st] mono [of 1] assms(1) by simp
  have tm: "unat (get_slot_time m st) = ?b + (unat m + ?k) * ?i" if "0 < unat m" "unat m < unat n" for m
    by (rule get_slot_time_exact [OF that(1) mono]) (use that in simp)
  then show "\<forall>m. 0 < unat m \<and> unat m < unat n \<longrightarrow> get_slot_time m st < get_slot_time n st"
    using tn i by (simp add: word_less_nat_alt)
  let ?w = "get_slot_time n st + d"
  have w: "unat ?w = ?b + (unat n + ?k) * ?i + unat d"
    using fit assms(3) tn by (subst unat_add_small) (simp_all add: algebra_simps)
  have "(1 + ?k) * ?i \<le> (unat n + ?k) * ?i" using assms(1) by (intro mult_right_mono) simp_all
  then have "?b + (1 + ?k) * ?i \<le> unat ?w" unfolding w by linarith
  then have le: "get_slot_time 1 st \<le> ?w" by (simp add: word_le_nat_alt t1)
  have sub: "unat (?w - get_slot_time 1 st) = (unat n - 1) * ?i + unat d"
  proof -
    have "unat (?w - get_slot_time 1 st) = unat ?w - unat (get_slot_time 1 st)" by (rule unat_sub [OF le])
    moreover have "unat n + ?k = (unat n - 1) + (1 + ?k)" using assms(1) by simp
    then have "(unat n + ?k) * ?i = (unat n - 1) * ?i + (1 + ?k) * ?i" by (metis add_mult_distrib)
    ultimately show ?thesis by (simp add: w t1)
  qed
  have "((unat n - 1) * ?i + unat d) div ?i = unat n - 1" using i assms(3) by simp
  then have "unat ((?w - get_slot_time 1 st) div ucast (block_interval (parameters st))) = unat n - 1"
    by (simp add: unat_div_distrib sub unat_ucast8)
  then have "unat ((?w - get_slot_time 1 st) div ucast (block_interval (parameters st)) + 1) = unat n"
    using assms(1) unsigned_less [of n, where 'a = nat] by (subst unat_add_small) simp_all
  moreover have "\<not> ?w < get_slot_time 1 st" using le by simp
  ultimately show "get_slot_at_time ?w st = n" by (simp add: get_slot_at_time_def Let_def word_unat_eq_iff)
qed

section \<open>Moving averages\<close>

lemma uint_mult128: "uint a * uint b < 2 ^ 128 \<Longrightarrow> uint (a * b :: 128 word) = uint a * uint b"
  by (simp add: uint_word_ariths)

lemma uint_ucast64: "uint x < 2 ^ 64 \<Longrightarrow> uint (ucast (x :: 128 word) :: 64 word) = uint x"
  by (simp add: unsigned_ucast_eq take_bit_int_eq_self)

lemma uint64_bound: "uint (a :: 64 word) < 2 ^ 64" and uint32_bound: "uint (b :: 32 word) < 2 ^ 32"
  using unsigned_less [of a, where 'a = int] unsigned_less [of b, where 'a = int] by simp_all

lemma uint_times_bound: "0 \<le> x \<Longrightarrow> x < 2 ^ 64 \<Longrightarrow> 0 \<le> y \<Longrightarrow> y < 2 ^ 32 \<Longrightarrow> x * y < (2 :: int) ^ 96"
  using mult_mono [of x "2 ^ 64 - 1" y "2 ^ 32 - 1"] by simp

text \<open>Both formulas of the moving average stay between the average and the target above it.\<close>

lemma moving_average_bounds:
  assumes le: "avg \<le> target" and order: "uint tgl \<le> uint al" "al < now" and win: "uint now < uint tgl + uint window" "uint window < 2 ^ 32"
  shows "avg \<le> moving_average hf window now avg al target tgl" "moving_average hf window now avg al target tgl \<le> target"
proof -
  let ?d = "uint now - uint al" and ?W = "uint window" and ?a = "uint avg" and ?t = "uint target"
  let ?delta = "ucast (now - al) :: 64 word"
  have d: "uint ?delta = ?d" using order(2) by (simp add: uint_ucast_up uint_seconds)
  have dpos: "0 < ?d" using order(2) by (simp add: word_less_def)
  have dW: "?d < ?W" using order win by linarith
  have at: "?a \<le> ?t" using le by (simp add: word_le_def)
  have bounds: "?a < 2 ^ 64" "?t < 2 ^ 64" by (rule uint64_bound)+
  have "?a \<le> uint (moving_average hf window now avg al target tgl) \<and> uint (moving_average hf window now avg al target tgl) \<le> ?t"
  proof (cases "hf < enable_head_fork_05")
    case True
    have old: "uint (window - ?delta) = ?W - ?d"
      using dW d by (subst uint_minus_simple_alt [THEN iffD1]) (simp_all add: word_le_def)
    have pb: "?a * (?W - ?d) < 2 ^ 96" "?t * ?d < 2 ^ 96"
      by (rule uint_times_bound; use dW dpos bounds win(2) uint_ge_0 [of avg] uint_ge_0 [of target] in linarith)+
    have o: "uint (ucast avg * ucast (window - ?delta) :: 128 word) = ?a * (?W - ?d)"
      using pb(1) by (subst uint_mult128) (simp_all add: uint_ucast_up old)
    have n: "uint (ucast target * ucast ?delta :: 128 word) = ?t * ?d"
      using pb(2) by (subst uint_mult128) (simp_all only: uint_ucast_up(1) d, simp_all)
    have "0 \<le> ?a * (?W - ?d)" "0 \<le> ?t * ?d" using dW dpos by simp_all
    then have sum: "uint (ucast avg * ucast (window - ?delta) + ucast target * ucast ?delta :: 128 word) = ?a * (?W - ?d) + ?t * ?d"
      using pb by (subst uint_word_ariths(1)) (simp add: o n)
    let ?q = "(?a * (?W - ?d) + ?t * ?d) div ?W"
    have q: "?a \<le> ?q" "?q \<le> ?t" using weighted_average_bounds [of ?W ?d ?a ?t] dW dpos at by simp_all
    have "uint ((ucast avg * ucast (window - ?delta) + ucast target * ucast ?delta :: 128 word) div ucast window) = ?q"
      by (simp only: uint_div_distrib sum uint_ucast_up)
    then have "uint (moving_average hf window now avg al target tgl) = ?q"
      using True q(2) bounds uint_ucast64 unfolding moving_average_def Let_def by simp
    then show ?thesis using q by simp
  next
    case False
    let ?T = "?W - (uint al - uint tgl)"
    have T: "?d < ?T" "?T \<le> ?W" using order win by linarith+
    have tot: "uint (window - word_of_int (uint al - uint tgl)) = ?T"
    proof -
      have "window - word_of_int (uint al - uint tgl) = word_of_int ?T" by simp
      moreover have "0 \<le> ?T" "?T < 2 ^ 64" using T dpos uint64_bound [of window] by linarith+
      ultimately show ?thesis by (simp only: uint_word_of_int) simp
    qed
    have diff: "uint (target - avg) = ?t - ?a" using le by (rule uint_minus_simple_alt [THEN iffD1])
    have pb: "(?t - ?a) * ?d < 2 ^ 96" using at bounds dpos dW win(2) uint_ge_0 [of avg] by (intro uint_times_bound) linarith+
    have prod: "uint ((ucast (target - avg) :: 128 word) * ucast ?delta) = (?t - ?a) * ?d"
      using pb by (subst uint_mult128) (simp_all only: uint_ucast_up(1) diff d, simp_all)
    let ?q = "(?t - ?a) * ?d div ?T"
    have "(?t - ?a) * ?d \<le> (?t - ?a) * ?T" using at T by (intro mult_left_mono) simp_all
    then have "?q \<le> (?t - ?a) * ?T div ?T" using T dpos by (intro zdiv_mono1) simp_all
    then have q: "0 \<le> ?q" "?q \<le> ?t - ?a" using T dpos at by (simp_all add: pos_imp_zdiv_nonneg_iff)
    have "uint (((ucast (target - avg) :: 128 word) * ucast ?delta) div ucast (window - word_of_int (uint al - uint tgl))) = ?q"
      by (simp only: uint_div_distrib prod uint_ucast_up(1) tot)
    moreover have "?q < 2 ^ 64" using q bounds uint_ge_0 [of avg] by linarith
    ultimately have u: "uint (ucast (((ucast (target - avg) :: 128 word) * ucast ?delta) div ucast (window - word_of_int (uint al - uint tgl))) :: 64 word) = ?q"
      by (simp only: uint_ucast64)
    have "?a + ?q < 2 ^ 64" using q bounds by linarith
    then have "uint (moving_average hf window now avg al target tgl) = ?a + ?q"
      using False q(1) u unfolding moving_average_def Let_def by (simp add: uint_word_ariths(1))
    then show ?thesis using q by simp
  qed
  then show "avg \<le> moving_average hf window now avg al target tgl" "moving_average hf window now avg al target tgl \<le> target"
    by (simp_all add: word_le_def)
qed

lemma approach_cases:
  fixes a p m r :: "'a :: linorder"
  assumes "a \<le> p \<Longrightarrow> \<not> due \<Longrightarrow> late \<Longrightarrow> a \<le> m \<and> m \<le> p"
    and "r = (if a = p then a else if p < a \<or> due then p else if late then m else a)"
  shows "(a \<le> p \<longrightarrow> a \<le> r \<and> r \<le> p) \<and> (p \<le> a \<or> due \<longrightarrow> r = p)"
  using assms by auto

text \<open>
  C24. A witness's average pledge rises towards its pledge without passing it, drops to the pledge at
  once when the pledge is lowered, and equals it once the pledge has stood for the whole window.
\<close>

theorem average_pledge_approaches:
  assumes "uint (pledge_last_update w) \<le> uint (average_pledge_last_update w)"
    and "uint (pledge_last_update w) + uint (max_witness_pledge_seconds (parameters st)) < 2 ^ 32"
  shows "let w' = average_pledge_step st w in
     (average_pledge w \<le> wit_pledge w \<longrightarrow> average_pledge w \<le> average_pledge w' \<and> average_pledge w' \<le> wit_pledge w) \<and>
     (wit_pledge w \<le> average_pledge w \<or> uint (pledge_last_update w) + uint (max_witness_pledge_seconds (parameters st)) \<le> uint (head_block_time st)
        \<longrightarrow> average_pledge w' = wit_pledge w)"
proof -
  let ?W = "max_witness_pledge_seconds (parameters st)" and ?now = "head_block_time st"
  let ?avg = "moving_average (dgp_hardfork_version st) ?W ?now (average_pledge w)
      (average_pledge_last_update w) (wit_pledge w) (pledge_last_update w)"
  have W: "uint ?W < 2 ^ 32" using assms(2) uint_ge_0 [of "pledge_last_update w"] by linarith
  then have uW: "uint (ucast ?W :: 32 word) = uint ?W" by (simp add: unsigned_ucast_eq take_bit_int_eq_self)
  have "uint (pledge_last_update w + ucast ?W) = uint (pledge_last_update w) + uint ?W"
    using assms(2) by (subst uint_word_ariths(1)) (simp add: uW)
  then have due: "pledge_last_update w + ucast ?W \<le> ?now \<longleftrightarrow> uint (pledge_last_update w) + uint ?W \<le> uint ?now"
    by (simp add: word_le_def)
  have avg: "average_pledge w \<le> ?avg \<and> ?avg \<le> wit_pledge w"
    if "average_pledge w \<le> wit_pledge w" "\<not> pledge_last_update w + ucast ?W \<le> ?now" "average_pledge_last_update w < ?now"
    using moving_average_bounds [OF that(1) assms(1) that(3) _ W] that(2) unfolding due by simp
  have step: "average_pledge (average_pledge_step st w) =
      (if average_pledge w = wit_pledge w then average_pledge w
       else if average_pledge w > wit_pledge w \<or> pledge_last_update w + ucast ?W \<le> ?now then wit_pledge w
       else if average_pledge_last_update w < ?now then ?avg else average_pledge w)"
    by (simp add: average_pledge_step_def Let_def)
  show ?thesis
    unfolding Let_def due [symmetric] by (rule approach_cases [OF avg step])
qed

text \<open>
  C36. The accumulated bonus per pledge is the sum of the recorded bonuses modulo \<open>2 ^ 32\<close>, read as a
  signed number: it is the true sum exactly as long as that stays within 31 bits.
\<close>

theorem accumulate_bonus_truncated:
  "sint (accumulate_bonus start_block_num w) =
     (sum_list (map snd (dropWhile (\<lambda>(k, _). k < start_block_num) (bonus_per_pledge w))) + 2 ^ 31) mod 2 ^ 32 - 2 ^ 31"
proof -
  have step: "(ucast (scast acc + word_of_int x :: 64 word) :: 32 word) = acc + word_of_int x" for acc :: "32 word" and x
  proof -
    have "(ucast (word_of_int k :: 64 word) :: 32 word) = word_of_int k" for k
    proof -
      have "(ucast (word_of_int k :: 64 word) :: 32 word) = word_of_int (take_bit 64 k)"
        unfolding ucast_eq uint_word_of_int_eq by simp
      moreover have "(word_of_int (take_bit 64 k) :: 32 word) = word_of_int k"
        by (rule word_of_int_eq_iff [THEN iffD2]) (simp add: take_bit_take_bit)
      ultimately show ?thesis by simp
    qed
    moreover have "(scast acc + word_of_int x :: 64 word) = word_of_int (sint acc + x)" by (simp only: scast_eq of_int_add)
    ultimately have "(ucast (scast acc + word_of_int x :: 64 word) :: 32 word) = word_of_int (sint acc + x)" by metis
    then show ?thesis by simp
  qed
  have "fold (\<lambda>(_, x) acc. ucast (scast acc + word_of_int x :: 64 word)) xs (acc :: 32 word) = acc + word_of_int (sum_list (map snd xs))"
    for xs :: "(32 word \<times> int) list" and acc
    by (induction xs arbitrary: acc) (auto simp: step)
  then have "accumulate_bonus start_block_num w = word_of_int (sum_list (map snd (dropWhile (\<lambda>(k, _). k < start_block_num) (bonus_per_pledge w))))"
    by (simp add: accumulate_bonus_def)
  moreover have "sint (word_of_int k :: 32 word) = (k + 2 ^ 31) mod 2 ^ 32 - 2 ^ 31" for k
    unfolding sint_uint uint_word_of_int_eq signed_take_bit_eq_take_bit_shift by (simp add: take_bit_eq_mod mod_add_left_eq)
  ultimately show ?thesis by simp
qed

section \<open>An example\<close>

definition example_witness :: "nat \<Rightarrow> account_uid_type \<Rightarrow> 64 word \<Rightarrow> 64 word \<Rightarrow> witness_object" where
  "example_witness i u v p = \<lparr>wit_id = i, account = u, wit_name = [], wit_sequence = 1, is_valid = True, signing_key = 1,
     wit_pledge = p, pledge_last_update = 0, average_pledge = 10, average_pledge_last_update = 0,
     average_pledge_next_update_block = 0, total_votes = v, by_pledge_position = 0, by_pledge_position_last_update = 0,
     by_pledge_scheduled_time = - 1 div (ucast p + 1), by_vote_position = 0, by_vote_position_last_update = 0,
     by_vote_scheduled_time = - 1 div (ucast v + 1), last_confirmed_block_num = 0, last_aslot = 0, total_produced = 0,
     total_missed = 0, wit_url = [], can_pledge = False, bonus_rate = 0, wit_total_mining_pledge = 0, bonus_per_pledge = [],
     unhandled_bonus = 0, need_distribute_bonus = 0, already_distribute_bonus = 0, last_update_bonus_block_num = 0\<rparr>"

definition example_schedule :: schedule_state where
  "example_schedule = \<lparr>witnesses = [example_witness 0 11 500 100, example_witness 1 22 900 50, example_witness 2 33 200 4000],
     wso = \<lparr>next_schedule_block_num = 5, current_by_pledge_time = 0, current_by_vote_time = 0, current_shuffled_witnesses = []\<rparr>,
     parameters = \<lparr>block_interval = 3, maintenance_skip_slots = 2, content_award_skip_slots = 1, by_vote_top_witness_count = 1,
        by_vote_rest_witness_count = 1, by_pledge_witness_count = 1, min_witness_block_produce_pledge = 1000,
        max_witness_pledge_seconds = 1000, witness_avg_pledge_update_interval = 10, by_pledge_witness_pay_per_block_param = 0\<rparr>,
     active_witnesses = [], head_block_num = 5, head_block_time = 100, current_aslot = 40, recent_slots_filled = - 1,
     maintenance_flag = True, content_award_skip_flag = False, dgp_hardfork_version = 2, total_witness_pledge = 4150,
     by_pledge_witness_pay_per_block = 0\<rparr>"

definition example_updated :: "schedule_state result" where
  "example_updated = update_witness_schedule example_schedule"

lemma example_updated_ok: "\<exists>st'. update_witness_schedule example_schedule = Inr st' \<and> length (active_witnesses st') = 3 \<and>
    22 \<in> fst ` set (active_witnesses st') \<and> current_aslot st' = 40"
proof -
  have "\<not> isl example_updated \<and> length (active_witnesses (projr example_updated)) = 3 \<and>
      22 \<in> fst ` set (active_witnesses (projr example_updated)) \<and> current_aslot (projr example_updated) = 40" by code_simp
  then show ?thesis by (metis example_updated_def sum.collapse(2))
qed

lemma example_due: "next_schedule_block_num (wso example_schedule) \<le> head_block_num example_schedule"
  by (simp add: example_schedule_def)

theorem witness_schedule_elects_witness:
  "\<exists>st'. update_witness_schedule example_schedule = Inr st' \<and> distinct (current_shuffled_witnesses (wso st')) \<and>
    length (active_witnesses st') = 3"
proof -
  obtain st' where st': "update_witness_schedule example_schedule = Inr st'" "length (active_witnesses st') = 3"
    using example_updated_ok by blast
  from witness_schedule_elects [OF st'(1) example_due] st' show ?thesis by blast
qed

theorem every_witness_gets_a_slot_witness:
  "\<exists>st'. update_witness_schedule example_schedule = Inr st' \<and>
    (\<exists>!i. i < length (active_witnesses st') \<and> get_scheduled_witness (7 + of_nat i) st' = Inr 22)"
proof -
  obtain st' where st': "update_witness_schedule example_schedule = Inr st'" "length (active_witnesses st') = 3"
    "22 \<in> fst ` set (active_witnesses st')" "current_aslot st' = 40"
    using example_updated_ok by blast
  have "\<exists>!i. i < length (active_witnesses st') \<and> get_scheduled_witness (7 + of_nat i) st' = Inr 22"
    by (rule every_witness_gets_a_slot [OF st'(1) example_due st'(3)]) (simp_all add: st'(2,4))
  with st'(1) show ?thesis by blast
qed

theorem slot_time_roundtrip_witness:
  "get_slot_time 4 example_schedule = 117 \<and> get_slot_at_time (get_slot_time 4 example_schedule + 2) example_schedule = 4"
proof -
  have "slots_fit (unat (4 :: 32 word) + 1) example_schedule"
    by (simp add: slots_fit_def slot_base_def skipped_slots_def example_schedule_def Let_def)
  moreover have "get_slot_time 4 example_schedule = 117" by code_simp
  ultimately show ?thesis using slot_time_roundtrip [of 4 example_schedule 2] by (simp add: example_schedule_def)
qed

theorem average_pledge_approaches_witness:
  "average_pledge (average_pledge_step example_schedule (example_witness 0 11 500 100)) = 19 \<and>
   average_pledge (average_pledge_step example_schedule (example_witness 0 11 500 100)) \<le> 100"
proof -
  have "average_pledge (average_pledge_step example_schedule (example_witness 0 11 500 100)) = 19" by code_simp
  then show ?thesis
    using average_pledge_approaches [of "example_witness 0 11 500 100" example_schedule]
    by (simp add: example_schedule_def example_witness_def Let_def)
qed

end
