(* ===== verification/Voting.thy ===== *)
theory Voting
  imports Witness_Schedule
begin

text \<open>
  Governance votes: \<^verbatim>\<open>db_voter.cpp\<close> and \<^verbatim>\<open>voter_object\<close> of \<^verbatim>\<open>account_object.hpp\<close>. A voter votes for
  witnesses, committee members and platforms directly, or passes its votes on to a proxy, up to a
  number of levels. A change of a voter's effective votes travels along the proxies to the voter that
  votes directly, and from there to everything that one votes for. Objects are rows of lists; a row
  is found and modified by its key, as through the container's unique index. Dereferencing a voter
  that is not found, or indexing a vector out of range, is undefined behaviour.
\<close>

section \<open>Objects\<close>

record voter_object =
  uid :: account_uid_type
  sequence :: "32 word"
  voter_is_valid :: bool
  votes :: "64 word"
  votes_last_update :: "32 word"
  effective_votes :: "64 word"
  effective_votes_last_update :: "32 word"
  effective_votes_next_update_block :: "32 word"
  proxy_uid :: account_uid_type
  proxy_sequence :: "32 word"
  proxied_voters :: "64 word"
  proxied_votes :: "64 word list"
  proxy_last_vote_block :: "32 word list"
  effective_last_vote_block :: "32 word"
  number_of_witnesses_voted :: "16 word"
  number_of_platform_voted :: "16 word"
  number_of_committee_members_voted :: "16 word"

text \<open>A vote for a witness, a committee member or a platform; the three classes have the same shape.\<close>

record vote_object =
  voter_uid :: account_uid_type
  voter_sequence :: "32 word"
  target_uid :: account_uid_type
  target_sequence :: "32 word"

text \<open>The fields of a committee member or platform that voting reads and writes.\<close>

record votable_object =
  votable_account :: account_uid_type
  votable_sequence :: "32 word"
  votable_is_valid :: bool
  votable_total_votes :: "64 word"

record voting_parameters =
  sha256_word :: "64 word \<Rightarrow> 64 word"
  max_governance_voting_proxy_level :: "8 word"
  governance_voting_expiration_blocks :: "32 word"
  governance_votes_update_interval :: "32 word"
  max_governance_votes_seconds :: "64 word"

record referral =
  referrer :: account_uid_type
  referrer_by_platform :: "32 word"

record voting_state =
  sched :: schedule_state
  voters :: "voter_object list"
  witness_votes :: "vote_object list"
  committee_members :: "votable_object list"
  committee_member_votes :: "vote_object list"
  platforms :: "votable_object list"
  platform_votes :: "vote_object list"
  referrals :: "(account_uid_type \<times> referral) list"
  is_voter_flags :: "(account_uid_type \<times> bool) list"
  vparams :: voting_parameters

definition proxy_to_self_uid :: "voting_state \<Rightarrow> account_uid_type" where
  "proxy_to_self_uid st = calc_account_uid (sha256_word (vparams st)) 0"

definition voter_total_votes :: "voter_object \<Rightarrow> 64 word" where
  "voter_total_votes v = fold (+) (proxied_votes v) (effective_votes v)"

definition update_effective_last_vote_block :: "voter_object \<Rightarrow> voter_object result" where
  "update_effective_last_vote_block v =
     (if proxy_last_vote_block v = [] then Inl (Undefined_Behaviour ''max_element of an empty vector'')
      else Inr (v\<lparr>effective_last_vote_block := fold max (tl (proxy_last_vote_block v)) (hd (proxy_last_vote_block v))\<rparr>))"

definition find_voter :: "account_uid_type \<Rightarrow> 32 word \<Rightarrow> voting_state \<Rightarrow> voter_object option" where
  "find_voter u s st = find (\<lambda>v. uid v = u \<and> sequence v = s) (voters st)"

definition get_voter :: "account_uid_type \<Rightarrow> 32 word \<Rightarrow> voting_state \<Rightarrow> voter_object result" where
  "get_voter u s st = option_or (Undefined_Behaviour ''null voter dereferenced'') (find_voter u s st)"

definition modify_voter :: "voter_object \<Rightarrow> (voter_object \<Rightarrow> voter_object) \<Rightarrow> voting_state \<Rightarrow> voting_state" where
  "modify_voter k f st =
     st\<lparr>voters := map (\<lambda>v. if uid v = uid k \<and> sequence v = sequence k then f v else v) (voters st)\<rparr>"

definition find_votable :: "account_uid_type \<Rightarrow> votable_object list \<Rightarrow> votable_object option" where
  "find_votable u xs = find (\<lambda>c. votable_is_valid c \<and> votable_account c = u) xs"

definition adjust_votable :: "votable_object \<Rightarrow> int \<Rightarrow> votable_object list \<Rightarrow> votable_object list" where
  "adjust_votable c delta xs =
     (if delta = 0 \<or> \<not> votable_is_valid c then xs
      else map (\<lambda>x. if votable_account x = votable_account c \<and> votable_sequence x = votable_sequence c
             then x\<lparr>votable_total_votes := votable_total_votes x + word_of_int delta\<rparr> else x) xs)"

definition adjust_committee_member_votes :: "votable_object \<Rightarrow> int \<Rightarrow> voting_state \<Rightarrow> voting_state" where
  "adjust_committee_member_votes c delta st = st\<lparr>committee_members := adjust_votable c delta (committee_members st)\<rparr>"

definition adjust_platform_votes :: "votable_object \<Rightarrow> int \<Rightarrow> voting_state \<Rightarrow> voting_state" where
  "adjust_platform_votes c delta st = st\<lparr>platforms := adjust_votable c delta (platforms st)\<rparr>"

section \<open>Votes of a voter that votes directly\<close>

text \<open>The rows of a voter in the order of the index (voter, target).\<close>

definition rows_of :: "voter_object \<Rightarrow> vote_object list \<Rightarrow> vote_object list" where
  "rows_of v rows = sort_key (\<lambda>r. (target_uid r, target_sequence r))
     (filter (\<lambda>r. voter_uid r = uid v \<and> voter_sequence r = sequence v) rows)"

text \<open>
  One pass over the rows: where the target is still the one voted for, \<open>adj\<close> changes its votes;
  otherwise the row is stale and collected for removal.
\<close>

fun adjust_rows :: "(vote_object \<Rightarrow> voting_state \<Rightarrow> voting_state option) \<Rightarrow> vote_object list \<Rightarrow> voting_state \<Rightarrow>
    voting_state \<times> vote_object list" where
  "adjust_rows adj [] st = (st, [])"
| "adjust_rows adj (r # rs) st =
     (case adj r st of
        Some st' \<Rightarrow> adjust_rows adj rs st'
      | None \<Rightarrow> (let (st', stale) = adjust_rows adj rs st in (st', r # stale)))"

definition adjust_witness_row :: "int \<Rightarrow> vote_object \<Rightarrow> voting_state \<Rightarrow> voting_state option" where
  "adjust_witness_row delta r st =
     (case find_witness_by_uid (target_uid r) (sched st) of
        Some w \<Rightarrow> if wit_sequence w = target_sequence r
          then Some (st\<lparr>sched := adjust_witness_votes w delta (sched st)\<rparr>) else None
      | None \<Rightarrow> None)"

definition adjust_platform_row :: "int \<Rightarrow> vote_object \<Rightarrow> voting_state \<Rightarrow> voting_state option" where
  "adjust_platform_row delta r st =
     (case find_votable (target_uid r) (platforms st) of
        Some p \<Rightarrow> if votable_sequence p = target_sequence r then Some (adjust_platform_votes p delta st) else None
      | None \<Rightarrow> None)"

definition adjust_committee_row :: "int \<Rightarrow> vote_object \<Rightarrow> voting_state \<Rightarrow> voting_state option" where
  "adjust_committee_row delta r st =
     (case find_votable (target_uid r) (committee_members st) of
        Some c \<Rightarrow> if votable_sequence c = target_sequence r then Some (adjust_committee_member_votes c delta st) else None
      | None \<Rightarrow> None)"

definition adjust_voter_self_witness_votes :: "voter_object \<Rightarrow> int \<Rightarrow> voting_state \<Rightarrow> voting_state" where
  "adjust_voter_self_witness_votes v delta st =
     (let (st, stale) = adjust_rows (adjust_witness_row delta) (rows_of v (witness_votes st)) st;
          st = st\<lparr>witness_votes := filter (\<lambda>r. r \<notin> set stale) (witness_votes st)\<rparr>
      in if stale \<noteq> []
         then modify_voter v (\<lambda>v. v\<lparr>number_of_witnesses_voted := number_of_witnesses_voted v - of_nat (length stale)\<rparr>) st
         else st)"

definition adjust_voter_self_platform_votes :: "voter_object \<Rightarrow> int \<Rightarrow> voting_state \<Rightarrow> voting_state" where
  "adjust_voter_self_platform_votes v delta st =
     (let (st, stale) = adjust_rows (adjust_platform_row delta) (rows_of v (platform_votes st)) st;
          st = st\<lparr>platform_votes := filter (\<lambda>r. r \<notin> set stale) (platform_votes st)\<rparr>
      in if stale \<noteq> []
         then modify_voter v (\<lambda>v. v\<lparr>number_of_platform_voted := number_of_platform_voted v - of_nat (length stale)\<rparr>) st
         else st)"

definition adjust_voter_self_committee_member_votes :: "voter_object \<Rightarrow> int \<Rightarrow> voting_state \<Rightarrow> voting_state" where
  "adjust_voter_self_committee_member_votes v delta st =
     (let (st, stale) = adjust_rows (adjust_committee_row delta) (rows_of v (committee_member_votes st)) st;
          st = st\<lparr>committee_member_votes := filter (\<lambda>r. r \<notin> set stale) (committee_member_votes st)\<rparr>
      in if stale \<noteq> []
         then modify_voter v (\<lambda>v. v\<lparr>number_of_committee_members_voted :=
                number_of_committee_members_voted v - of_nat (length stale)\<rparr>) st
         else st)"

definition adjust_voter_self_votes :: "voter_object \<Rightarrow> int \<Rightarrow> voting_state \<Rightarrow> voting_state" where
  "adjust_voter_self_votes v delta st =
     adjust_voter_self_platform_votes v delta
       (adjust_voter_self_committee_member_votes v delta (adjust_voter_self_witness_votes v delta st))"

section \<open>Along the proxies\<close>

definition max_level :: "voting_state \<Rightarrow> nat" where
  "max_level st = unat (max_governance_voting_proxy_level (vparams st))"

definition add_proxied :: "nat \<Rightarrow> int \<Rightarrow> voter_object \<Rightarrow> voter_object" where
  "add_proxied level delta v =
     v\<lparr>proxied_votes := (proxied_votes v)[level := proxied_votes v ! level + word_of_int delta]\<rparr>"

text \<open>The first argument counts the levels left; the result is the last voter reached.\<close>

fun climb :: "nat \<Rightarrow> nat \<Rightarrow> int \<Rightarrow> voter_object \<Rightarrow> voting_state \<Rightarrow> (voter_object \<times> voting_state) result" where
  "climb 0 level delta v st = Inr (v, st)"
| "climb (Suc n) level delta v st =
     (if proxy_uid v = proxy_to_self_uid st then Inr (v, st)
      else bindE (get_voter (proxy_uid v) (proxy_sequence v) st) (\<lambda>p.
        if level < length (proxied_votes p)
        then climb n (Suc level) delta (add_proxied level delta p) (modify_voter p (add_proxied level delta) st)
        else Inl (Undefined_Behaviour ''vector index out of range'')))"

definition adjust_referral :: "account_uid_type \<Rightarrow> int \<Rightarrow> voting_state \<Rightarrow> voting_state result" where
  "adjust_referral u delta st =
     bindE (option_or (Assert_Exception ''account not found.'') (map_of (referrals st) u)) (\<lambda>ant.
       Inr (if referrer_by_platform ant \<noteq> 0
            then case find (\<lambda>p. votable_is_valid p \<and> votable_account p = referrer ant \<and>
                       votable_sequence p = referrer_by_platform ant) (platforms st) of
                   Some plat \<Rightarrow> adjust_platform_votes plat delta st
                 | None \<Rightarrow> st
            else st))"

definition adjust_voter_votes :: "voter_object \<Rightarrow> int \<Rightarrow> voting_state \<Rightarrow> voting_state result" where
  "adjust_voter_votes v delta st =
     bindE (climb (max_level st) 0 delta v st) (\<lambda>(root, st).
       adjust_referral (uid v) delta
         (if proxy_uid root = proxy_to_self_uid st then adjust_voter_self_votes root delta st else st))"

section \<open>Effective votes\<close>

definition effective_votes_step :: "voting_state \<Rightarrow> voter_object \<Rightarrow> voter_object" where
  "effective_votes_step st v =
     (let now = head_block_time (sched st); window = max_governance_votes_seconds (vparams st);
          next = head_block_num (sched st) + governance_votes_update_interval (vparams st)
      in if effective_votes v = votes v
         then v\<lparr>effective_votes_last_update := now, effective_votes_next_update_block := - 1\<rparr>
         else if effective_votes v > votes v \<or> now \<ge> votes_last_update v + ucast window
         then v\<lparr>effective_votes := votes v, effective_votes_last_update := now, effective_votes_next_update_block := - 1\<rparr>
         else if now > effective_votes_last_update v
         then v\<lparr>effective_votes := moving_average (dgp_hardfork_version (sched st)) window now (effective_votes v)
                  (effective_votes_last_update v) (votes v) (votes_last_update v),
                effective_votes_last_update := now, effective_votes_next_update_block := next\<rparr>
         else v\<lparr>effective_votes_next_update_block := next\<rparr>)"

definition update_voter_effective_votes :: "safe_ops \<Rightarrow> voter_object \<Rightarrow> voting_state \<Rightarrow> voting_state result" where
  "update_voter_effective_votes fc v st =
     (let v' = effective_votes_step st v; st' = modify_voter v (effective_votes_step st) st
      in if effective_votes v \<noteq> effective_votes v'
         then bindE (ssub fc (sint (effective_votes v')) (sint (effective_votes v))) (\<lambda>delta. adjust_voter_votes v' delta st')
         else Inr st')"

section \<open>Changing and clearing votes passed on to a proxy\<close>

text \<open>\<open>delta\<close> holds the voter's own votes and those passed on to it, by level.\<close>

definition add_deltas :: "nat \<Rightarrow> nat \<Rightarrow> int list \<Rightarrow> voter_object \<Rightarrow> voter_object" where
  "add_deltas mx level delta v =
     v\<lparr>proxied_votes := fold (\<lambda>j xs. xs[j := xs ! j + word_of_int (delta ! (j - level))]) [level..<mx] (proxied_votes v)\<rparr>"

fun climb_proxies :: "nat \<Rightarrow> nat \<Rightarrow> nat \<Rightarrow> int list \<Rightarrow> voter_object \<Rightarrow> voter_object list \<Rightarrow> voting_state \<Rightarrow>
    (voter_object \<times> nat \<times> voter_object list \<times> voting_state) result" where
  "climb_proxies 0 level mx delta v path st = Inr (v, level, path, st)"
| "climb_proxies (Suc n) level mx delta v path st =
     bindE (get_voter (proxy_uid v) (proxy_sequence v) st) (\<lambda>p.
       if length (proxied_votes p) < mx \<or> length delta < mx - level
       then Inl (Undefined_Behaviour ''vector index out of range'')
       else let p' = add_deltas mx level delta p; st' = modify_voter p (add_deltas mx level delta) st
            in if proxy_uid p' = proxy_to_self_uid st then Inr (p', level, path @ [p'], st')
               else climb_proxies n (Suc level) mx delta p' (path @ [p']) st')"

definition inherit_last_votes :: "nat \<Rightarrow> voter_object \<Rightarrow> voter_object \<Rightarrow> voter_object result" where
  "inherit_last_votes mx parent v =
     (if length (proxy_last_vote_block v) \<le> mx \<or> length (proxy_last_vote_block parent) < mx
      then Inl (Undefined_Behaviour ''vector index out of range'')
      else update_effective_last_vote_block (v\<lparr>proxy_last_vote_block :=
             take 1 (proxy_last_vote_block v) @ take mx (proxy_last_vote_block parent) @ drop (Suc mx) (proxy_last_vote_block v)\<rparr>))"

text \<open>From the end of the path backwards, each voter takes over the vote blocks of its proxy.\<close>

fun update_last_votes :: "nat \<Rightarrow> voter_object list \<Rightarrow> voting_state \<Rightarrow> voting_state result" where
  "update_last_votes mx (parent # child # rest) st =
     bindE (get_voter (uid parent) (sequence parent) st) (\<lambda>pl.
     bindE (get_voter (uid child) (sequence child) st) (\<lambda>cl.
     bindE (inherit_last_votes mx pl cl) (\<lambda>c.
       update_last_votes mx (child # rest) (modify_voter child (\<lambda>_. c) st))))"
| "update_last_votes mx _ st = Inr st"

definition adjust_voter_proxy_votes :: "safe_ops \<Rightarrow> voter_object \<Rightarrow> int list \<Rightarrow> bool \<Rightarrow> voting_state \<Rightarrow> voting_state result" where
  "adjust_voter_proxy_votes fc v delta update_last_vote st =
     (let mx = max_level st
      in bindE (climb_proxies mx 0 mx delta v [v] st) (\<lambda>(root, level, path, st).
         bindE (if update_last_vote then update_last_votes mx (rev path) st else Inr st) (\<lambda>st.
           if proxy_uid root = proxy_to_self_uid st
           then bindE (foldE (\<lambda>j t. sadd fc t (delta ! (j - level))) [level..<mx] 0) (\<lambda>total_delta.
                  Inr (adjust_voter_self_votes root total_delta st))
           else Inr st)))"

definition clear_row :: "safe_ops \<Rightarrow> int \<Rightarrow> (int \<Rightarrow> vote_object \<Rightarrow> voting_state \<Rightarrow> voting_state option) \<Rightarrow>
    vote_object \<Rightarrow> voting_state \<Rightarrow> voting_state result" where
  "clear_row fc tot adj r st =
     (if adj 0 r st = None then Inr st
      else bindE (sneg fc tot) (\<lambda>d. Inr (case adj d r st of Some st' \<Rightarrow> st' | None \<Rightarrow> st)))"

definition clear_voter_witness_votes :: "safe_ops \<Rightarrow> voter_object \<Rightarrow> voting_state \<Rightarrow> voting_state result" where
  "clear_voter_witness_votes fc v st =
     (let tot = sint (voter_total_votes v); rows = rows_of v (witness_votes st)
      in bindE (foldE (clear_row fc tot adjust_witness_row) rows st) (\<lambda>st.
           Inr (modify_voter v (\<lambda>v. v\<lparr>number_of_witnesses_voted := 0\<rparr>)
             (st\<lparr>witness_votes := filter (\<lambda>r. r \<notin> set rows) (witness_votes st)\<rparr>))))"

definition clear_voter_platform_votes :: "safe_ops \<Rightarrow> voter_object \<Rightarrow> voting_state \<Rightarrow> voting_state result" where
  "clear_voter_platform_votes fc v st =
     (let tot = sint (voter_total_votes v); rows = rows_of v (platform_votes st)
      in bindE (foldE (clear_row fc tot adjust_platform_row) rows st) (\<lambda>st.
           Inr (modify_voter v (\<lambda>v. v\<lparr>number_of_platform_voted := 0\<rparr>)
             (st\<lparr>platform_votes := filter (\<lambda>r. r \<notin> set rows) (platform_votes st)\<rparr>))))"

definition clear_voter_committee_member_votes :: "safe_ops \<Rightarrow> voter_object \<Rightarrow> voting_state \<Rightarrow> voting_state result" where
  "clear_voter_committee_member_votes fc v st =
     (let tot = sint (voter_total_votes v); rows = rows_of v (committee_member_votes st)
      in bindE (foldE (clear_row fc tot adjust_committee_row) rows st) (\<lambda>st.
           Inr (modify_voter v (\<lambda>v. v\<lparr>number_of_committee_members_voted := 0\<rparr>)
             (st\<lparr>committee_member_votes := filter (\<lambda>r. r \<notin> set rows) (committee_member_votes st)\<rparr>))))"

fun negate_all :: "safe_ops \<Rightarrow> 64 word list \<Rightarrow> int list result" where
  "negate_all fc [] = Inr []"
| "negate_all fc (x # xs) = bindE (sneg fc (sint x)) (\<lambda>d. bindE (negate_all fc xs) (\<lambda>ds. Inr (d # ds)))"

definition clear_voter_proxy_votes :: "safe_ops \<Rightarrow> voter_object \<Rightarrow> voting_state \<Rightarrow> voting_state result" where
  "clear_voter_proxy_votes fc v st =
     fc_assert (proxy_uid v \<noteq> proxy_to_self_uid st) ''voter.proxy_uid != GRAPHENE_PROXY_TO_SELF_ACCOUNT_UID''
     (let mx = max_level st
      in if mx = 0 \<or> length (proxied_votes v) < mx - 1 then Inl (Undefined_Behaviour ''vector index out of range'')
         else bindE (negate_all fc (effective_votes v # take (mx - 1) (proxied_votes v))) (\<lambda>delta.
           adjust_voter_proxy_votes fc v delta True st))"

text \<open>The voter is an object of the database: each step sees it as the previous one left it.\<close>

definition clear_voter_votes :: "safe_ops \<Rightarrow> voter_object \<Rightarrow> voting_state \<Rightarrow> voting_state result" where
  "clear_voter_votes fc v st =
     (if proxy_uid v = proxy_to_self_uid st
      then bindE (clear_voter_witness_votes fc v st) (\<lambda>st.
           bindE (clear_voter_committee_member_votes fc v st) (clear_voter_platform_votes fc v))
      else clear_voter_proxy_votes fc v st)"

definition set_is_voter :: "account_uid_type \<Rightarrow> bool \<Rightarrow> voting_state \<Rightarrow> voting_state result" where
  "set_is_voter u b st =
     (if map_of (is_voter_flags st) u = None then Inl (Assert_Exception ''account not found.'')
      else Inr (st\<lparr>is_voter_flags := AList.update u b (is_voter_flags st)\<rparr>))"

definition retire_voter :: "voting_state \<Rightarrow> voter_object \<Rightarrow> voter_object" where
  "retire_voter st v = v\<lparr>voter_is_valid := False, votes := 0, votes_last_update := head_block_time (sched st),
     effective_votes := 0, effective_votes_last_update := head_block_time (sched st),
     effective_votes_next_update_block := - 1\<rparr>"

definition invalidate_voter :: "safe_ops \<Rightarrow> voter_object \<Rightarrow> voting_state \<Rightarrow> voting_state result" where
  "invalidate_voter fc v st =
     (if \<not> voter_is_valid v then Inr st
      else bindE (clear_voter_votes fc v st) (\<lambda>st.
           bindE (if proxy_uid v \<noteq> proxy_to_self_uid st
                  then bindE (get_voter (proxy_uid v) (proxy_sequence v) st) (\<lambda>p.
                    Inr (modify_voter p (\<lambda>p. p\<lparr>proxied_voters := proxied_voters p - 1\<rparr>) st))
                  else Inr st) (\<lambda>st.
           bindE (set_is_voter (uid v) False st) (\<lambda>st.
             Inr (modify_voter v (\<lambda>v. let v = retire_voter st v
               in if proxy_uid v \<noteq> proxy_to_self_uid st then v\<lparr>proxy_uid := proxy_to_self_uid st, proxy_sequence := 0\<rparr> else v) st)))))"

section \<open>Validity\<close>

fun check_levels :: "nat \<Rightarrow> 32 word \<Rightarrow> voter_object \<Rightarrow> voting_state \<Rightarrow> bool result" where
  "check_levels level m v st =
     (if \<exists>b\<in>set (take (Suc level) (proxy_last_vote_block v)). b > m then Inr True
      else if length (proxy_last_vote_block v) \<le> level then Inl (Undefined_Behaviour ''vector index out of range'')
      else if proxy_uid v = proxy_to_self_uid st then Inr False
      else case level of
          0 \<Rightarrow> Inr False
        | Suc l \<Rightarrow> (case find_voter (proxy_uid v) (proxy_sequence v) st of
            None \<Rightarrow> Inr False
          | Some p \<Rightarrow> check_levels l m p st))"

definition check_voter_valid :: "voter_object \<Rightarrow> bool \<Rightarrow> voting_state \<Rightarrow> bool result" where
  "check_voter_valid v deep_check st =
     (if \<not> deep_check then Inr (voter_is_valid v)
      else if \<not> voter_is_valid v then Inr False
      else let expire_blocks = governance_voting_expiration_blocks (vparams st); head_num = head_block_num (sched st)
           in if head_num < expire_blocks then Inr True
              else check_levels (max_level st) (head_num - expire_blocks) v st)"

section \<open>Voters of an invalid proxy\<close>

definition proxy_key :: "voter_object \<Rightarrow> account_uid_type \<times> 32 word \<times> account_uid_type \<times> 32 word" where
  "proxy_key v = (proxy_uid v, proxy_sequence v, uid v, sequence v)"

definition first_by_proxy :: "(voter_object \<Rightarrow> bool) \<Rightarrow> voting_state \<Rightarrow> voter_object option" where
  "first_by_proxy q st = (case filter q (sort_key proxy_key (voters st)) of [] \<Rightarrow> None | v # _ \<Rightarrow> Some v)"

definition leave_proxy :: "voting_state \<Rightarrow> voter_object \<Rightarrow> voter_object \<Rightarrow> voter_object result" where
  "leave_proxy st proxy v =
     bindE (inherit_last_votes (max_level st) proxy v) (\<lambda>v.
       let v = (if voter_is_valid v \<and>
                   effective_last_vote_block v + governance_voting_expiration_blocks (vparams st) \<le> head_block_num (sched st)
                then retire_voter st v else v)
       in Inr (v\<lparr>proxy_uid := proxy_to_self_uid st, proxy_sequence := 0\<rparr>))"

text \<open>
  Changing a voter's proxy moves its row in the index that is being iterated: the next row is the one
  after its new place. The first argument counts how many may still be processed.
\<close>

fun leave_loop :: "nat \<Rightarrow> voter_object \<Rightarrow> voter_object option \<Rightarrow> nat \<Rightarrow> voting_state \<Rightarrow> (nat \<times> voting_state) result" where
  "leave_loop 0 proxy itr processed st = Inr (processed, st)"
| "leave_loop (Suc n) proxy itr processed st =
     (case itr of
        None \<Rightarrow> Inr (processed, st)
      | Some v \<Rightarrow>
          if proxy_uid v = uid proxy \<and> proxy_sequence v = sequence proxy
          then bindE (leave_proxy st proxy v) (\<lambda>v'.
               let st = modify_voter v (\<lambda>_. v') st
               in bindE (if voter_is_valid v \<and> \<not> voter_is_valid v' then set_is_voter (uid v) False st else Inr st) (\<lambda>st.
                    leave_loop n proxy (first_by_proxy (\<lambda>x. proxy_key x > proxy_key v') st) (Suc processed) st))
          else Inr (processed, st))"

definition process_invalid_proxied_voters :: "voter_object \<Rightarrow> 32 word \<Rightarrow> voting_state \<Rightarrow> (32 word \<times> voting_state) result" where
  "process_invalid_proxied_voters proxy max_voters_to_process st =
     (if max_voters_to_process = 0 then Inr (0, st)
      else fc_assert (\<not> voter_is_valid proxy) ''This function should only be called with an invalid proxy''
        (bindE (leave_loop (unat max_voters_to_process) proxy
                  (first_by_proxy (\<lambda>x. (proxy_uid x, proxy_sequence x) \<ge> (uid proxy, sequence proxy)) st) 0 st) (\<lambda>(processed, st).
         let st = (if processed > 0
                   then modify_voter proxy (\<lambda>v. v\<lparr>proxied_voters := proxied_voters v - of_nat processed\<rparr>) st else st)
         in bindE (get_voter (uid proxy) (sequence proxy) st) (\<lambda>p.
              Inr (of_nat processed,
                if proxied_voters p = 0
                then st\<lparr>voters := filter (\<lambda>v. \<not> (uid v = uid p \<and> sequence v = sequence p)) (voters st)\<rparr>
                else st)))))"

end
