(* ===== verification/Voting_Correct.thy ===== *)
theory Voting_Correct
  imports Voting Schedule_Correct
begin

text \<open>
  The tally: a valid witness has exactly the votes of the voters that vote for it, each counted with
  its own effective votes and the votes passed on to it. Updating a voter's effective votes keeps the
  tally, whatever chain of proxies stands between the voter and the witness, and so does clearing the
  votes of a voter. Votes are 64-bit words, so the statement is modulo \<open>2 ^ 64\<close>.
\<close>

declare check_levels.simps [simp del]

section \<open>Views\<close>

definition voter_votes :: "voting_state \<Rightarrow> account_uid_type \<times> 32 word \<Rightarrow> 64 word" where
  "voter_votes st k = (case find_voter (fst k) (snd k) st of Some v \<Rightarrow> voter_total_votes v | None \<Rightarrow> 0)"

definition witness_total :: "voting_state \<Rightarrow> account_uid_type \<times> 32 word \<Rightarrow> 64 word option" where
  "witness_total st t = (case find_witness_by_uid (fst t) (sched st) of
     Some w \<Rightarrow> if wit_sequence w = snd t then Some (total_votes w) else None | None \<Rightarrow> None)"

abbreviation voter_key :: "vote_object \<Rightarrow> account_uid_type \<times> 32 word" where
  "voter_key r \<equiv> (voter_uid r, voter_sequence r)"

abbreviation target_key :: "vote_object \<Rightarrow> account_uid_type \<times> 32 word" where
  "target_key r \<equiv> (target_uid r, target_sequence r)"

definition tally :: "voting_state \<Rightarrow> bool" where
  "tally st \<longleftrightarrow> (\<forall>t x. witness_total st t = Some x \<longrightarrow>
     x = (\<Sum>r\<leftarrow>filter (\<lambda>r. target_key r = t) (witness_votes st). voter_votes st (voter_key r)))"

text \<open>Distinct ids and rows; only voters that vote directly have rows.\<close>

definition voting_wf :: "voting_state \<Rightarrow> bool" where
  "voting_wf st \<longleftrightarrow> distinct (map wit_id (witnesses (sched st))) \<and> distinct (witness_votes st) \<and>
     (\<forall>r\<in>set (witness_votes st). \<exists>v. find_voter (voter_uid r) (voter_sequence r) st = Some v \<and> proxy_uid v = proxy_to_self_uid st)"

lemma vote_object_eqI: "voter_key r = voter_key r' \<Longrightarrow> target_key r = target_key r' \<Longrightarrow> r = r'" for r r' :: vote_object
  by (cases r, cases r') simp

section \<open>Modifying rows\<close>

lemma find_map: "(\<And>x. P (g x) = P x) \<Longrightarrow> find P (map g xs) = map_option g (find P xs)"
  by (induction xs) auto

lemma find_Some_in: "find P xs = Some x \<Longrightarrow> x \<in> set xs \<and> P x"
  by (induction xs) (auto split: if_splits)

lemma find_voter_key: "find_voter u s st = Some v \<Longrightarrow> uid v = u \<and> sequence v = s"
  by (auto simp: find_voter_def dest: find_Some_in)

lemma find_voter_modify:
  assumes "\<And>v. uid (f v) = uid v \<and> sequence (f v) = sequence v"
  shows "find_voter u s (modify_voter k f st) =
    (if u = uid k \<and> s = sequence k then map_option f (find_voter u s st) else find_voter u s st)"
proof -
  let ?g = "\<lambda>v. if uid v = uid k \<and> sequence v = sequence k then f v else v"
  have "find (\<lambda>v. uid v = u \<and> sequence v = s) (map ?g (voters st)) = map_option ?g (find (\<lambda>v. uid v = u \<and> sequence v = s) (voters st))"
    by (rule find_map) (simp add: assms)
  then have eq: "find_voter u s (modify_voter k f st) = map_option ?g (find_voter u s st)"
    by (simp add: find_voter_def modify_voter_def)
  show ?thesis
  proof (cases "find_voter u s st")
    case (Some v)
    then show ?thesis using eq find_voter_key [OF Some] by auto
  qed (auto simp: eq)
qed

lemma modify_voter_simps [simp]:
  "sched (modify_voter k f st) = sched st" "witness_votes (modify_voter k f st) = witness_votes st"
  "vparams (modify_voter k f st) = vparams st"
  by (simp_all add: modify_voter_def)

lemma proxy_to_self_cong: "vparams st' = vparams st \<Longrightarrow> proxy_to_self_uid st' = proxy_to_self_uid st"
  by (simp add: proxy_to_self_uid_def)

lemma witness_total_cong: "sched st' = sched st \<Longrightarrow> witness_total st' = witness_total st"
  by (rule ext) (simp add: witness_total_def)

section \<open>Adjusting a witness\<close>

lemma adjust_votes_step_fields [simp]:
  "wit_id (adjust_votes_step o' d w) = wit_id w" "account (adjust_votes_step o' d w) = account w"
  "is_valid (adjust_votes_step o' d w) = is_valid w" "wit_sequence (adjust_votes_step o' d w) = wit_sequence w"
  "total_votes (adjust_votes_step o' d w) = total_votes w + word_of_int d"
  by (simp_all add: adjust_votes_step_def Let_def)

lemma wit_ids_adjust: "map wit_id (witnesses (adjust_witness_votes w d s)) = map wit_id (witnesses s)"
  by (simp add: adjust_witness_votes_def modify_witness_def)

lemma find_witness_adjust:
  assumes "distinct (map wit_id (witnesses s))" "find_witness_by_uid u s = Some w"
  shows "find_witness_by_uid u' (adjust_witness_votes w d s) =
    (if u' = u then Some (if d = 0 then w else adjust_votes_step (wso s) d w) else find_witness_by_uid u' s)"
proof -
  have w: "w \<in> set (witnesses s)" "is_valid w" "account w = u"
    using find_Some_in [OF assms(2) [unfolded find_witness_by_uid_def]] by simp_all
  let ?g = "\<lambda>x. if wit_id x = wit_id w then adjust_votes_step (wso s) d x else x"
  have same: "x = w" if "x \<in> set (witnesses s)" "wit_id x = wit_id w" for x
    using that w(1) assms(1) by (auto simp: distinct_map dest: inj_onD)
  show ?thesis
  proof (cases "d = 0")
    case True
    with assms(2) show ?thesis by (simp add: adjust_witness_votes_def)
  next
    case False
    have "find (\<lambda>w. is_valid w \<and> account w = u') (map ?g (witnesses s)) =
        map_option ?g (find (\<lambda>w. is_valid w \<and> account w = u') (witnesses s))"
      by (rule find_map) simp
    then have eq: "find_witness_by_uid u' (adjust_witness_votes w d s) = map_option ?g (find_witness_by_uid u' s)"
      using False w(2) by (simp add: find_witness_by_uid_def adjust_witness_votes_def modify_witness_def)
    show ?thesis
    proof (cases "find_witness_by_uid u' s")
      case None
      with eq assms(2) show ?thesis by auto
    next
      case (Some x)
      have x: "x \<in> set (witnesses s)" "account x = u'"
        using find_Some_in [OF Some [unfolded find_witness_by_uid_def]] by simp_all
      show ?thesis
      proof (cases "u' = u")
        case True
        with eq assms(2) False show ?thesis by simp
      next
        case ne: False
        then have "wit_id x \<noteq> wit_id w" using same [OF x(1)] x(2) w(3) by blast
        with eq Some ne show ?thesis by simp
      qed
    qed
  qed
qed

lemma adjust_witness_row_total:
  assumes "distinct (map wit_id (witnesses (sched st)))"
  shows "(case adjust_witness_row d r st of
       Some st' \<Rightarrow> witness_total st (target_key r) \<noteq> None \<and>
         witness_total st' = (\<lambda>t. if t = target_key r then map_option (\<lambda>x. x + word_of_int d) (witness_total st t) else witness_total st t) \<and>
         map wit_id (witnesses (sched st')) = map wit_id (witnesses (sched st)) \<and>
         voters st' = voters st \<and> witness_votes st' = witness_votes st \<and> vparams st' = vparams st
     | None \<Rightarrow> witness_total st (target_key r) = None)"
proof (cases "witness_total st (target_key r)")
  case None
  then show ?thesis by (auto simp: witness_total_def adjust_witness_row_def split: option.splits if_splits)
next
  case (Some x)
  then obtain w where w: "find_witness_by_uid (target_uid r) (sched st) = Some w" "wit_sequence w = target_sequence r"
    by (auto simp: witness_total_def split: option.splits if_splits)
  let ?st' = "st\<lparr>sched := adjust_witness_votes w d (sched st)\<rparr>"
  have "adjust_witness_row d r st = Some ?st'" using w by (simp add: adjust_witness_row_def)
  moreover have "witness_total ?st' = (\<lambda>t. if t = target_key r then map_option (\<lambda>x. x + word_of_int d) (witness_total st t) else witness_total st t)"
  proof (rule ext)
    fix t show "witness_total ?st' t = (if t = target_key r then map_option (\<lambda>x. x + word_of_int d) (witness_total st t) else witness_total st t)"
    proof (cases "fst t = target_uid r")
      case True
      then show ?thesis
        using w find_witness_adjust [OF assms w(1), of "fst t" d] by (cases t) (auto simp: witness_total_def)
    next
      case False
      then have "witness_total ?st' t = witness_total st t" "t \<noteq> target_key r"
        using find_witness_adjust [OF assms w(1), of "fst t" d] by (auto simp: witness_total_def)
      then show ?thesis by simp
    qed
  qed
  ultimately show ?thesis using Some by (simp add: wit_ids_adjust)
qed

text \<open>The whole pass over the rows of a voter.\<close>

lemma adjust_rows_total:
  assumes "distinct (map wit_id (witnesses (sched st)))" "distinct (map target_key rs)"
    "adjust_rows (adjust_witness_row d) rs st = (st', stale)"
  shows "witness_total st' = (\<lambda>t. if t \<in> target_key ` set rs then map_option (\<lambda>x. x + word_of_int d) (witness_total st t) else witness_total st t) \<and>
    map wit_id (witnesses (sched st')) = map wit_id (witnesses (sched st)) \<and>
    voters st' = voters st \<and> witness_votes st' = witness_votes st \<and> vparams st' = vparams st \<and>
    (\<forall>r\<in>set stale. r \<in> set rs \<and> witness_total st (target_key r) = None)"
  using assms
proof (induction rs arbitrary: st st' stale)
  case (Cons r rs)
  have d: "distinct (map target_key rs)" "target_key r \<notin> target_key ` set rs" using Cons.prems(2) by auto
  show ?case
  proof (cases "adjust_witness_row d r st")
    case None
    obtain stale' where run: "adjust_rows (adjust_witness_row d) rs st = (st', stale')" "stale = r # stale'"
      using Cons.prems(3) None by (auto simp: Let_def split: prod.splits)
    have "witness_total st (target_key r) = None" using adjust_witness_row_total [OF Cons.prems(1), where d = d and r = r] None by simp
    with Cons.IH [OF Cons.prems(1) d(1) run(1)] run(2) show ?thesis by (auto simp: fun_eq_iff)
  next
    case (Some st1)
    note row = adjust_witness_row_total [OF Cons.prems(1), where d = d and r = r, unfolded Some option.case]
    have run: "adjust_rows (adjust_witness_row d) rs st1 = (st', stale)" using Cons.prems(3) Some by simp
    have ids: "distinct (map wit_id (witnesses (sched st1)))" using row Cons.prems(1) by simp
    note IH = Cons.IH [OF ids d(1) run]
    have "witness_total st' t = (if t \<in> target_key ` set (r # rs) then map_option (\<lambda>x. x + word_of_int d) (witness_total st t) else witness_total st t)" for t
      using IH row d(2) by (cases "t = target_key r") auto
    moreover have "witness_total st (target_key q) = None" if "q \<in> set stale" for q
      using IH row that by (auto split: if_splits)
    ultimately show ?thesis using IH row by auto
  qed
qed simp

section \<open>Frames\<close>

text \<open>What the tally and its well-formedness read.\<close>

definition voter_view :: "voting_state \<Rightarrow> account_uid_type \<times> 32 word \<Rightarrow> (64 word \<times> account_uid_type) option" where
  "voter_view st k = map_option (\<lambda>v. (voter_total_votes v, proxy_uid v)) (find_voter (fst k) (snd k) st)"

definition same_view :: "voting_state \<Rightarrow> voting_state \<Rightarrow> bool" where
  "same_view st st' \<longleftrightarrow> sched st' = sched st \<and> witness_votes st' = witness_votes st \<and> vparams st' = vparams st \<and>
     voter_view st' = voter_view st"

lemma voter_votes_view: "voter_votes st k = (case voter_view st k of Some (x, _) \<Rightarrow> x | None \<Rightarrow> 0)"
  by (simp add: voter_votes_def voter_view_def split: option.splits)

lemma voting_wf_view:
  "voting_wf st \<longleftrightarrow> distinct (map wit_id (witnesses (sched st))) \<and> distinct (witness_votes st) \<and>
     (\<forall>r\<in>set (witness_votes st). \<exists>x. voter_view st (voter_key r) = Some (x, proxy_to_self_uid st))"
  by (auto simp: voting_wf_def voter_view_def)

lemma same_view_refl: "same_view st st"
  by (simp add: same_view_def)

lemma same_view_trans: "same_view a b \<Longrightarrow> same_view b c \<Longrightarrow> same_view a c"
  by (simp add: same_view_def)

lemma same_view_keeps:
  assumes "same_view st st'"
  shows "tally st' = tally st" "voting_wf st' = voting_wf st"
  using assms witness_total_cong [of st' st] proxy_to_self_cong [of st' st]
  by (simp_all add: same_view_def tally_def voter_votes_view voting_wf_view)

lemma same_view_modify:
  assumes "\<And>v. uid (f v) = uid v \<and> sequence (f v) = sequence v \<and> voter_total_votes (f v) = voter_total_votes v \<and> proxy_uid (f v) = proxy_uid v"
  shows "same_view st (modify_voter k f st)"
proof -
  have "voter_view (modify_voter k f st) (u, s) = voter_view st (u, s)" for u s
    using assms by (auto simp: voter_view_def find_voter_modify option.map_comp comp_def)
  then show ?thesis by (simp add: same_view_def fun_eq_iff)
qed

lemma voter_view_rows: "voters st' = voters st \<Longrightarrow> voter_view st' = voter_view st"
  by (rule ext) (simp add: voter_view_def find_voter_def)

lemma adjust_rows_frame:
  assumes "\<And>r s s'. adj r s = Some s' \<Longrightarrow> sched s' = sched s \<and> voters s' = voters s \<and> witness_votes s' = witness_votes s \<and> vparams s' = vparams s"
  shows "adjust_rows adj rs st = (st', stale) \<Longrightarrow>
    sched st' = sched st \<and> voters st' = voters st \<and> witness_votes st' = witness_votes st \<and> vparams st' = vparams st"
proof (induction rs arbitrary: st st' stale)
  case (Cons r rs)
  show ?case
  proof (cases "adj r st")
    case None
    with Cons show ?thesis by (auto simp: Let_def split: prod.splits)
  next
    case (Some s1)
    with Cons.prems Cons.IH [of s1] assms [OF Some] show ?thesis by simp
  qed
qed simp

lemma row_adjusts_frame:
  "adjust_platform_row d r s = Some s' \<Longrightarrow> sched s' = sched s \<and> voters s' = voters s \<and> witness_votes s' = witness_votes s \<and> vparams s' = vparams s"
  "adjust_committee_row d r s = Some s' \<Longrightarrow> sched s' = sched s \<and> voters s' = voters s \<and> witness_votes s' = witness_votes s \<and> vparams s' = vparams s"
  by (auto simp: adjust_platform_row_def adjust_committee_row_def adjust_platform_votes_def adjust_committee_member_votes_def
      split: option.splits if_splits)

lemma total_votes_fields [simp]:
  "voter_total_votes (v\<lparr>number_of_witnesses_voted := a\<rparr>) = voter_total_votes v"
  "voter_total_votes (v\<lparr>number_of_platform_voted := a\<rparr>) = voter_total_votes v"
  "voter_total_votes (v\<lparr>number_of_committee_members_voted := a\<rparr>) = voter_total_votes v"
  by (simp_all add: voter_total_votes_def)

lemma platform_votes_view: "same_view st (adjust_voter_self_platform_votes v d st)"
proof -
  obtain st1 stale where r: "adjust_rows (adjust_platform_row d) (rows_of v (platform_votes st)) st = (st1, stale)" by fastforce
  note f = adjust_rows_frame [OF row_adjusts_frame(1) r]
  have s2: "same_view st (st1\<lparr>platform_votes := ys\<rparr>)" for ys
    using f voter_view_rows [of "st1\<lparr>platform_votes := ys\<rparr>" st] by (simp add: same_view_def)
  moreover have "same_view st st1" using f voter_view_rows [of st1 st] by (simp add: same_view_def)
  ultimately show ?thesis
    unfolding adjust_voter_self_platform_votes_def r Let_def prod.case
    by (auto intro!: same_view_trans [OF s2 same_view_modify] simp del: filter_True)
qed

lemma committee_votes_view: "same_view st (adjust_voter_self_committee_member_votes v d st)"
proof -
  obtain st1 stale where r: "adjust_rows (adjust_committee_row d) (rows_of v (committee_member_votes st)) st = (st1, stale)" by fastforce
  note f = adjust_rows_frame [OF row_adjusts_frame(2) r]
  have s2: "same_view st (st1\<lparr>committee_member_votes := ys\<rparr>)" for ys
    using f voter_view_rows [of "st1\<lparr>committee_member_votes := ys\<rparr>" st] by (simp add: same_view_def)
  moreover have "same_view st st1" using f voter_view_rows [of st1 st] by (simp add: same_view_def)
  ultimately show ?thesis
    unfolding adjust_voter_self_committee_member_votes_def r Let_def prod.case
    by (auto intro!: same_view_trans [OF s2 same_view_modify] simp del: filter_True)
qed

lemma referral_view: "adjust_referral u d st = Inr st' \<Longrightarrow> same_view st st'"
  using voter_view_rows [of "adjust_platform_votes _ d st" st]
  by (auto simp: adjust_referral_def result_simps same_view_def adjust_platform_votes_def voter_view_def find_voter_def
      split: option.splits if_splits)

section \<open>Shifting a sum\<close>

lemma sum_shift:
  fixes f :: "account_uid_type \<times> 32 word \<Rightarrow> 64 word"
  assumes "distinct rows"
  shows "(\<Sum>r\<leftarrow>filter (\<lambda>r. target_key r = t) rows. f (voter_key r) + (if voter_key r = k then d else 0)) =
    (\<Sum>r\<leftarrow>filter (\<lambda>r. target_key r = t) rows. f (voter_key r)) +
    (if t \<in> target_key ` set (filter (\<lambda>r. voter_key r = k) rows) then d else 0)"
  using assms
proof (induction rows)
  case (Cons r rows)
  show ?case
  proof (cases "target_key r = t \<and> voter_key r = k")
    case True
    have "t \<notin> target_key ` set (filter (\<lambda>r. voter_key r = k) rows)"
    proof
      assume "t \<in> target_key ` set (filter (\<lambda>r. voter_key r = k) rows)"
      then obtain q where q: "q \<in> set rows" "voter_key q = k" "target_key q = t" by auto
      then have "q = r" using True by (intro vote_object_eqI) simp_all
      with q(1) Cons.prems show False by simp
    qed
    with True Cons show ?thesis by (simp add: algebra_simps)
  next
    case False
    have "t \<in> target_key ` set (filter (\<lambda>r. voter_key r = k) (r # rows)) \<longleftrightarrow> t \<in> target_key ` set (filter (\<lambda>r. voter_key r = k) rows)"
      using False by auto
    moreover have "target_key r = t \<Longrightarrow> voter_key r \<noteq> k" using False by blast
    ultimately show ?thesis using Cons by (simp add: algebra_simps)
  qed
qed simp

lemma set_rows_of: "set (rows_of v rows) = {r \<in> set rows. voter_key r = (uid v, sequence v)}"
  by (auto simp: rows_of_def)

lemma distinct_rows_of: "distinct rows \<Longrightarrow> distinct (map target_key (rows_of v rows))"
proof -
  assume "distinct rows"
  then have "distinct (rows_of v rows)" by (simp add: rows_of_def)
  moreover have "inj_on target_key (set (rows_of v rows))"
  proof (rule inj_onI)
    fix a b assume "a \<in> set (rows_of v rows)" "b \<in> set (rows_of v rows)" "target_key a = target_key b"
    then show "a = b" using vote_object_eqI [of a b] by (simp add: set_rows_of)
  qed
  ultimately show ?thesis by (simp only: distinct_map)
qed

section \<open>The direct votes of a voter\<close>

lemma witness_votes_tally:
  fixes f :: "account_uid_type \<times> 32 word \<Rightarrow> 64 word"
  assumes wf: "voting_wf st"
    and old: "\<And>t x. witness_total st t = Some x \<Longrightarrow> x = (\<Sum>r\<leftarrow>filter (\<lambda>r. target_key r = t) (witness_votes st). f (voter_key r))"
    and new: "\<And>r. r \<in> set (witness_votes st) \<Longrightarrow>
      voter_votes st (voter_key r) = f (voter_key r) + (if voter_key r = (uid v, sequence v) then word_of_int d else 0)"
  shows "tally (adjust_voter_self_witness_votes v d st) \<and> voting_wf (adjust_voter_self_witness_votes v d st)"
proof -
  let ?R = "witness_votes st" and ?k = "(uid v, sequence v)"
  obtain st1 stale where r: "adjust_rows (adjust_witness_row d) (rows_of v ?R) st = (st1, stale)" by fastforce
  have ids: "distinct (map wit_id (witnesses (sched st)))" and dist: "distinct ?R" using wf by (simp_all add: voting_wf_def)
  note rows = adjust_rows_total [OF ids distinct_rows_of [OF dist] r]
  let ?st2 = "st1\<lparr>witness_votes := filter (\<lambda>r. r \<notin> set stale) (witness_votes st1)\<rparr>"
  have view: "voter_view ?st2 = voter_view st" by (rule voter_view_rows) (use rows in simp)
  have self: "proxy_to_self_uid ?st2 = proxy_to_self_uid st" by (rule proxy_to_self_cong) (use rows in simp)
  have wf2: "voting_wf ?st2"
    using wf rows unfolding voting_wf_view view self by (auto simp: distinct_filter)
  have "tally ?st2" unfolding tally_def
  proof (intro allI impI)
    fix t x assume "witness_total ?st2 t = Some x"
    then have x: "witness_total st1 t = Some x" using witness_total_cong [of ?st2 st1] by simp
    let ?hit = "t \<in> target_key ` set (rows_of v ?R)"
    obtain y where y: "witness_total st t = Some y" "x = y + (if ?hit then word_of_int d else 0)"
      using x rows by (auto split: if_splits)
    have keep: "filter (\<lambda>r. target_key r = t) (filter (\<lambda>r. r \<notin> set stale) ?R) = filter (\<lambda>r. target_key r = t) ?R"
      unfolding filter_filter by (rule filter_cong) (use rows y(1) in auto)
    have hit: "?hit \<longleftrightarrow> t \<in> target_key ` set (filter (\<lambda>r. voter_key r = ?k) ?R)" by (simp add: rows_of_def)
    have "(\<Sum>r\<leftarrow>filter (\<lambda>r. target_key r = t) ?R. voter_votes st (voter_key r)) =
        (\<Sum>r\<leftarrow>filter (\<lambda>r. target_key r = t) ?R. f (voter_key r) + (if voter_key r = ?k then word_of_int d else 0))"
      by (rule arg_cong [where f = sum_list], rule map_cong) (use new in auto)
    also have "\<dots> = y + (if ?hit then word_of_int d else 0)"
      unfolding sum_shift [OF dist] hit old [OF y(1)] ..
    finally show "x = (\<Sum>r\<leftarrow>filter (\<lambda>r. target_key r = t) (witness_votes ?st2). voter_votes ?st2 (voter_key r))"
      using y(2) keep rows unfolding voter_votes_view view by simp
  qed
  with wf2 have ok: "tally ?st2 \<and> voting_wf ?st2" by blast
  have "same_view ?st2 (modify_voter v (\<lambda>v. v\<lparr>number_of_witnesses_voted := number_of_witnesses_voted v - of_nat (length stale)\<rparr>) ?st2)"
    by (rule same_view_modify) simp
  with ok have "tally (modify_voter v (\<lambda>v. v\<lparr>number_of_witnesses_voted := number_of_witnesses_voted v - of_nat (length stale)\<rparr>) ?st2) \<and>
      voting_wf (modify_voter v (\<lambda>v. v\<lparr>number_of_witnesses_voted := number_of_witnesses_voted v - of_nat (length stale)\<rparr>) ?st2)"
    using same_view_keeps by blast
  then show ?thesis using ok unfolding adjust_voter_self_witness_votes_def r Let_def prod.case by (cases "stale = []") simp_all
qed

lemma self_votes_tally:
  fixes f :: "account_uid_type \<times> 32 word \<Rightarrow> 64 word"
  assumes "voting_wf st"
    and "\<And>t x. witness_total st t = Some x \<Longrightarrow> x = (\<Sum>r\<leftarrow>filter (\<lambda>r. target_key r = t) (witness_votes st). f (voter_key r))"
    and "\<And>r. r \<in> set (witness_votes st) \<Longrightarrow>
      voter_votes st (voter_key r) = f (voter_key r) + (if voter_key r = (uid v, sequence v) then word_of_int d else 0)"
  shows "tally (adjust_voter_self_votes v d st) \<and> voting_wf (adjust_voter_self_votes v d st)"
  using witness_votes_tally [OF assms] same_view_keeps [OF same_view_trans [OF committee_votes_view platform_votes_view]]
  unfolding adjust_voter_self_votes_def by blast

section \<open>Along the proxies\<close>

lemma fold_plus_word: "fold (+) xs (e :: 64 word) = sum_list xs + e"
  by (induction xs arbitrary: e) (simp_all add: algebra_simps)

lemma sum_list_update_word: "i < length xs \<Longrightarrow> sum_list (xs[i := xs ! i + d]) = sum_list xs + (d :: 64 word)"
  by (induction xs arbitrary: i) (auto simp: algebra_simps split: nat.splits)

lemma total_add_proxied: "level < length (proxied_votes v) \<Longrightarrow> voter_total_votes (add_proxied level d v) = voter_total_votes v + word_of_int d"
  by (simp add: voter_total_votes_def add_proxied_def fold_plus_word sum_list_update_word)

lemma add_proxied_fields [simp]:
  "uid (add_proxied l d v) = uid v" "sequence (add_proxied l d v) = sequence v" "proxy_uid (add_proxied l d v) = proxy_uid v"
  "proxy_sequence (add_proxied l d v) = proxy_sequence v"
  by (simp_all add: add_proxied_def)

text \<open>Climbing changes, among the voters that vote directly, only the one it ends at.\<close>

lemma climb_view:
  assumes "climb n level d v st = Inr (rt, st')" "find_voter (uid v) (sequence v) st = Some v" "proxy_uid v \<noteq> proxy_to_self_uid st"
  shows "sched st' = sched st \<and> witness_votes st' = witness_votes st \<and> vparams st' = vparams st \<and>
    find_voter (uid rt) (sequence rt) st' = Some rt \<and>
    (\<forall>k x. voter_view st k = Some (x, proxy_to_self_uid st) \<longrightarrow>
       voter_view st' k = Some (x + (if k = (uid rt, sequence rt) then word_of_int d else 0), proxy_to_self_uid st))"
  using assms
proof (induction n arbitrary: level v st)
  case 0
  then show ?case by (auto simp: voter_view_def)
next
  case (Suc n)
  from Suc.prems(1,3) obtain p where p: "find_voter (proxy_uid v) (proxy_sequence v) st = Some p"
    and lv: "level < length (proxied_votes p)"
    and run: "climb n (Suc level) d (add_proxied level d p) (modify_voter p (add_proxied level d) st) = Inr (rt, st')"
    by (auto simp: get_voter_def result_simps split: if_splits)
  let ?p = "add_proxied level d p" and ?st1 = "modify_voter p (add_proxied level d) st"
  have pk: "proxy_uid v = uid p" "proxy_sequence v = sequence p" using find_voter_key [OF p] by simp_all
  have fp: "find_voter (uid p) (sequence p) st = Some p" using p pk by simp
  have find1: "find_voter u s ?st1 = (if u = uid p \<and> s = sequence p then map_option (add_proxied level d) (find_voter u s st) else find_voter u s st)" for u s
    by (rule find_voter_modify) simp
  have live: "find_voter (uid ?p) (sequence ?p) ?st1 = Some ?p" using fp by (simp add: find1)
  have self: "proxy_to_self_uid ?st1 = proxy_to_self_uid st" by (rule proxy_to_self_cong) simp
  have view1: "voter_view ?st1 k = Some (x + (if k = (uid p, sequence p) then word_of_int d else 0), y)"
    if "voter_view st k = Some (x, y)" for k x y
  proof (cases "k = (uid p, sequence p)")
    case True
    with that fp show ?thesis by (simp add: voter_view_def find1 total_add_proxied [OF lv])
  next
    case False
    then have "find_voter (fst k) (snd k) ?st1 = find_voter (fst k) (snd k) st" by (cases k) (auto simp: find1)
    with that False show ?thesis by (simp add: voter_view_def)
  qed
  show ?case
  proof (cases "proxy_uid p = proxy_to_self_uid st")
    case True
    then have "rt = ?p" "st' = ?st1" using run self by (cases n; simp)+
    with live view1 show ?thesis by auto
  next
    case False
    note IH = Suc.IH [OF run live]
    have nk: "k \<noteq> (uid p, sequence p)" if "voter_view st k = Some (x, proxy_to_self_uid st)" for k x
      using that fp False by (auto simp: voter_view_def)
    have "voter_view ?st1 k = Some (x, proxy_to_self_uid st)" if "voter_view st k = Some (x, proxy_to_self_uid st)" for k x
      using view1 [OF that] nk [OF that] by simp
    with IH False self show ?thesis by simp
  qed
qed

section \<open>Updating the effective votes\<close>

lemma effective_votes_step_fields [simp]:
  "uid (effective_votes_step st v) = uid v" "sequence (effective_votes_step st v) = sequence v"
  "proxy_uid (effective_votes_step st v) = proxy_uid v" "proxied_votes (effective_votes_step st v) = proxied_votes v"
  by (simp_all add: effective_votes_step_def Let_def)

lemma total_effective_step:
  "voter_total_votes (effective_votes_step st v) = voter_total_votes v + (effective_votes (effective_votes_step st v) - effective_votes v)"
  by (simp add: voter_total_votes_def fold_plus_word)

lemma fits64_sint: "fits64 (sint (x :: 64 word))"
  using sint_range_size [of x] by (simp add: fits64_def int64_min_def int64_max_def word_size)

lemma adjust_votes_tally:
  fixes f :: "account_uid_type \<times> 32 word \<Rightarrow> 64 word"
  assumes run: "adjust_voter_votes v d st = Inr st'" and live: "find_voter (uid v) (sequence v) st = Some v" and wf: "voting_wf st"
    and old: "\<And>t x. witness_total st t = Some x \<Longrightarrow> x = (\<Sum>r\<leftarrow>filter (\<lambda>r. target_key r = t) (witness_votes st). f (voter_key r))"
    and new: "\<And>r. r \<in> set (witness_votes st) \<Longrightarrow>
      voter_votes st (voter_key r) = f (voter_key r) + (if voter_key r = (uid v, sequence v) then word_of_int d else 0)"
  shows "tally st' \<and> voting_wf st'"
proof -
  from run obtain rt st1 where c: "climb (max_level st) 0 d v st = Inr (rt, st1)"
    and ref: "adjust_referral (uid v) d (if proxy_uid rt = proxy_to_self_uid st1 then adjust_voter_self_votes rt d st1 else st1) = Inr st'"
    by (auto simp: adjust_voter_votes_def result_simps)
  let ?st2 = "if proxy_uid rt = proxy_to_self_uid st1 then adjust_voter_self_votes rt d st1 else st1"
  have "tally ?st2 \<and> voting_wf ?st2"
  proof (cases "proxy_uid v = proxy_to_self_uid st")
    case True
    then have "rt = v" "st1 = st" using c by (cases "max_level st"; simp)+
    with True self_votes_tally [OF wf old new] show ?thesis by simp
  next
    case False
    note cv = climb_view [OF c live False]
    have self: "proxy_to_self_uid st1 = proxy_to_self_uid st" by (rule proxy_to_self_cong) (use cv in simp)
    have row: "\<exists>x. voter_view st (voter_key r) = Some (x, proxy_to_self_uid st)" if "r \<in> set (witness_votes st)" for r
      using wf that unfolding voting_wf_view by blast
    have other: "voter_key r \<noteq> (uid v, sequence v)" if "r \<in> set (witness_votes st)" for r
      using row [OF that] live False by (auto simp: voter_view_def)
    have votes1: "voter_votes st1 (voter_key r) = f (voter_key r) + (if voter_key r = (uid rt, sequence rt) then word_of_int d else 0)"
      if mem: "r \<in> set (witness_votes st)" for r
    proof -
      obtain x where x: "voter_view st (voter_key r) = Some (x, proxy_to_self_uid st)" using row [OF mem] by blast
      have "x = f (voter_key r)" using new [OF mem] x unfolding if_not_P [OF other [OF mem]] by (simp add: voter_votes_view)
      moreover have "voter_view st1 (voter_key r) = Some (x + (if voter_key r = (uid rt, sequence rt) then word_of_int d else 0), proxy_to_self_uid st)"
        using cv x by blast
      ultimately show ?thesis by (simp add: voter_votes_view)
    qed
    have wf1: "voting_wf st1" using wf cv self unfolding voting_wf_view by fastforce
    have wt: "witness_total st1 = witness_total st" by (rule witness_total_cong) (use cv in simp)
    have R: "witness_votes st1 = witness_votes st" using cv by simp
    show ?thesis
    proof (cases "proxy_uid rt = proxy_to_self_uid st1")
      case True
      then show ?thesis using self_votes_tally [of st1 f rt d] wf1 old votes1 by (simp add: wt R)
    next
      case rf: False
      have "voter_key r \<noteq> (uid rt, sequence rt)" if mem: "r \<in> set (witness_votes st)" for r
      proof -
        obtain x where x: "voter_view st (voter_key r) = Some (x, proxy_to_self_uid st)" using row [OF mem] by blast
        then have "\<exists>y. voter_view st1 (voter_key r) = Some (y, proxy_to_self_uid st)" using cv by blast
        then show ?thesis using cv rf self by (auto simp: voter_view_def)
      qed
      then have "voter_votes st1 (voter_key r) = f (voter_key r)" if "r \<in> set (witness_votes st)" for r
        using votes1 [OF that] that by auto
      then have sums: "(\<Sum>r\<leftarrow>filter (\<lambda>r. target_key r = t) (witness_votes st). f (voter_key r)) =
          (\<Sum>r\<leftarrow>filter (\<lambda>r. target_key r = t) (witness_votes st). voter_votes st1 (voter_key r))" for t
        by (intro arg_cong [where f = sum_list] map_cong) auto
      have "tally st1" unfolding tally_def wt R
        by (intro allI impI) (rule trans [OF old sums])
      with wf1 rf show ?thesis by simp
    qed
  qed
  with same_view_keeps [OF referral_view [OF ref]] show ?thesis by blast
qed

text \<open>
  C6. Updating a voter's effective votes keeps the tally: every valid witness still has exactly the
  votes of the voters that vote for it, directly or through a chain of proxies of any shape.
\<close>

theorem effective_votes_keep_tally:
  assumes "safe_spec fc" "voting_wf st" "tally st" "find_voter (uid v) (sequence v) st = Some v"
    and "update_voter_effective_votes fc v st = Inr st'"
  shows "tally st' \<and> voting_wf st'"
proof -
  let ?v = "effective_votes_step st v" and ?st1 = "modify_voter v (effective_votes_step st) st"
  let ?diff = "effective_votes ?v - effective_votes v"
  have find1: "find_voter u s ?st1 = (if u = uid v \<and> s = sequence v then map_option (effective_votes_step st) (find_voter u s st) else find_voter u s st)" for u s
    by (rule find_voter_modify) simp
  have self: "proxy_to_self_uid ?st1 = proxy_to_self_uid st" by (rule proxy_to_self_cong) simp
  have view1: "voter_view ?st1 k = map_option (\<lambda>(x, y). (x + (if k = (uid v, sequence v) then ?diff else 0), y)) (voter_view st k)" for k
    using assms(4) by (cases k) (auto simp: voter_view_def find1 total_effective_step option.map_comp comp_def)
  have wf1: "voting_wf ?st1"
    using assms(2) unfolding voting_wf_view self by (fastforce simp: view1)
  have wt: "witness_total ?st1 = witness_total st" by (rule witness_total_cong) simp
  have row: "\<exists>x. voter_view st (voter_key r) = Some (x, proxy_to_self_uid st)" if "r \<in> set (witness_votes st)" for r
    using assms(2) that unfolding voting_wf_view by blast
  have new: "voter_votes ?st1 (voter_key r) = voter_votes st (voter_key r) + (if voter_key r = (uid v, sequence v) then ?diff else 0)"
    if "r \<in> set (witness_votes st)" for r
    using row [OF that] by (auto simp: voter_votes_view view1)
  have old: "x = (\<Sum>r\<leftarrow>filter (\<lambda>r. target_key r = t) (witness_votes st). voter_votes st (voter_key r))" if "witness_total st t = Some x" for t x
    using assms(3) that unfolding tally_def by blast
  show ?thesis
  proof (cases "effective_votes v = effective_votes ?v")
    case True
    then have "st' = ?st1" using assms(5) by (simp add: update_voter_effective_votes_def Let_def)
    moreover have "same_view st ?st1" using True by (simp add: same_view_def view1 fun_eq_iff option.map_id)
    ultimately show ?thesis using same_view_keeps assms(2,3) by blast
  next
    case False
    from assms(5) False obtain d where d: "ssub fc (sint (effective_votes ?v)) (sint (effective_votes v)) = Inr d"
      and run: "adjust_voter_votes ?v d ?st1 = Inr st'"
      by (auto simp: update_voter_effective_votes_def Let_def result_simps)
    have "d = sint (effective_votes ?v) - sint (effective_votes v)"
      using d assms(1) by (simp add: ssub_eq_Inr fits64_sint)
    then have "word_of_int d = ?diff" by simp
    moreover have "find_voter (uid ?v) (sequence ?v) ?st1 = Some ?v" using assms(4) by (simp add: find1)
    ultimately show ?thesis
      using adjust_votes_tally [OF run _ wf1, of "voter_votes st"] old new by (simp add: wt)
  qed
qed

section \<open>Clearing the votes of a voter\<close>

lemma adjust_witness_row_None: "adjust_witness_row d r st = None \<longleftrightarrow> adjust_witness_row d' r st = None"
  by (simp add: adjust_witness_row_def split: option.splits)

lemma clear_rows_adjust:
  assumes "safe_spec fc" "fits64 tot" "foldE (clear_row fc tot adjust_witness_row) rs st = Inr st'"
  shows "st' = fst (adjust_rows (adjust_witness_row (- tot)) rs st)"
  using assms(3)
proof (induction rs arbitrary: st)
  case (Cons r rs)
  from Cons.prems obtain st1 where r: "clear_row fc tot adjust_witness_row r st = Inr st1"
    and run: "foldE (clear_row fc tot adjust_witness_row) rs st1 = Inr st'"
    by (auto simp: result_simps)
  show ?case
  proof (cases "adjust_witness_row (- tot) r st")
    case None
    then have "st1 = st" using r adjust_witness_row_None [of "- tot" r st 0] by (simp add: clear_row_def)
    with Cons.IH [OF run] None show ?thesis by (simp add: case_prod_beta Let_def)
  next
    case (Some s1)
    then have "st1 = s1"
      using r adjust_witness_row_None [of "- tot" r st 0] assms(1,2) by (auto simp: clear_row_def sneg_eq_Inr result_simps)
    with Cons.IH [OF run] Some show ?thesis by simp
  qed
qed simp

lemma sum_split:
  fixes g :: "account_uid_type \<times> 32 word \<Rightarrow> 64 word"
  assumes "distinct rows"
  shows "(\<Sum>r\<leftarrow>filter (\<lambda>r. target_key r = t) rows. g (voter_key r)) =
    (\<Sum>r\<leftarrow>filter (\<lambda>r. target_key r = t) (filter (\<lambda>r. voter_key r \<noteq> k) rows). g (voter_key r)) +
    (if t \<in> target_key ` set (filter (\<lambda>r. voter_key r = k) rows) then g k else 0)"
proof -
  let ?f = "\<lambda>k'. if k' = k then 0 else g k'"
  have "(\<Sum>r\<leftarrow>filter (\<lambda>r. target_key r = t) rows. ?f (voter_key r)) =
      (\<Sum>r\<leftarrow>filter (\<lambda>r. target_key r = t) (filter (\<lambda>r. voter_key r \<noteq> k) rows). g (voter_key r))"
    by (induction rows) (auto simp del: prod.inject)
  moreover have "(\<Sum>r\<leftarrow>filter (\<lambda>r. target_key r = t) rows. g (voter_key r)) =
      (\<Sum>r\<leftarrow>filter (\<lambda>r. target_key r = t) rows. ?f (voter_key r) + (if voter_key r = k then g k else 0))"
    by (rule arg_cong [where f = sum_list], rule map_cong) auto
  ultimately show ?thesis using sum_shift [OF assms, of ?f k "g k" t] by simp
qed

text \<open>
  C8. Clearing a voter's witness votes takes all its votes away: no row of the voter is left, the
  tally still holds over the rows of the others, and only voters that vote directly have rows.
\<close>

theorem clear_votes_keep_tally:
  assumes "safe_spec fc" "voting_wf st" "tally st" "find_voter (uid v) (sequence v) st = Some v"
    and "clear_voter_witness_votes fc v st = Inr st'"
  shows "tally st' \<and> voting_wf st' \<and>
    witness_votes st' = filter (\<lambda>r. (voter_uid r, voter_sequence r) \<noteq> (uid v, sequence v)) (witness_votes st)"
proof -
  let ?R = "witness_votes st" and ?k = "(uid v, sequence v)" and ?tot = "sint (voter_total_votes v)"
  let ?rest = "filter (\<lambda>r. voter_key r \<noteq> ?k) ?R"
  from assms(5) obtain st1 where run: "foldE (clear_row fc ?tot adjust_witness_row) (rows_of v ?R) st = Inr st1"
    and st': "st' = modify_voter v (\<lambda>v. v\<lparr>number_of_witnesses_voted := 0\<rparr>)
      (st1\<lparr>witness_votes := filter (\<lambda>r. r \<notin> set (rows_of v ?R)) (witness_votes st1)\<rparr>)"
    by (auto simp: clear_voter_witness_votes_def Let_def result_simps)
  let ?st2 = "st1\<lparr>witness_votes := filter (\<lambda>r. r \<notin> set (rows_of v ?R)) (witness_votes st1)\<rparr>"
  have st1: "adjust_rows (adjust_witness_row (- ?tot)) (rows_of v ?R) st =
      (st1, snd (adjust_rows (adjust_witness_row (- ?tot)) (rows_of v ?R) st))"
    using clear_rows_adjust [OF assms(1) fits64_sint run] by simp
  have ids: "distinct (map wit_id (witnesses (sched st)))" and dist: "distinct ?R"
    using assms(2) by (simp_all add: voting_wf_def)
  note rows = adjust_rows_total [OF ids distinct_rows_of [OF dist] st1]
  have R2: "witness_votes ?st2 = ?rest" using rows by (auto simp: set_rows_of intro!: filter_cong)
  have view: "voter_view ?st2 = voter_view st" by (rule voter_view_rows) (use rows in simp)
  have self: "proxy_to_self_uid ?st2 = proxy_to_self_uid st" by (rule proxy_to_self_cong) (use rows in simp)
  have wf2: "voting_wf ?st2"
    using assms(2) rows R2 unfolding voting_wf_view view self by (auto simp: distinct_filter)
  have mine: "voter_votes st ?k = voter_total_votes v" using assms(4) by (simp add: voter_votes_def)
  have "tally ?st2" unfolding tally_def R2
  proof (intro allI impI)
    fix t x assume "witness_total ?st2 t = Some x"
    then have x: "witness_total st1 t = Some x" using witness_total_cong [of ?st2 st1] by simp
    let ?hit = "t \<in> target_key ` set (rows_of v ?R)"
    obtain y where y: "witness_total st t = Some y" "x = y - (if ?hit then voter_total_votes v else 0)"
      using x rows by (auto split: if_splits)
    have hit: "?hit \<longleftrightarrow> t \<in> target_key ` set (filter (\<lambda>r. voter_key r = ?k) ?R)" by (simp add: rows_of_def)
    have "y = (\<Sum>r\<leftarrow>filter (\<lambda>r. target_key r = t) ?R. voter_votes st (voter_key r))"
      using assms(3) y(1) unfolding tally_def by blast
    then have "x = (\<Sum>r\<leftarrow>filter (\<lambda>r. target_key r = t) ?rest. voter_votes st (voter_key r))"
      using y(2) unfolding sum_split [OF dist, where k = ?k] hit [symmetric] mine by simp
    then show "x = (\<Sum>r\<leftarrow>filter (\<lambda>r. target_key r = t) ?rest. voter_votes ?st2 (voter_key r))"
      unfolding voter_votes_view view .
  qed
  moreover have sv: "same_view ?st2 st'" unfolding st' by (rule same_view_modify) simp
  moreover have "witness_votes st' = ?rest" using sv R2 unfolding same_view_def by presburger
  ultimately show ?thesis using same_view_keeps [OF sv] wf2 by blast
qed

section \<open>An example\<close>

text \<open>Voter 5 has passed its votes on to voter 6, which votes for witness 11.\<close>

definition example_voter :: "account_uid_type \<Rightarrow> account_uid_type \<Rightarrow> 64 word \<Rightarrow> 64 word \<Rightarrow> 64 word \<Rightarrow> voter_object" where
  "example_voter u p n e through = \<lparr>uid = u, sequence = 1, voter_is_valid = True, votes = n, votes_last_update = 0,
     effective_votes = e, effective_votes_last_update = 0, effective_votes_next_update_block = 5, proxy_uid = p,
     proxy_sequence = 1, proxied_voters = 0, proxied_votes = [through], proxy_last_vote_block = [1, 1],
     effective_last_vote_block = 1, number_of_witnesses_voted = 1, number_of_platform_voted = 0,
     number_of_committee_members_voted = 0\<rparr>"

definition example_voting :: voting_state where
  "example_voting = \<lparr>sched = example_schedule\<lparr>witnesses := [example_witness 0 11 10 100]\<rparr>,
     voters = [example_voter 5 6 20 4 0, example_voter 6 0 6 6 4],
     witness_votes = [\<lparr>voter_uid = 6, voter_sequence = 1, target_uid = 11, target_sequence = 1\<rparr>],
     committee_members = [], committee_member_votes = [], platforms = [], platform_votes = [],
     referrals = [(5, \<lparr>referrer = 0, referrer_by_platform = 0\<rparr>)], is_voter_flags = [],
     vparams = \<lparr>sha256_word = (\<lambda>_. 0), max_governance_voting_proxy_level = 1, governance_voting_expiration_blocks = 100,
       governance_votes_update_interval = 10, max_governance_votes_seconds = 60\<rparr>\<rparr>"

lemma example_voting_ok: "voting_wf example_voting" "tally example_voting"
proof -
  have self: "proxy_to_self_uid example_voting = 0" by code_simp
  have find: "find_voter 6 1 example_voting = Some (example_voter 6 0 6 6 4)"
    by (simp add: find_voter_def example_voting_def example_voter_def)
  show "voting_wf example_voting"
    unfolding voting_wf_def self using find by (simp add: example_voting_def) (simp add: example_voter_def)
  have votes: "voter_votes example_voting (6, 1) = 10"
    unfolding voter_votes_def fst_conv snd_conv find by (simp add: voter_total_votes_def example_voter_def)
  have tot: "witness_total example_voting t = (if t = (11, 1) then Some 10 else None)" for t
    by (cases t) (simp add: witness_total_def find_witness_by_uid_def example_voting_def example_witness_def)
  show "tally example_voting"
    unfolding tally_def tot using votes by (simp add: example_voting_def split: if_splits)
qed

definition example_tallied :: "voting_state result" where
  "example_tallied = update_voter_effective_votes int64_safe (example_voter 5 6 20 4 0) example_voting"

theorem effective_votes_keep_tally_witness:
  "\<exists>st'. update_voter_effective_votes int64_safe (example_voter 5 6 20 4 0) example_voting = Inr st' \<and>
    tally st' \<and> map total_votes (witnesses (sched st')) = [26]"
proof -
  have "\<not> isl example_tallied \<and> map total_votes (witnesses (sched (projr example_tallied))) = [26]" by code_simp
  then obtain st' where st': "example_tallied = Inr st'" "map total_votes (witnesses (sched st')) = [26]"
    by (metis sum.collapse(2))
  have "find_voter (uid (example_voter 5 6 20 4 0)) (sequence (example_voter 5 6 20 4 0)) example_voting = Some (example_voter 5 6 20 4 0)"
    by (simp add: find_voter_def example_voting_def example_voter_def)
  from effective_votes_keep_tally [OF int64_safe_spec example_voting_ok this st'(1) [unfolded example_tallied_def]] st'
  show ?thesis unfolding example_tallied_def by (intro exI [of _ st'] conjI) simp_all
qed

definition example_cleared :: "voting_state result" where
  "example_cleared = clear_voter_witness_votes int64_safe (example_voter 6 0 6 6 4) example_voting"

theorem clear_votes_keep_tally_witness:
  "\<exists>st'. clear_voter_witness_votes int64_safe (example_voter 6 0 6 6 4) example_voting = Inr st' \<and>
    tally st' \<and> map total_votes (witnesses (sched st')) = [0]"
proof -
  have "\<not> isl example_cleared \<and> map total_votes (witnesses (sched (projr example_cleared))) = [0]" by code_simp
  then obtain st' where st': "example_cleared = Inr st'" "map total_votes (witnesses (sched st')) = [0]"
    by (metis sum.collapse(2))
  have "find_voter (uid (example_voter 6 0 6 6 4)) (sequence (example_voter 6 0 6 6 4)) example_voting = Some (example_voter 6 0 6 6 4)"
    by (simp add: find_voter_def example_voting_def example_voter_def)
  from clear_votes_keep_tally [OF int64_safe_spec example_voting_ok this st'(1) [unfolded example_cleared_def]] st'
  show ?thesis unfolding example_cleared_def by (intro exI [of _ st'] conjI) simp_all
qed

end
