(* ===== verification/Tables.thy ===== *)
theory Tables
  imports Prelude
begin

text \<open>
  Rows with a unique key: the objects of one index of the database as a list, found, replaced and
  removed by their key. The totals of a table, such as the sum of the balances in one asset, change
  by exactly the row that an operation touches.
\<close>

definition row_find :: "('r \<Rightarrow> 'k) \<Rightarrow> 'k \<Rightarrow> 'r list \<Rightarrow> 'r option" where
  "row_find key k rows = find (\<lambda>r. key r = k) rows"

definition row_put :: "('r \<Rightarrow> 'k) \<Rightarrow> 'r \<Rightarrow> 'r list \<Rightarrow> 'r list" where
  "row_put key r rows = map (\<lambda>x. if key x = key r then r else x) rows"

definition row_remove :: "('r \<Rightarrow> 'k) \<Rightarrow> 'k \<Rightarrow> 'r list \<Rightarrow> 'r list" where
  "row_remove key k rows = filter (\<lambda>r. key r \<noteq> k) rows"

abbreviation total :: "('r \<Rightarrow> int) \<Rightarrow> 'r list \<Rightarrow> int" where
  "total g rows \<equiv> sum_list (map g rows)"

lemma row_find_Some: "row_find key k rows = Some r \<Longrightarrow> r \<in> set rows \<and> key r = k"
  by (induction rows) (auto simp: row_find_def split: if_splits)

lemma row_find_None: "row_find key k rows = None \<longleftrightarrow> k \<notin> key ` set rows"
  by (auto simp: row_find_def find_None_iff)

lemma row_find_in: "distinct (map key rows) \<Longrightarrow> r \<in> set rows \<Longrightarrow> row_find key (key r) rows = Some r"
  by (induction rows) (auto simp: row_find_def)

lemma row_put_keys [simp]: "map key (row_put key r rows) = map key rows"
  by (induction rows) (auto simp: row_put_def)

lemma set_row_put: "set (row_put key r rows) \<subseteq> insert r (set rows)"
  by (auto simp: row_put_def)

lemma set_row_put_other: "x \<in> set (row_put key r rows) \<Longrightarrow> x = r \<or> (x \<in> set rows \<and> key x \<noteq> key r)"
  by (auto simp: row_put_def)

lemma row_find_put: "row_find key k (row_put key r rows) = (if k = key r \<and> k \<in> key ` set rows then Some r else row_find key k rows)"
  by (induction rows) (auto simp: row_find_def row_put_def)

lemma row_put_absent: "key r \<notin> key ` set rows \<Longrightarrow> row_put key r rows = rows"
  by (induction rows) (auto simp: row_put_def)

lemma row_find_append: "row_find key k (rows @ [r]) = (case row_find key k rows of Some x \<Rightarrow> Some x | None \<Rightarrow> if key r = k then Some r else None)"
  by (induction rows) (auto simp: row_find_def)

lemma distinct_row_remove: "distinct (map key rows) \<Longrightarrow> distinct (map key (row_remove key k rows))"
  by (simp add: row_remove_def distinct_map_filter)

lemma set_row_remove: "set (row_remove key k rows) = {r \<in> set rows. key r \<noteq> k}"
  by (auto simp: row_remove_def)

lemma row_find_remove: "row_find key k (row_remove key k' rows) = (if k = k' then None else row_find key k rows)"
  by (induction rows) (auto simp: row_find_def row_remove_def)

text \<open>What a total loses and gains.\<close>

lemma total_row_put:
  assumes "distinct (map key rows)" "row_find key (key r') rows = Some r"
  shows "total g (row_put key r' rows) = total g rows - g r + g r'"
  using assms
proof (induction rows)
  case (Cons x rows)
  show ?case
  proof (cases "key x = key r'")
    case True
    then have "r = x" "key r' \<notin> key ` set rows" using Cons.prems by (auto simp: row_find_def)
    with True row_put_absent [of key r' rows] show ?thesis by (simp add: row_put_def)
  next
    case False
    then have "row_find key (key r') rows = Some r" using Cons.prems(2) by (simp add: row_find_def)
    with Cons False show ?thesis by (simp add: row_put_def)
  qed
qed (simp add: row_find_def)

lemma total_row_remove:
  assumes "distinct (map key rows)" "row_find key k rows = Some r"
  shows "total g (row_remove key k rows) = total g rows - g r"
  using assms
proof (induction rows)
  case (Cons x rows)
  show ?case
  proof (cases "key x = k")
    case True
    then have "r = x" "k \<notin> key ` set rows" using Cons.prems by (auto simp: row_find_def)
    then have "\<forall>y\<in>set rows. key y \<noteq> k" by blast
    with True \<open>r = x\<close> show ?thesis by (simp add: row_remove_def)
  next
    case False
    then have "row_find key k rows = Some r" using Cons.prems(2) by (simp add: row_find_def)
    with Cons False show ?thesis by (simp add: row_remove_def)
  qed
qed (simp add: row_find_def)

lemma total_append: "total g (rows @ [r]) = total g rows + g r"
  by simp

lemma total_nonneg: "(\<And>r. r \<in> set rows \<Longrightarrow> 0 \<le> g r) \<Longrightarrow> 0 \<le> total g rows"
  by (rule sum_list_nonneg) auto

lemma total_member_le: "(\<And>r. r \<in> set rows \<Longrightarrow> 0 \<le> g r) \<Longrightarrow> r \<in> set rows \<Longrightarrow> g r \<le> total g rows"
  by (induction rows) (auto intro: order_trans [OF _ add_left_mono] simp: total_nonneg add_increasing add_increasing2)

text \<open>The head of a sorted list: the first element of an ordered index.\<close>

lemma sort_key_hd:
  assumes "sort_key f xs = y # ys"
  shows "y \<in> set xs" "\<forall>x\<in>set xs. f y \<le> f x"
proof -
  have s: "set xs = set (y # ys)" unfolding assms [symmetric] by simp
  have "sorted (map f (y # ys))" unfolding assms [symmetric] by simp
  then show "\<forall>x\<in>set xs. f y \<le> f x" unfolding s by auto
  show "y \<in> set xs" unfolding s by simp
qed

end
