(* ===== verification/Ledger.thy ===== *)
theory Ledger
  imports Tables Voting Account_Statistics
begin

text \<open>
  Assets, accounts and balances: \<^verbatim>\<open>db_balance.cpp\<close>, \<^verbatim>\<open>is_authorized_asset.cpp\<close> and the objects of
  \<^verbatim>\<open>asset_object.hpp\<close>, \<^verbatim>\<open>market_object.hpp\<close> and \<^verbatim>\<open>csaf_object.hpp\<close>. Every change of a balance goes through
  \<open>adjust_balance\<close>, which also keeps the coin-seconds and the votes of the account up to date. The
  flag \<^verbatim>\<open>is_voter\<close> of the account statistics is kept with the voters (\<open>is_voter_flags\<close>). The signal
  \<^verbatim>\<open>balance_adjusted\<close> tells the non-consensus plugin of a change and has no effect on the chain state.
\<close>

unbundle bit_operations_syntax

section \<open>Assets\<close>

record asset_options =
  max_supply :: int
  market_fee_percent :: "16 word"
  max_market_fee :: int
  issuer_permissions :: "16 word"
  flags :: "16 word"
  whitelist_authorities :: "account_uid_type list"
  blacklist_authorities :: "account_uid_type list"
  whitelist_markets :: "asset_aid_type list"
  blacklist_markets :: "asset_aid_type list"
  description :: string
  reward_percent_ext :: "16 word option option"

record asset_object =
  object_asset_id :: asset_aid_type
  symbol :: string
  precision :: "8 word"
  issuer :: account_uid_type
  options :: asset_options

record asset_dynamic_data_object =
  dynamic_asset_id :: asset_aid_type
  current_supply :: int
  accumulated_fees :: int

definition charge_market_fee :: "16 word" where "charge_market_fee = 0x01"
definition white_list :: "16 word" where "white_list = 0x02"
definition override_authority :: "16 word" where "override_authority = 0x04"
definition transfer_restricted :: "16 word" where "transfer_restricted = 0x08"
definition issue_asset :: "16 word" where "issue_asset = 0x200"
definition change_max_supply :: "16 word" where "change_max_supply = 0x400"

definition ASSET_ISSUER_PERMISSION_MASK :: "16 word" where
  "ASSET_ISSUER_PERMISSION_MASK = charge_market_fee OR white_list OR override_authority OR transfer_restricted OR
     issue_asset OR change_max_supply"

definition enabled_whitelist :: "asset_object \<Rightarrow> bool" where
  "enabled_whitelist a \<longleftrightarrow> flags (options a) AND white_list \<noteq> 0"

definition can_issue_asset :: "asset_object \<Rightarrow> bool" where
  "can_issue_asset a \<longleftrightarrow> flags (options a) AND issue_asset \<noteq> 0"

definition can_change_max_supply :: "asset_object \<Rightarrow> bool" where
  "can_change_max_supply a \<longleftrightarrow> flags (options a) AND change_max_supply \<noteq> 0"

definition charges_market_fees :: "asset_object \<Rightarrow> bool" where
  "charges_market_fees a \<longleftrightarrow> flags (options a) AND charge_market_fee \<noteq> 0"

definition is_transfer_restricted :: "asset_object \<Rightarrow> bool" where
  "is_transfer_restricted a \<longleftrightarrow> flags (options a) AND transfer_restricted \<noteq> 0"

definition can_override :: "asset_object \<Rightarrow> bool" where
  "can_override a \<longleftrightarrow> flags (options a) AND override_authority \<noteq> 0"

definition asset_amount :: "asset_object \<Rightarrow> int \<Rightarrow> asset" where
  "asset_amount a x = mk_asset x (object_asset_id a)"

section \<open>Accounts, orders and leases\<close>

record account_reg_info =
  reg_registrar :: account_uid_type
  reg_referrer :: account_uid_type
  registrar_percent :: "16 word"
  referrer_percent :: "16 word"

record account_info =
  info_uid :: account_uid_type
  reg_info :: account_reg_info
  whitelisting_accounts :: "account_uid_type list"
  blacklisting_accounts :: "account_uid_type list"
  allowed_assets :: "asset_aid_type list option"

record account_auth_platform_object =
  auth_account :: account_uid_type
  auth_platform :: account_uid_type
  max_limit :: int
  cur_used :: int
  auth_is_active :: bool
  permission_flags :: "32 word"

definition Platform_Permission_Transfer :: "32 word" where "Platform_Permission_Transfer = 32"

definition get_auth_platform_usable_prepaid :: "safe_ops \<Rightarrow> int \<Rightarrow> account_auth_platform_object \<Rightarrow> int result" where
  "get_auth_platform_usable_prepaid fc account_prepaid a =
     fc_assert (max_limit a \<ge> cur_used a) ''max_limit >= cur_used''
     (bindE (ssub fc (max_limit a) (cur_used a)) (\<lambda>x. Inr (if account_prepaid \<ge> x then x else account_prepaid)))"

record limit_order_object =
  order_id :: nat
  expiration :: "32 word"
  seller :: account_uid_type
  for_sale :: int
  sell_price :: price

record csaf_lease_object =
  lease_id :: nat
  lease_from :: account_uid_type
  lease_to :: account_uid_type
  lease_amount :: int
  lease_expiration :: "32 word"

datatype virtual_operation =
    Limit_Order_Cancel_Op nat account_uid_type
  | Fill_Order_Op nat account_uid_type asset asset asset price bool

record ledger_parameters =
  min_governance_voting_balance :: "64 word"
  csaf_accumulate_window :: "64 word"
  csaf_rate :: "64 word"
  max_csaf_per_account :: int
  csaf_limit_lock_balance_modulus :: "32 word"
  unlocked_balance_release_delay :: "32 word"
  maximum_asset_whitelist_authorities :: "8 word"
  pledge_releasing_size :: "32 word"

record ledger =
  accounts :: "account_info list"
  account_stats :: "account_statistics_object list"
  account_balances :: "account_balance_object list"
  asset_objects :: "asset_object list"
  asset_dynamics :: "asset_dynamic_data_object list"
  next_asset_id :: nat
  limit_orders :: "limit_order_object list"
  next_order_id :: nat
  auth_platforms :: "account_auth_platform_object list"
  csaf_leases :: "csaf_lease_object list"
  next_lease_id :: nat
  pledge_rows :: "(nat \<times> pledge_balance_object) list"
  next_pledge_id :: nat
  voting :: voting_state
  applied_operations :: "virtual_operation list"
  lparams :: ledger_parameters

abbreviation balance_key :: "account_balance_object \<Rightarrow> account_uid_type \<times> asset_aid_type" where
  "balance_key b \<equiv> (balance_owner b, asset_type b)"

definition ledger_time :: "ledger \<Rightarrow> 32 word" where
  "ledger_time st = head_block_time (sched (voting st))"

definition ledger_block :: "ledger \<Rightarrow> 32 word" where
  "ledger_block st = head_block_num (sched (voting st))"

definition ledger_fork :: "ledger \<Rightarrow> nat" where
  "ledger_fork st = dgp_hardfork_version (sched (voting st))"

definition pledge_of :: "ledger \<Rightarrow> pledge_db" where
  "pledge_of st = map_of (pledge_rows st)"

section \<open>Reading the database\<close>

definition get_account_by_uid :: "account_uid_type \<Rightarrow> ledger \<Rightarrow> account_info result" where
  "get_account_by_uid u st = option_or (Assert_Exception ''account not found.'') (row_find info_uid u (accounts st))"

definition get_account_statistics_by_uid :: "account_uid_type \<Rightarrow> ledger \<Rightarrow> account_statistics_object result" where
  "get_account_statistics_by_uid u st =
     option_or (Assert_Exception ''account statistics not found.'') (row_find owner u (account_stats st))"

definition get_asset_by_aid :: "asset_aid_type \<Rightarrow> ledger \<Rightarrow> asset_object result" where
  "get_asset_by_aid aid st = option_or (Assert_Exception ''asset not found.'') (row_find object_asset_id aid (asset_objects st))"

definition dynamic_data :: "asset_aid_type \<Rightarrow> ledger \<Rightarrow> asset_dynamic_data_object result" where
  "dynamic_data aid st = option_or (Assert_Exception ''Unable to find Object'') (row_find dynamic_asset_id aid (asset_dynamics st))"

definition put_stats :: "account_statistics_object \<Rightarrow> ledger \<Rightarrow> ledger" where
  "put_stats s st = st\<lparr>account_stats := row_put owner s (account_stats st)\<rparr>"

definition put_dynamic :: "asset_dynamic_data_object \<Rightarrow> ledger \<Rightarrow> ledger" where
  "put_dynamic d st = st\<lparr>asset_dynamics := row_put dynamic_asset_id d (asset_dynamics st)\<rparr>"

definition account_is_voter :: "account_uid_type \<Rightarrow> ledger \<Rightarrow> bool" where
  "account_is_voter u st \<longleftrightarrow> map_of (is_voter_flags (voting st)) u = Some True"

definition find_account_auth_platform :: "account_uid_type \<Rightarrow> account_uid_type \<Rightarrow> ledger \<Rightarrow> account_auth_platform_object option" where
  "find_account_auth_platform u p st = row_find (\<lambda>a. (auth_account a, auth_platform a)) (u, p) (auth_platforms st)"

section \<open>Who may hold an asset\<close>

definition check_authorized_asset :: "account_info \<Rightarrow> asset_object \<Rightarrow> unit result" where
  "check_authorized_asset acct a =
     bindE (case allowed_assets acct of
              Some xs \<Rightarrow> fc_assert (object_asset_id a \<in> set xs) ''Asset is not allowed by account'' (Inr ())
            | None \<Rightarrow> Inr ()) (\<lambda>_.
     if \<not> enabled_whitelist a then Inr ()
     else fc_assert (\<forall>x\<in>set (blacklisting_accounts acct). x \<notin> set (blacklist_authorities (options a)))
            ''account is blacklisted for asset''
       (if whitelist_authorities (options a) = [] then Inr ()
        else fc_assert (\<exists>x\<in>set (whitelisting_accounts acct). x \<in> set (whitelist_authorities (options a)))
               ''account is not whitelisted for asset'' (Inr ())))"

definition validate_authorized_asset :: "account_info \<Rightarrow> asset_object \<Rightarrow> unit result" where
  "validate_authorized_asset acct a =
     (if enabled_whitelist a \<or> allowed_assets acct \<noteq> None then check_authorized_asset acct a else Inr ())"

section \<open>Balances\<close>

definition get_balance :: "account_uid_type \<Rightarrow> asset_aid_type \<Rightarrow> ledger \<Rightarrow> asset" where
  "get_balance u aid st =
     (case row_find balance_key (u, aid) (account_balances st) of
        None \<Rightarrow> mk_asset 0 aid
      | Some b \<Rightarrow> mk_asset (balance b) (asset_type b))"

text \<open>Refreshing the votes of an account after its balance changed; also the lambda of \<^verbatim>\<open>pay_order\<close>.\<close>

definition update_account_votes :: "safe_ops \<Rightarrow> account_uid_type \<Rightarrow> ledger \<Rightarrow> ledger result" where
  "update_account_votes fc u st =
     bindE (get_account_statistics_by_uid u st) (\<lambda>s.
       if account_is_voter u st
       then bindE (get_voter u (last_voter_sequence s) (voting st)) (\<lambda>v.
            bindE (update_voter_effective_votes fc v (voting st)) (\<lambda>vs.
            let vs = modify_voter v (\<lambda>v. v\<lparr>votes := get_votes_from_core_balance s, votes_last_update := ledger_time st\<rparr>) vs
            in bindE (get_voter u (last_voter_sequence s) vs) (\<lambda>v.
               bindE (update_voter_effective_votes fc v vs) (\<lambda>vs. Inr (st\<lparr>voting := vs\<rparr>)))))
       else Inr st)"

definition adjust_balance_row :: "safe_ops \<Rightarrow> account_uid_type \<Rightarrow> asset \<Rightarrow> ledger \<Rightarrow> ledger result" where
  "adjust_balance_row fc u delta st =
     (case row_find balance_key (u, asset_id delta) (account_balances st) of
        None \<Rightarrow> fc_assert (amount delta > 0) ''Insufficient Balance''
          (Inr (st\<lparr>account_balances := account_balances st @
             [\<lparr>balance_owner = u, asset_type = asset_id delta, balance = amount delta\<rparr>]\<rparr>))
      | Some b \<Rightarrow>
          bindE (if amount delta < 0
                 then bindE (asset_neg fc delta) (\<lambda>need.
                      bindE (asset_ge (mk_asset (balance b) (asset_type b)) need) (\<lambda>enough.
                      fc_assert enough ''Insufficient Balance'' (Inr ())))
                 else Inr ()) (\<lambda>_.
          bindE (balance_adjust fc delta b) (\<lambda>b'.
            Inr (st\<lparr>account_balances := row_put balance_key b' (account_balances st)\<rparr>))))"

text \<open>Spending core coins needs them available, and may cost the account its vote.\<close>

definition check_core_spending :: "safe_ops \<Rightarrow> account_uid_type \<Rightarrow> int \<Rightarrow> ledger \<Rightarrow> ledger result" where
  "check_core_spending fc u d st =
     bindE (get_account_statistics_by_uid u st) (\<lambda>s.
     bindE (get_available_core_balance fc (pledge_of st) s) (\<lambda>available.
     bindE (sneg fc d) (\<lambda>need.
     fc_assert (available \<ge> need) ''Insufficient Balance: available''
       (if account_is_voter u st
        then bindE (sadd fc (core_balance s) d) (\<lambda>rest.
             if rest < sint (min_governance_voting_balance (lparams st))
             then bindE (get_voter u (last_voter_sequence s) (voting st)) (\<lambda>v.
                  bindE (invalidate_voter fc v (voting st)) (\<lambda>vs. Inr (st\<lparr>voting := vs\<rparr>)))
             else Inr st)
        else Inr st))))"

definition adjust_core_balance :: "safe_ops \<Rightarrow> account_uid_type \<Rightarrow> int \<Rightarrow> ledger \<Rightarrow> ledger result" where
  "adjust_core_balance fc u d st =
     bindE (if d < 0 then check_core_spending fc u d st else Inr st) (\<lambda>st.
     bindE (get_account_statistics_by_uid u st) (\<lambda>s.
     bindE (if ledger_fork st < enable_head_fork_05
            then update_coin_seconds_earned fc (pledge_of st) (csaf_accumulate_window (lparams st)) (ledger_time st) (ledger_fork st) s
            else Inr s) (\<lambda>s.
     bindE (sadd fc (core_balance s) d) (\<lambda>c.
       update_account_votes fc u (put_stats (s\<lparr>core_balance := c\<rparr>) st)))))"

definition adjust_balance :: "safe_ops \<Rightarrow> account_uid_type \<Rightarrow> asset \<Rightarrow> ledger \<Rightarrow> ledger result" where
  "adjust_balance fc u delta st =
     (if amount delta = 0 then Inr st
      else bindE (adjust_balance_row fc u delta st) (\<lambda>st.
           if asset_id delta = core_asset_aid then adjust_core_balance fc u (amount delta) st else Inr st))"

section \<open>Witness pay\<close>

text \<open>
  The product is of \<^verbatim>\<open>fc::bigint\<close> values, integers of any size; the divisor is computed in
  \<^verbatim>\<open>uint64_t\<close> before it is converted, so it wraps. A quotient that does not fit in 63 bits throws.
\<close>

definition pledge_bonus :: "int \<Rightarrow> witness_object \<Rightarrow> int result" where
  "pledge_bonus amt w =
     (let divisor = (wit_pledge w + wit_total_mining_pledge w) * word_of_int GRAPHENE_100_PERCENT
      in if divisor = 0 then Inl (Undefined_Behaviour ''division by zero'')
         else let bonus = (amt * uint (bonus_rate w) * uint (wit_total_mining_pledge w)) div uint divisor
              in fc_assert (bonus < 2 ^ 63) ''BN_num_bits(n) <= 63'' (Inr bonus))"

definition add_bonus :: "safe_ops \<Rightarrow> int \<Rightarrow> 32 word \<Rightarrow> witness_object \<Rightarrow> witness_object result" where
  "add_bonus fc b now w =
     bindE (sadd fc (unhandled_bonus w) b) (\<lambda>x.
     bindE (sadd fc (need_distribute_bonus w) b) (\<lambda>y.
       Inr (w\<lparr>unhandled_bonus := x, need_distribute_bonus := y,
              last_update_bonus_block_num := (if last_update_bonus_block_num w = 0 then now else last_update_bonus_block_num w)\<rparr>)))"

definition put_witness :: "witness_object \<Rightarrow> ledger \<Rightarrow> ledger" where
  "put_witness w st = st\<lparr>voting := (voting st)\<lparr>sched := modify_witness (wit_id w) (\<lambda>_. w) (sched (voting st))\<rparr>\<rparr>"

definition add_witness_pay :: "safe_ops \<Rightarrow> account_uid_type \<Rightarrow> int \<Rightarrow> ledger \<Rightarrow> ledger result" where
  "add_witness_pay fc u amt st =
     bindE (get_account_statistics_by_uid u st) (\<lambda>s.
     bindE (sadd fc (uncollected_witness_pay s) amt) (\<lambda>x. Inr (put_stats (s\<lparr>uncollected_witness_pay := x\<rparr>) st)))"

definition deposit_witness_pay :: "safe_ops \<Rightarrow> witness_object \<Rightarrow> int \<Rightarrow> scheduled_witness_type \<Rightarrow> ledger \<Rightarrow> ledger result" where
  "deposit_witness_pay fc w amt wit_type st =
     fc_assert (amt \<ge> 0) ''amount >= 0''
     (if amt = 0 then Inr st
      else bindE (get_account_statistics_by_uid (account w) st) (\<lambda>_.
        if ledger_fork st < enable_head_fork_05 \<or> wit_type \<noteq> scheduled_by_pledge \<or> wit_total_mining_pledge w = 0 \<or> bonus_rate w = 0
        then add_witness_pay fc (account w) amt st
        else bindE (pledge_bonus amt w) (\<lambda>b.
             bindE (if b > 0 then bindE (add_bonus fc b (ledger_block st) w) (\<lambda>w. Inr (put_witness w st)) else Inr st) (\<lambda>st.
             bindE (ssub fc amt b) (\<lambda>rest. add_witness_pay fc (account w) rest st)))))"

end
