(* ===== verification/Fees.thy ===== *)
theory Fees
  imports Ledger
begin

text \<open>
  What every operation shares: the checks of \<^verbatim>\<open>protocol/operations.cpp\<close>, the fee with its options
  (\<^verbatim>\<open>protocol/base.hpp\<close>) and the generic evaluator of \<^verbatim>\<open>evaluator.cpp\<close>/\<^verbatim>\<open>evaluator.hpp\<close>, which prepares the
  fee, evaluates the operation, applies it and then takes the fee out of circulation. The fee schedule
  is the pair of required amounts, a parameter of the evaluator.
\<close>

section \<open>Checks\<close>

definition validate_account_uid :: "(64 word \<Rightarrow> 64 word) \<Rightarrow> account_uid_type \<Rightarrow> unit result" where
  "validate_account_uid sha u = fc_assert (is_valid_account_uid sha u) ''account uid is not valid.'' (Inr ())"

definition validate_asset_id :: "asset \<Rightarrow> asset_aid_type \<Rightarrow> unit result" where
  "validate_asset_id a aid = fc_assert (asset_id a = aid) ''asset_id should be aid.'' (Inr ())"

definition validate_core_asset_id :: "asset \<Rightarrow> unit result" where
  "validate_core_asset_id a = validate_asset_id a core_asset_aid"

definition validate_non_core_asset_id :: "asset \<Rightarrow> unit result" where
  "validate_non_core_asset_id a = fc_assert (asset_id a \<noteq> core_asset_aid) ''asset_id should not be 0.'' (Inr ())"

definition validate_percentage :: "16 word \<Rightarrow> unit result" where
  "validate_percentage p = fc_assert (uint p \<le> GRAPHENE_100_PERCENT) ''should not exceed 100%.'' (Inr ())"

definition validate_positive_amount :: "int \<Rightarrow> unit result" where
  "validate_positive_amount x = fc_assert (x > 0) ''should be positive.'' (Inr ())"

definition validate_non_negative_amount :: "int \<Rightarrow> unit result" where
  "validate_non_negative_amount x = fc_assert (x \<ge> 0) ''should not be negative.'' (Inr ())"

definition validate_positive_core_asset :: "asset \<Rightarrow> unit result" where
  "validate_positive_core_asset a = bindE (validate_core_asset_id a) (\<lambda>_. validate_positive_amount (amount a))"

definition validate_positive_asset :: "asset \<Rightarrow> unit result" where
  "validate_positive_asset a = validate_positive_amount (amount a)"

definition validate_non_negative_core_asset :: "asset \<Rightarrow> unit result" where
  "validate_non_negative_core_asset a = bindE (validate_core_asset_id a) (\<lambda>_. validate_non_negative_amount (amount a))"

definition validate_non_negative_asset :: "asset \<Rightarrow> unit result" where
  "validate_non_negative_asset a = validate_non_negative_amount (amount a)"

section \<open>Fees\<close>

record fee_options =
  fee_from_balance :: "asset option"
  fee_from_prepaid :: "asset option"
  fee_from_csaf :: "asset option"

record fee_type =
  fee_total :: asset
  fee_opts :: "fee_options option"

definition validate_op_fee_asset :: "asset \<Rightarrow> unit result" where
  "validate_op_fee_asset a = validate_non_negative_core_asset a"

definition add_fee_part :: "safe_ops \<Rightarrow> asset option \<Rightarrow> asset \<Rightarrow> asset result" where
  "add_fee_part fc x t =
     (case x of None \<Rightarrow> Inr t | Some a \<Rightarrow> bindE (validate_op_fee_asset a) (\<lambda>_. asset_add fc t a))"

definition validate_op_fee :: "safe_ops \<Rightarrow> fee_type \<Rightarrow> unit result" where
  "validate_op_fee fc fee =
     bindE (validate_op_fee_asset (fee_total fee)) (\<lambda>_.
     case fee_opts fee of
       None \<Rightarrow> Inr ()
     | Some fov \<Rightarrow>
         bindE (add_fee_part fc (fee_from_balance fov) (mk_asset 0 core_asset_aid)) (\<lambda>t.
         bindE (add_fee_part fc (fee_from_prepaid fov) t) (\<lambda>t.
         bindE (add_fee_part fc (fee_from_csaf fov) t) (\<lambda>t.
           fc_assert (amount t = amount (fee_total fee)) ''total fee should be equal to sum of fees in options.'' (Inr ())))))"

definition calculate_data_fee :: "64 word \<Rightarrow> 64 word \<Rightarrow> 64 word result" where
  "calculate_data_fee bytes price_per_kbyte =
     (let result = (ucast bytes * ucast price_per_kbyte :: 128 word) div 1024
      in fc_assert (result \<le> u128 max_share_supply) ''result <= GRAPHENE_MAX_SHARE_SUPPLY'' (Inr (ucast result)))"

definition calculate_fee_pair :: "int \<Rightarrow> 64 word \<Rightarrow> 16 word \<Rightarrow> (int \<times> int) result" where
  "calculate_fee_pair fee min_real_fee min_rf_percent =
     fc_assert (fee \<le> max_share_supply) ''fee <= GRAPHENE_MAX_SHARE_SUPPLY''
     (let min_percent_fee = (u128 fee * ucast min_rf_percent) div u128 GRAPHENE_100_PERCENT;
          real = sint (max min_real_fee (ucast min_percent_fee))
      in fc_assert (real \<le> max_share_supply) ''min_real_fee <= GRAPHENE_MAX_SHARE_SUPPLY'' (Inr (fee, real)))"

text \<open>The overload for fee parameters that have no member \<^verbatim>\<open>min_real_fee\<close>: the whole fee is a real fee.\<close>

definition calculate_fee_pair_plain :: "int \<Rightarrow> (int \<times> int) result" where
  "calculate_fee_pair_plain fee = fc_assert (fee \<le> max_share_supply) ''fee <= GRAPHENE_MAX_SHARE_SUPPLY'' (Inr (fee, fee))"

text \<open>Either way the pair holds the fee itself and a real fee of at most the maximal supply.\<close>

lemma calculate_fee_pair_bounds:
  "calculate_fee_pair fee min_real_fee min_rf_percent = Inr (x, y) \<Longrightarrow> x = fee \<and> fee \<le> max_share_supply \<and> y \<le> max_share_supply"
  "calculate_fee_pair_plain fee = Inr (x, y) \<Longrightarrow> x = fee \<and> y = fee \<and> fee \<le> max_share_supply"
  by (auto simp: calculate_fee_pair_def calculate_fee_pair_plain_def Let_def fc_assert_eq_Inr)

section \<open>The generic evaluator\<close>

datatype operation_result = Void_Result | Object_Id_Result nat | Asset_Result asset

record prepared_fee =
  fee_from_account :: asset
  total_fee_paid :: int
  paid_from_balance :: int
  paid_from_prepaid :: int
  paid_from_csaf :: int

definition opt_amount :: "asset option \<Rightarrow> int" where
  "opt_amount x = (case x of None \<Rightarrow> 0 | Some a \<Rightarrow> amount a)"

definition prepare_fee :: "account_uid_type \<Rightarrow> fee_type \<Rightarrow> ledger \<Rightarrow> prepared_fee result" where
  "prepare_fee u fee st =
     bindE (get_account_by_uid u st) (\<lambda>_.
     let from_account = (case fee_opts fee of
           None \<Rightarrow> fee_total fee
         | Some fov \<Rightarrow> (case fee_from_balance fov of Some a \<Rightarrow> a | None \<Rightarrow> mk_asset 0 core_asset_aid))
     in fc_assert (asset_id from_account = core_asset_aid) ''Must use core asset as fee''
       (bindE (get_account_statistics_by_uid u st) (\<lambda>_.
         Inr \<lparr>fee_from_account = from_account, total_fee_paid = amount (fee_total fee), paid_from_balance = amount from_account,
              paid_from_prepaid = (case fee_opts fee of None \<Rightarrow> 0 | Some fov \<Rightarrow> opt_amount (fee_from_prepaid fov)),
              paid_from_csaf = (case fee_opts fee of None \<Rightarrow> 0 | Some fov \<Rightarrow> opt_amount (fee_from_csaf fov))\<rparr>)))"

text \<open>The required pair is absent when the transaction skips the check against the fee schedule.\<close>

definition check_required_fee :: "safe_ops \<Rightarrow> (int \<times> int) option \<Rightarrow> prepared_fee \<Rightarrow> unit result" where
  "check_required_fee fc required p =
     (case required of
        None \<Rightarrow> Inr ()
      | Some (need_total, need_real) \<Rightarrow>
          graphene_assert (total_fee_paid p \<ge> need_total) Insufficient_Fee
          (bindE (sadd fc (paid_from_balance p) (paid_from_prepaid p)) (\<lambda>real.
            graphene_assert (real \<ge> need_real) Insufficient_Fee (Inr ()))))"

definition process_fee_options :: "safe_ops \<Rightarrow> bool \<Rightarrow> account_uid_type \<Rightarrow> prepared_fee \<Rightarrow> ledger \<Rightarrow> ledger result" where
  "process_fee_options fc skip_fee u p st =
     (if skip_fee then Inr st
      else bindE (get_account_statistics_by_uid u st) (\<lambda>s.
        fc_assert (paid_from_prepaid p > 0 \<longrightarrow> prepaid s \<ge> paid_from_prepaid p) ''Insufficient Prepaid''
       (fc_assert (paid_from_csaf p > 0 \<longrightarrow> csaf s \<ge> paid_from_csaf p) ''Insufficient CSAF''
       (bindE (if paid_from_prepaid p > 0 then ssub fc (prepaid s) (paid_from_prepaid p) else Inr (prepaid s)) (\<lambda>x.
        bindE (if paid_from_csaf p > 0 then ssub fc (csaf s) (paid_from_csaf p) else Inr (csaf s)) (\<lambda>y.
        let st = put_stats (s\<lparr>prepaid := x, csaf := y\<rparr>) st
        in bindE (get_asset_by_aid core_asset_aid st) (\<lambda>_.
           bindE (dynamic_data core_asset_aid st) (\<lambda>d.
           bindE (sadd fc (paid_from_prepaid p) (paid_from_balance p)) (\<lambda>z.
           bindE (ssub fc (current_supply d) z) (\<lambda>c. Inr (put_dynamic (d\<lparr>current_supply := c\<rparr>) st)))))))))))"

text \<open>
  \<open>start_evaluate\<close> with \<open>apply\<close> set: prepare and check the fee, evaluate, apply, charge the part of
  the fee that comes from the balance, then the rest.
\<close>

definition start_evaluate :: "safe_ops \<Rightarrow> bool \<Rightarrow> (int \<times> int) option \<Rightarrow> account_uid_type \<Rightarrow> fee_type \<Rightarrow>
    (ledger \<Rightarrow> 'ev result) \<Rightarrow> ('ev \<Rightarrow> ledger \<Rightarrow> (operation_result \<times> ledger) result) \<Rightarrow> ledger \<Rightarrow> (operation_result \<times> ledger) result" where
  "start_evaluate fc skip_fee required payer fee do_evaluate do_apply st =
     bindE (prepare_fee payer fee st) (\<lambda>p.
     bindE (check_required_fee fc required p) (\<lambda>_.
     bindE (do_evaluate st) (\<lambda>ev.
     bindE (do_apply ev st) (\<lambda>(result, st).
     bindE (if amount (fee_from_account p) > 0
            then bindE (asset_neg fc (fee_from_account p)) (\<lambda>d. adjust_balance fc payer d st) else Inr st) (\<lambda>st.
     bindE (process_fee_options fc skip_fee payer p st) (\<lambda>st. Inr (result, st)))))))"

end
