(* ===== verification/Market.thy ===== *)
theory Market
  imports Fees
begin

text \<open>
  Limit orders: \<^verbatim>\<open>db_market.cpp\<close>, \<^verbatim>\<open>market_evaluator.cpp\<close> and \<^verbatim>\<open>protocol/market.cpp\<close>. The list of
  orders is kept in the order of the index \<^verbatim>\<open>by_price\<close>: the best price of a market first, older
  orders first among equals. A new order is matched against the opposite side of the book at the
  price of the order it meets.
\<close>

section \<open>Orders\<close>

definition amount_for_sale :: "limit_order_object \<Rightarrow> asset" where
  "amount_for_sale ord = mk_asset (for_sale ord) (asset_id (base (sell_price ord)))"

definition amount_to_receive :: "limit_order_object \<Rightarrow> asset result" where
  "amount_to_receive ord = mult_price (amount_for_sale ord) (sell_price ord)"

definition sell_asset_id :: "limit_order_object \<Rightarrow> asset_aid_type" where
  "sell_asset_id ord = asset_id (base (sell_price ord))"

definition receive_asset_id :: "limit_order_object \<Rightarrow> asset_aid_type" where
  "receive_asset_id ord = asset_id (quote (sell_price ord))"

definition get_market :: "limit_order_object \<Rightarrow> asset_aid_type \<times> asset_aid_type" where
  "get_market ord =
     (let a = sell_asset_id ord; b = receive_asset_id ord in if a > b then (b, a) else (a, b))"

text \<open>The comparison of the index: greater price first, then smaller id.\<close>

definition order_before :: "limit_order_object \<Rightarrow> limit_order_object \<Rightarrow> bool" where
  "order_before a b \<longleftrightarrow> price_gt (sell_price a) (sell_price b) \<or>
     \<not> price_gt (sell_price b) (sell_price a) \<and> order_id a < order_id b"

definition insert_by_price :: "limit_order_object \<Rightarrow> limit_order_object list \<Rightarrow> limit_order_object list" where
  "insert_by_price ord os = takeWhile (\<lambda>x. order_before x ord) os @ ord # dropWhile (\<lambda>x. order_before x ord) os"

definition find_order :: "nat \<Rightarrow> ledger \<Rightarrow> limit_order_object option" where
  "find_order i st = row_find order_id i (limit_orders st)"

definition remove_order :: "nat \<Rightarrow> ledger \<Rightarrow> ledger" where
  "remove_order i st = st\<lparr>limit_orders := row_remove order_id i (limit_orders st)\<rparr>"

definition push_applied_operation :: "virtual_operation \<Rightarrow> ledger \<Rightarrow> ledger" where
  "push_applied_operation v st = st\<lparr>applied_operations := applied_operations st @ [v]\<rparr>"

definition add_core_in_orders :: "safe_ops \<Rightarrow> account_uid_type \<Rightarrow> int \<Rightarrow> ledger \<Rightarrow> ledger result" where
  "add_core_in_orders fc u x st =
     bindE (get_account_statistics_by_uid u st) (\<lambda>s.
     bindE (sadd fc (total_core_in_orders s) x) (\<lambda>t. Inr (put_stats (s\<lparr>total_core_in_orders := t\<rparr>) st)))"

definition sub_core_in_orders :: "safe_ops \<Rightarrow> account_uid_type \<Rightarrow> int \<Rightarrow> ledger \<Rightarrow> ledger result" where
  "sub_core_in_orders fc u x st =
     bindE (get_account_statistics_by_uid u st) (\<lambda>s.
     bindE (ssub fc (total_core_in_orders s) x) (\<lambda>t. Inr (put_stats (s\<lparr>total_core_in_orders := t\<rparr>) st)))"

section \<open>Cancelling\<close>

definition cancel_limit_order :: "safe_ops \<Rightarrow> limit_order_object \<Rightarrow> bool \<Rightarrow> ledger \<Rightarrow> ledger result" where
  "cancel_limit_order fc ord create_virtual_op st =
     (let refunded = amount_for_sale ord
      in bindE (if asset_id refunded = core_asset_aid then sub_core_in_orders fc (seller ord) (amount refunded) st else Inr st) (\<lambda>st.
         bindE (adjust_balance fc (seller ord) refunded st) (\<lambda>st.
           Inr (remove_order (order_id ord)
             (if create_virtual_op then push_applied_operation (Limit_Order_Cancel_Op (order_id ord) (seller ord)) st else st)))))"

definition maybe_cull_small_order :: "safe_ops \<Rightarrow> limit_order_object \<Rightarrow> ledger \<Rightarrow> (bool \<times> ledger) result" where
  "maybe_cull_small_order fc ord st =
     bindE (amount_to_receive ord) (\<lambda>r.
       if amount r = 0 then bindE (cancel_limit_order fc ord True st) (\<lambda>st. Inr (True, st)) else Inr (False, st))"

text \<open>The order that expires first, the smaller id among equals.\<close>

definition expires_first :: "limit_order_object list \<Rightarrow> limit_order_object option" where
  "expires_first os = (case sort_key (\<lambda>ord. (expiration ord, order_id ord)) os of [] \<Rightarrow> None | ord # _ \<Rightarrow> Some ord)"

fun expire_orders :: "nat \<Rightarrow> safe_ops \<Rightarrow> ledger \<Rightarrow> ledger result" where
  "expire_orders 0 fc st = Inr st"
| "expire_orders (Suc n) fc st =
     (case expires_first (limit_orders st) of
        None \<Rightarrow> Inr st
      | Some ord \<Rightarrow> if expiration ord \<le> ledger_time st
          then bindE (cancel_limit_order fc ord True st) (expire_orders n fc) else Inr st)"

text \<open>Every round removes an order, so the number of orders bounds the loop.\<close>

definition clear_expired_limit_orders :: "safe_ops \<Rightarrow> ledger \<Rightarrow> ledger result" where
  "clear_expired_limit_orders fc st = expire_orders (length (limit_orders st)) fc st"

section \<open>Market fees\<close>

definition calculate_percent :: "int \<Rightarrow> 16 word \<Rightarrow> 64 word" where
  "calculate_percent x percent = ucast ((u128 x * ucast percent) div u128 GRAPHENE_100_PERCENT)"

definition calculate_market_fee :: "asset_object \<Rightarrow> asset \<Rightarrow> asset" where
  "calculate_market_fee a trade =
     (if \<not> charges_market_fees a then asset_amount a 0
      else if market_fee_percent (options a) = 0 then asset_amount a 0
      else let fee = share_of_u128 ((u128 (amount trade) * ucast (market_fee_percent (options a))) div u128 GRAPHENE_100_PERCENT)
           in asset_amount a (if fee > max_market_fee (options a) then max_market_fee (options a) else fee))"

definition add_market_reward :: "safe_ops \<Rightarrow> account_uid_type \<Rightarrow> asset_aid_type \<Rightarrow> int \<Rightarrow> ledger \<Rightarrow> ledger result" where
  "add_market_reward fc u aid x st =
     bindE (get_account_statistics_by_uid u st) (\<lambda>s.
     bindE (add_uncollected_market_fee fc aid x s) (\<lambda>s. Inr (put_stats s st)))"

text \<open>The part of the fee that goes to the referrer and the registrar of the seller.\<close>

definition pay_rewards :: "safe_ops \<Rightarrow> account_info \<Rightarrow> asset_object \<Rightarrow> asset \<Rightarrow> ledger \<Rightarrow> (int \<times> ledger) result" where
  "pay_rewards fc acct a fees st =
     (case reward_percent_ext (options a) of
        Some (Some percent) \<Rightarrow>
          (if percent = 0 then Inr (0, st)
           else let reward_value = calculate_percent (amount fees) percent
             in if reward_value = 0 then Inr (0, st)
                else let reward = sint reward_value; info = reg_info acct
                  in fc_assert (reward < amount fees) ''Market reward should be less than issuer fees''
                    (fc_assert (uint (referrer_percent info) + uint (registrar_percent info) = GRAPHENE_100_PERCENT)
                       ''referrer_rewards_percentage + registrar_rewards_percentage == GRAPHENE_100_PERCENT''
                    (bindE (get_account_statistics_by_uid (reg_referrer info) st) (\<lambda>_.
                     bindE (get_account_statistics_by_uid (reg_registrar info) st) (\<lambda>_.
                     let to_referrer = sint (calculate_percent reward (referrer_percent info))
                     in bindE (add_market_reward fc (reg_referrer info) (object_asset_id a) to_referrer st) (\<lambda>st.
                        bindE (ssub fc reward to_referrer) (\<lambda>to_registrar.
                        bindE (add_market_reward fc (reg_registrar info) (object_asset_id a) to_registrar st) (\<lambda>st.
                          Inr (reward, st)))))))))
      | _ \<Rightarrow> Inr (0, st))"

definition pay_market_fees :: "safe_ops \<Rightarrow> account_info \<Rightarrow> asset_object \<Rightarrow> asset \<Rightarrow> ledger \<Rightarrow> (asset \<times> ledger) result" where
  "pay_market_fees fc acct a receives st =
     (let fees = calculate_market_fee a receives
      in bindE (asset_le fees receives) (\<lambda>ok.
         fc_assert ok ''Market fee shouldn't be greater than receives''
         (if amount fees > 0
          then bindE (pay_rewards fc acct a fees st) (\<lambda>(reward, st).
               bindE (dynamic_data (object_asset_id a) st) (\<lambda>d.
               bindE (ssub fc (amount fees) reward) (\<lambda>x.
                 if x > 0 then bindE (sadd fc (accumulated_fees d) x) (\<lambda>y. Inr (fees, put_dynamic (d\<lparr>accumulated_fees := y\<rparr>) st))
                 else Inr (fees, st))))
          else Inr (fees, st))))"

section \<open>Filling and matching\<close>

definition pay_order :: "safe_ops \<Rightarrow> account_uid_type \<Rightarrow> asset \<Rightarrow> asset \<Rightarrow> ledger \<Rightarrow> ledger result" where
  "pay_order fc u receives pays st =
     bindE (get_account_statistics_by_uid u st) (\<lambda>_.
     bindE (if asset_id pays = core_asset_aid
            then bindE (sub_core_in_orders fc u (amount pays) st) (update_account_votes fc u) else Inr st) (\<lambda>st.
       adjust_balance fc u receives st))"

definition fill_limit_order :: "safe_ops \<Rightarrow> limit_order_object \<Rightarrow> asset \<Rightarrow> asset \<Rightarrow> bool \<Rightarrow> price \<Rightarrow> bool \<Rightarrow> ledger \<Rightarrow> (bool \<times> ledger) result" where
  "fill_limit_order fc ord pays receives cull_if_small fill_price is_maker st =
     fc_assert (asset_id (amount_for_sale ord) = asset_id pays) ''order.amount_for_sale().asset_id == pays.asset_id''
    (fc_assert (asset_id pays \<noteq> asset_id receives) ''pays.asset_id != receives.asset_id''
    (bindE (get_account_by_uid (seller ord) st) (\<lambda>acct.
     bindE (get_asset_by_aid (asset_id receives) st) (\<lambda>recv_asset.
     bindE (pay_market_fees fc acct recv_asset receives st) (\<lambda>(issuer_fees, st).
     bindE (asset_sub fc receives issuer_fees) (\<lambda>net.
     bindE (pay_order fc (seller ord) net pays st) (\<lambda>st.
     let st = push_applied_operation (Fill_Order_Op (order_id ord) (seller ord) pays receives issuer_fees fill_price is_maker) st
     in if asset_eq pays (amount_for_sale ord) then Inr (True, remove_order (order_id ord) st)
        else bindE (ssub fc (for_sale ord) (amount pays)) (\<lambda>x.
             let ord = ord\<lparr>for_sale := x\<rparr>; st = st\<lparr>limit_orders := row_put order_id ord (limit_orders st)\<rparr>
             in if cull_if_small then maybe_cull_small_order fc ord st else Inr (False, st)))))))))"

definition fill_both :: "safe_ops \<Rightarrow> limit_order_object \<Rightarrow> limit_order_object \<Rightarrow> asset \<Rightarrow> asset \<Rightarrow> bool \<Rightarrow> price \<Rightarrow> ledger \<Rightarrow> (nat \<times> ledger) result" where
  "fill_both fc usd core usd_receives core_receives cull_taker match_price st =
     bindE (fill_limit_order fc usd core_receives usd_receives cull_taker match_price False st) (\<lambda>(r1, st).
     bindE (fill_limit_order fc core usd_receives core_receives True match_price True st) (\<lambda>(r2, st).
       let result = (if r1 then 1 else 0) + (if r2 then 2 else 0)
       in fc_assert (result \<noteq> 0) ''result != 0'' (Inr (result, st))))"

text \<open>The first order is the taker, the second the maker. The result tells which of them are gone: 1 the taker, 2 the maker.\<close>

definition match :: "safe_ops \<Rightarrow> limit_order_object \<Rightarrow> limit_order_object \<Rightarrow> price \<Rightarrow> ledger \<Rightarrow> (nat \<times> ledger) result" where
  "match fc usd core match_price st =
     fc_assert (asset_id (quote (sell_price usd)) = asset_id (base (sell_price core))) ''quote == base''
    (fc_assert (asset_id (base (sell_price usd)) = asset_id (quote (sell_price core))) ''base == quote''
    (fc_assert (for_sale usd > 0 \<and> for_sale core > 0) ''usd.for_sale > 0 && core.for_sale > 0''
    (let usd_for_sale = amount_for_sale usd; core_for_sale = amount_for_sale core
     in bindE (mult_price core_for_sale match_price) (\<lambda>core_worth.
        bindE (asset_le usd_for_sale core_worth) (\<lambda>taker_smaller.
          if taker_smaller
          then bindE (mult_price usd_for_sale match_price) (\<lambda>usd_receives.
               if amount usd_receives = 0 then Inr (1, st)
               else bindE (multiply_and_round_up usd_receives match_price) (\<lambda>core_receives.
                    fill_both fc usd core usd_receives core_receives True match_price st))
          else bindE (mult_price core_for_sale match_price) (\<lambda>core_receives.
               bindE (multiply_and_round_up core_receives match_price) (\<lambda>usd_receives.
                 fill_both fc usd core usd_receives core_receives False match_price st)))))))"

text \<open>The loop over the opposite side; the taker is read again for every match.\<close>

fun match_loop :: "safe_ops \<Rightarrow> nat \<Rightarrow> limit_order_object list \<Rightarrow> ledger \<Rightarrow> ledger result" where
  "match_loop fc i [] st = Inr st"
| "match_loop fc i (old # rest) st =
     (case find_order i st of
        None \<Rightarrow> Inl (Undefined_Behaviour ''removed order dereferenced'')
      | Some new \<Rightarrow> bindE (match fc new old (sell_price old) st) (\<lambda>(r, st).
          if r = 2 then match_loop fc i rest st else Inr st))"

text \<open>The orders from \<open>lower_bound\<close> of the best opposite price to \<open>upper_bound\<close> of the order's own.\<close>

definition opposite_side :: "price \<Rightarrow> price \<Rightarrow> limit_order_object list \<Rightarrow> limit_order_object list" where
  "opposite_side best max_price os =
     takeWhile (\<lambda>ord. \<not> price_gt max_price (sell_price ord)) (dropWhile (\<lambda>ord. price_gt (sell_price ord) best) os)"

definition apply_order :: "safe_ops \<Rightarrow> limit_order_object \<Rightarrow> ledger \<Rightarrow> (bool \<times> ledger) result" where
  "apply_order fc new st =
     (let before = takeWhile (\<lambda>x. order_before x new) (limit_orders st)
      in if before \<noteq> [] \<and> sell_asset_id (last before) = sell_asset_id new \<and> receive_asset_id (last before) = receive_asset_id new
         then Inr (False, st)
         else let max_price = inverse_price (sell_price new)
           in bindE (price_max (asset_id (base max_price)) (asset_id (quote max_price))) (\<lambda>best.
              bindE (match_loop fc (order_id new) (opposite_side best max_price (limit_orders st)) st) (\<lambda>st.
                case find_order (order_id new) st of
                  None \<Rightarrow> Inr (True, st)
                | Some ord \<Rightarrow> maybe_cull_small_order fc ord st)))"

section \<open>Operations\<close>

definition HARDFORK_0_5_TIME :: "32 word" where
  "HARDFORK_0_5_TIME = 1588204800"

record limit_order_create_operation =
  loc_fee :: fee_type
  loc_seller :: account_uid_type
  amount_to_sell :: asset
  min_to_receive :: asset
  loc_expiration :: "32 word"
  fill_or_kill :: bool
  loc_has_extensions :: bool

definition limit_order_create_validate :: "safe_ops \<Rightarrow> (64 word \<Rightarrow> 64 word) \<Rightarrow> limit_order_create_operation \<Rightarrow> unit result" where
  "limit_order_create_validate fc sha op =
     fc_assert (asset_id (amount_to_sell op) \<noteq> asset_id (min_to_receive op)) ''amount_to_sell.asset_id != min_to_receive.asset_id''
    (fc_assert (amount (amount_to_sell op) > 0) ''amount_to_sell.amount > 0''
    (fc_assert (amount (min_to_receive op) > 0) ''min_to_receive.amount > 0''
    (bindE (validate_op_fee fc (loc_fee op)) (\<lambda>_.
     bindE (validate_account_uid sha (loc_seller op)) (\<lambda>_.
       fc_assert (\<not> loc_has_extensions op) ''extension is currently not allowed'' (Inr ()))))))"

definition limit_order_create_evaluate :: "limit_order_create_operation \<Rightarrow> ledger \<Rightarrow> unit result" where
  "limit_order_create_evaluate op st =
     fc_assert (ledger_time st \<ge> HARDFORK_0_5_TIME) ''Can only create limit order after HARDFORK_0_5_TIME''
    (fc_assert (loc_expiration op \<ge> ledger_time st) ''op.expiration >= d.head_block_time()''
    (bindE (get_account_by_uid (loc_seller op) st) (\<lambda>acct.
     bindE (get_asset_by_aid (asset_id (amount_to_sell op)) st) (\<lambda>sell.
     bindE (get_asset_by_aid (asset_id (min_to_receive op)) st) (\<lambda>recv.
     fc_assert (whitelist_markets (options sell) \<noteq> [] \<longrightarrow> object_asset_id recv \<in> set (whitelist_markets (options sell)))
       ''This market has not been whitelisted.''
    (fc_assert (blacklist_markets (options sell) \<noteq> [] \<longrightarrow> object_asset_id recv \<notin> set (blacklist_markets (options sell)))
       ''This market has been blacklisted.''
    (bindE (validate_authorized_asset acct sell) (\<lambda>_.
     bindE (validate_authorized_asset acct recv) (\<lambda>_.
     bindE (asset_ge (get_balance (loc_seller op) (object_asset_id sell) st) (amount_to_sell op)) (\<lambda>ok.
       fc_assert ok ''insufficient balance'' (Inr ())))))))))))"

definition limit_order_create_apply :: "safe_ops \<Rightarrow> limit_order_create_operation \<Rightarrow> ledger \<Rightarrow> (operation_result \<times> ledger) result" where
  "limit_order_create_apply fc op st =
     bindE (if asset_id (amount_to_sell op) = core_asset_aid
            then add_core_in_orders fc (loc_seller op) (amount (amount_to_sell op)) st else Inr st) (\<lambda>st.
     bindE (asset_neg fc (amount_to_sell op)) (\<lambda>d.
     bindE (adjust_balance fc (loc_seller op) d st) (\<lambda>st.
     bindE (make_price (amount_to_sell op) (min_to_receive op)) (\<lambda>p.
     let ord = \<lparr>order_id = next_order_id st, expiration = loc_expiration op, seller = loc_seller op,
                for_sale = amount (amount_to_sell op), sell_price = p\<rparr>;
         st = st\<lparr>limit_orders := insert_by_price ord (limit_orders st), next_order_id := Suc (next_order_id st)\<rparr>
     in bindE (apply_order fc ord st) (\<lambda>(filled, st).
        fc_assert (fill_or_kill op \<longrightarrow> filled) ''!op.fill_or_kill || filled''
          (Inr (Object_Id_Result (order_id ord), st)))))))"

record limit_order_cancel_operation =
  cancel_fee :: fee_type
  cancel_order :: nat
  fee_paying_account :: account_uid_type
  cancel_has_extensions :: bool

definition limit_order_cancel_validate :: "safe_ops \<Rightarrow> (64 word \<Rightarrow> 64 word) \<Rightarrow> limit_order_cancel_operation \<Rightarrow> unit result" where
  "limit_order_cancel_validate fc sha op =
     bindE (validate_op_fee fc (cancel_fee op)) (\<lambda>_. bindE (validate_account_uid sha (fee_paying_account op)) (\<lambda>_.
       fc_assert (\<not> cancel_has_extensions op) ''extension is currently not allowed'' (Inr ())))"

definition limit_order_cancel_evaluate :: "limit_order_cancel_operation \<Rightarrow> ledger \<Rightarrow> limit_order_object result" where
  "limit_order_cancel_evaluate op st =
     fc_assert (ledger_time st \<ge> HARDFORK_0_5_TIME) ''Can only cancel limit order after HARDFORK_0_5_TIME''
    (bindE (option_or (Assert_Exception ''Unable to find Object'') (find_order (cancel_order op) st)) (\<lambda>ord.
     fc_assert (seller ord = fee_paying_account op) ''_order->seller == o.fee_paying_account'' (Inr ord)))"

definition limit_order_cancel_apply :: "safe_ops \<Rightarrow> limit_order_object \<Rightarrow> ledger \<Rightarrow> (operation_result \<times> ledger) result" where
  "limit_order_cancel_apply fc ord st =
     bindE (cancel_limit_order fc ord False st) (\<lambda>st. Inr (Asset_Result (amount_for_sale ord), st))"

record market_fee_collect_operation =
  mfc_fee :: fee_type
  mfc_account :: account_uid_type
  mfc_asset_aid :: asset_aid_type
  mfc_amount :: int
  mfc_has_extensions :: bool

definition market_fee_collect_validate :: "safe_ops \<Rightarrow> (64 word \<Rightarrow> 64 word) \<Rightarrow> market_fee_collect_operation \<Rightarrow> unit result" where
  "market_fee_collect_validate fc sha op =
     bindE (validate_op_fee fc (mfc_fee op)) (\<lambda>_. bindE (validate_account_uid sha (mfc_account op)) (\<lambda>_.
       fc_assert (mfc_amount op > 0) ''amount should more than 0. ''
      (fc_assert (\<not> mfc_has_extensions op) ''extension is currently not allowed'' (Inr ()))))"

definition market_fee_collect_evaluate :: "market_fee_collect_operation \<Rightarrow> ledger \<Rightarrow> unit result" where
  "market_fee_collect_evaluate op st =
     fc_assert (ledger_time st \<ge> HARDFORK_0_5_TIME) ''Can only collect market fee after HARDFORK_0_5_TIME''
    (bindE (get_account_statistics_by_uid (mfc_account op) st) (\<lambda>s.
     case map_of (uncollected_market_fees s) (mfc_asset_aid op) of
       None \<Rightarrow> Inl (Assert_Exception ''there is no available asset to collect.'')
     | Some x \<Rightarrow> fc_assert (x \<ge> mfc_amount op) ''not enough amount to collect.'' (Inr ())))"

definition collect_market_fee :: "safe_ops \<Rightarrow> asset_aid_type \<Rightarrow> int \<Rightarrow> account_statistics_object \<Rightarrow> account_statistics_object result" where
  "collect_market_fee fc aid x s =
     (case map_of (uncollected_market_fees s) aid of
        None \<Rightarrow> Inl (Undefined_Behaviour ''end iterator dereferenced'')
      | Some y \<Rightarrow> if y = x then Inr (s\<lparr>uncollected_market_fees := AList.delete aid (uncollected_market_fees s)\<rparr>)
          else bindE (ssub fc y x) (\<lambda>z. Inr (s\<lparr>uncollected_market_fees := omap_put aid z (uncollected_market_fees s)\<rparr>)))"

definition market_fee_collect_apply :: "safe_ops \<Rightarrow> market_fee_collect_operation \<Rightarrow> ledger \<Rightarrow> (operation_result \<times> ledger) result" where
  "market_fee_collect_apply fc op st =
     bindE (get_account_statistics_by_uid (mfc_account op) st) (\<lambda>s.
     bindE (collect_market_fee fc (mfc_asset_aid op) (mfc_amount op) s) (\<lambda>s.
     bindE (adjust_balance fc (mfc_account op) (mk_asset (mfc_amount op) (mfc_asset_aid op)) (put_stats s st)) (\<lambda>st.
       Inr (Void_Result, st))))"

end
