(* ===== verification/Asset_Ops.thy ===== *)
theory Asset_Ops
  imports Market
begin

text \<open>
  Creating, issuing, reserving, updating assets and claiming their fees: \<^verbatim>\<open>asset_evaluator.cpp\<close> and
  \<^verbatim>\<open>protocol/asset_ops.cpp\<close>. \<^verbatim>\<open>asset_object::validate\<close>, which the update calls on a copy of the asset, has
  an empty body and no counterpart here.
\<close>

definition GRAPHENE_MIN_ASSET_SYMBOL_LENGTH :: nat where
  "GRAPHENE_MIN_ASSET_SYMBOL_LENGTH = 3"

definition GRAPHENE_MAX_ASSET_SYMBOL_LENGTH :: nat where
  "GRAPHENE_MAX_ASSET_SYMBOL_LENGTH = 16"

definition HARDFORK_0_3_TIME :: "32 word" where
  "HARDFORK_0_3_TIME = 1530522000"

section \<open>Symbols and options\<close>

definition is_upper_char :: "char \<Rightarrow> bool" where
  "is_upper_char c \<longleftrightarrow> 65 \<le> (of_char c :: nat) \<and> of_char c \<le> (90 :: nat)"

definition is_digit_char :: "char \<Rightarrow> bool" where
  "is_digit_char c \<longleftrightarrow> 48 \<le> (of_char c :: nat) \<and> of_char c \<le> (57 :: nat)"

fun check_symbol_chars :: "string \<Rightarrow> bool \<Rightarrow> unit result" where
  "check_symbol_chars [] dot_already_present = Inr ()"
| "check_symbol_chars (c # cs) dot_already_present =
     (if c = CHR ''.''
      then fc_assert (\<not> dot_already_present) ''Asset symbol should not contain more than one dot'' (check_symbol_chars cs True)
      else fc_assert (is_upper_char c \<or> is_digit_char c) ''Asset symbol should only contain [A-Z0-9.]'' (check_symbol_chars cs dot_already_present))"

definition validate_asset_symbol :: "string \<Rightarrow> unit result" where
  "validate_asset_symbol s =
     fc_assert (length s \<ge> GRAPHENE_MIN_ASSET_SYMBOL_LENGTH) ''Asset symbol should not be shorter''
    (fc_assert (length s \<le> GRAPHENE_MAX_ASSET_SYMBOL_LENGTH) ''Asset symbol should not be longer''
    (fc_assert (last s \<noteq> CHR ''.'') ''Asset symbol should not end with a dot''
    (fc_assert (is_upper_char (hd s)) ''Asset symbol should start with an uppercase letter''
    (fc_assert (take 4 s \<noteq> ''YOYO'' \<and> take 4 s \<noteq> ''YOY0'' \<and> take 4 s \<noteq> ''Y0YO'' \<and> take 4 s \<noteq> ''Y0Y0'')
       ''Asset symbol should not start with YOYO or alike''
    (check_symbol_chars s False)))))"

definition asset_options_validate :: "asset_options \<Rightarrow> unit result" where
  "asset_options_validate opts =
     fc_assert (max_supply opts > 0) ''max_supply should be positive''
    (fc_assert (max_supply opts \<le> max_share_supply) ''max_supply should be no more than max''
    (fc_assert (uint (market_fee_percent opts) \<le> GRAPHENE_100_PERCENT) ''max_fee_percent should be no more than 100%''
    (fc_assert (max_market_fee opts \<ge> 0 \<and> max_market_fee opts \<le> max_share_supply) ''max_market_fee''
    (fc_assert (issuer_permissions opts AND NOT ASSET_ISSUER_PERMISSION_MASK = 0) ''issuer_permissions''
    (fc_assert (flags opts AND NOT ASSET_ISSUER_PERMISSION_MASK = 0) ''flags''
    (fc_assert (whitelist_authorities opts = [] \<and> blacklist_authorities opts = []) ''authorities should be empty''
    (fc_assert (whitelist_markets opts = [] \<and> blacklist_markets opts = []) ''markets should be empty''
    (fc_assert (whitelist_authorities opts \<noteq> [] \<or> blacklist_authorities opts \<noteq> [] \<longrightarrow> flags opts AND white_list \<noteq> 0) ''white_list flag''
    (fc_assert (\<forall>x\<in>set (whitelist_markets opts). x \<notin> set (blacklist_markets opts)) ''Can not white-list and black-list''
    (fc_assert (\<forall>x\<in>set (blacklist_markets opts). x \<notin> set (whitelist_markets opts)) ''Can not white-list and black-list''
    (case reward_percent_ext opts of
       None \<Rightarrow> Inr ()
     | Some None \<Rightarrow> Inl (Assert_Exception ''reward_percent must be valid. '')
     | Some (Some p) \<Rightarrow> fc_assert (uint p \<le> GRAPHENE_100_PERCENT) ''reward_percent is invalid. '' (Inr ()))))))))))))"

text \<open>
  The sizes of the packed lists and strings are those of the serializer, the parameters
  \<open>pack_u\<close>, \<open>pack_a\<close> and \<open>pack_s\<close>.
\<close>

definition data_size_for_fee :: "(64 word list \<Rightarrow> 64 word) \<Rightarrow> (asset_aid_type list \<Rightarrow> 64 word) \<Rightarrow> (string \<Rightarrow> 64 word) \<Rightarrow> asset_options \<Rightarrow> 64 word" where
  "data_size_for_fee pack_u pack_a pack_s opts =
     (if whitelist_authorities opts = [] then 0 else pack_u (whitelist_authorities opts)) +
     (if blacklist_authorities opts = [] then 0 else pack_u (blacklist_authorities opts)) +
     (if whitelist_markets opts = [] then 0 else pack_a (whitelist_markets opts)) +
     (if blacklist_markets opts = [] then 0 else pack_a (blacklist_markets opts)) +
     (if description opts = [] then 0 else pack_s (description opts))"

text \<open>A required fee: a base amount and the price of the packed data.\<close>

definition fee_with_data :: "safe_ops \<Rightarrow> 64 word \<Rightarrow> 64 word \<Rightarrow> 32 word \<Rightarrow> int result" where
  "fee_with_data fc fee bytes price_per_kbyte =
     bindE (calculate_data_fee bytes (ucast price_per_kbyte)) (\<lambda>x. sadd fc (sint fee) (sint x))"

section \<open>Create\<close>

record asset_create_operation =
  ac_fee :: fee_type
  ac_issuer :: account_uid_type
  ac_symbol :: string
  ac_precision :: "8 word"
  common_options :: asset_options
  initial_supply_ext :: "int option option"

definition asset_create_validate :: "safe_ops \<Rightarrow> (64 word \<Rightarrow> 64 word) \<Rightarrow> asset_create_operation \<Rightarrow> unit result" where
  "asset_create_validate fc sha op =
     bindE (validate_op_fee fc (ac_fee op)) (\<lambda>_.
     bindE (validate_account_uid sha (ac_issuer op)) (\<lambda>_.
     bindE (validate_asset_symbol (ac_symbol op)) (\<lambda>_.
     bindE (asset_options_validate (common_options op)) (\<lambda>_.
     fc_assert (ac_precision op \<le> 12) ''precision should be no more than 12''
     (case initial_supply_ext op of
        None \<Rightarrow> Inr ()
      | Some None \<Rightarrow> Inl (Assert_Exception ''extensions specified but is empty'')
      | Some (Some x) \<Rightarrow>
          fc_assert (x > 0) ''initial supply should be positive''
         (fc_assert (\<not> x > max_supply (common_options op)) ''initial supply should not be more than max supply'' (Inr ())))))))"

record asset_create_fee_parameters =
  symbol3 :: "64 word"
  symbol4 :: "64 word"
  long_symbol :: "64 word"
  ac_price_per_kbyte :: "32 word"

definition asset_create_calculate_fee :: "safe_ops \<Rightarrow> (asset_options \<Rightarrow> 64 word) \<Rightarrow> asset_create_fee_parameters \<Rightarrow> asset_create_operation \<Rightarrow> int result" where
  "asset_create_calculate_fee fc data_size param op =
     fee_with_data fc
       (if length (ac_symbol op) = 3 then symbol3 param else if length (ac_symbol op) = 4 then symbol4 param else long_symbol param)
       (data_size (common_options op)) (ac_price_per_kbyte param)"

definition find_by_symbol :: "string \<Rightarrow> ledger \<Rightarrow> asset_object option" where
  "find_by_symbol s st = row_find symbol s (asset_objects st)"

text \<open>What stands before the last dot.\<close>

definition symbol_prefix :: "string \<Rightarrow> string option" where
  "symbol_prefix s = (if CHR ''.'' \<in> set s then Some (rev (tl (dropWhile (\<lambda>c. c \<noteq> CHR ''.'') (rev s)))) else None)"

definition check_fee_options :: "asset_options \<Rightarrow> ledger \<Rightarrow> unit result" where
  "check_fee_options opts st =
     (if ledger_time st < HARDFORK_0_5_TIME
      then fc_assert (market_fee_percent opts = 0) ''market_fee_percent need to be 0''
          (fc_assert (max_market_fee opts = 0) ''max_market_fee need to be 0'' (Inr ()))
      else Inr ())"

definition check_authorities :: "asset_options \<Rightarrow> ledger \<Rightarrow> unit result" where
  "check_authorities opts st =
     fc_assert (length (whitelist_authorities opts) \<le> unat (maximum_asset_whitelist_authorities (lparams st))) ''Number of whitelist authorities''
    (fc_assert (length (blacklist_authorities opts) \<le> unat (maximum_asset_whitelist_authorities (lparams st))) ''Number of blacklist authorities''
    (bindE (foldE (\<lambda>u _. bindE (get_account_by_uid u st) (\<lambda>_. Inr ())) (whitelist_authorities opts) ()) (\<lambda>_.
       foldE (\<lambda>u _. bindE (get_account_by_uid u st) (\<lambda>_. Inr ())) (blacklist_authorities opts) ())))"

definition asset_create_evaluate :: "asset_create_operation \<Rightarrow> ledger \<Rightarrow> unit result" where
  "asset_create_evaluate op st =
     fc_assert (ledger_time st \<ge> HARDFORK_0_3_TIME) ''Can only use asset_create after HARDFORK_0_3_TIME''
    (bindE (check_fee_options (common_options op) st) (\<lambda>_.
     bindE (check_authorities (common_options op) st) (\<lambda>_.
     fc_assert (find_by_symbol (ac_symbol op) st = None) ''Asset symbol already exists''
     (case symbol_prefix (ac_symbol op) of
        None \<Rightarrow> Inr ()
      | Some prefix \<Rightarrow> (case find_by_symbol prefix st of
          None \<Rightarrow> Inl (Assert_Exception ''prefix has not been registered'')
        | Some a \<Rightarrow> fc_assert (issuer a = ac_issuer op) ''Asset may only be created by issuer of prefix'' (Inr ()))))))"

definition initial_supply :: "asset_create_operation \<Rightarrow> int" where
  "initial_supply op = (case initial_supply_ext op of Some (Some x) \<Rightarrow> x | _ \<Rightarrow> 0)"

text \<open>The unique indices \<^verbatim>\<open>by_aid\<close> and \<^verbatim>\<open>by_symbol\<close> refuse a second object with the same key.\<close>

definition asset_create_apply :: "safe_ops \<Rightarrow> asset_create_operation \<Rightarrow> ledger \<Rightarrow> (operation_result \<times> ledger) result" where
  "asset_create_apply fc op st =
     (let n = next_asset_id st; aid = of_nat n;
          dyn = \<lparr>dynamic_asset_id = aid, current_supply = initial_supply op, accumulated_fees = 0\<rparr>;
          a = \<lparr>object_asset_id = aid, symbol = ac_symbol op, precision = ac_precision op, issuer = ac_issuer op, options = common_options op\<rparr>
      in fc_assert (row_find object_asset_id aid (asset_objects st) = None \<and> find_by_symbol (ac_symbol op) st = None) ''Could not create object''
         (let st = st\<lparr>asset_dynamics := asset_dynamics st @ [dyn], asset_objects := asset_objects st @ [a], next_asset_id := Suc n\<rparr>
          in bindE (if initial_supply op > 0 then adjust_balance fc (ac_issuer op) (asset_amount a (initial_supply op)) st else Inr st) (\<lambda>st.
               Inr (Object_Id_Result n, st))))"

section \<open>Issue and reserve\<close>

record asset_issue_operation =
  is_fee :: fee_type
  is_issuer :: account_uid_type
  asset_to_issue :: asset
  issue_to_account :: account_uid_type

definition asset_issue_validate :: "safe_ops \<Rightarrow> (64 word \<Rightarrow> 64 word) \<Rightarrow> asset_issue_operation \<Rightarrow> unit result" where
  "asset_issue_validate fc sha op =
     bindE (validate_op_fee fc (is_fee op)) (\<lambda>_.
     bindE (validate_account_uid sha (is_issuer op)) (\<lambda>_.
     bindE (validate_account_uid sha (issue_to_account op)) (\<lambda>_.
     fc_assert (amount (asset_to_issue op) \<le> max_share_supply) ''Can not issue more than max supply''
    (fc_assert (amount (asset_to_issue op) > 0) ''Can only issue positive amount''
    (fc_assert (asset_id (asset_to_issue op) \<noteq> core_asset_aid) ''Can not issue CORE asset'' (Inr ()))))))"

text \<open>The size of the packed memo, when there is one.\<close>

definition asset_issue_calculate_fee :: "safe_ops \<Rightarrow> 64 word \<Rightarrow> 32 word \<Rightarrow> 64 word option \<Rightarrow> int result" where
  "asset_issue_calculate_fee fc fee price_per_kbyte memo_size =
     (case memo_size of None \<Rightarrow> Inr (sint fee) | Some n \<Rightarrow> fee_with_data fc fee n price_per_kbyte)"

definition asset_issue_evaluate :: "safe_ops \<Rightarrow> asset_issue_operation \<Rightarrow> ledger \<Rightarrow> asset_dynamic_data_object result" where
  "asset_issue_evaluate fc op st =
     fc_assert (ledger_time st \<ge> HARDFORK_0_3_TIME) ''Can only use asset_issue after HARDFORK_0_3_TIME''
    (bindE (get_asset_by_aid (asset_id (asset_to_issue op)) st) (\<lambda>a.
     fc_assert (is_issuer op = issuer a) ''only asset issuer can issue asset''
    (fc_assert (can_issue_asset a) ''issue_asset flag is disabled for this asset''
    (bindE (get_account_by_uid (issue_to_account op) st) (\<lambda>to_account.
     bindE (validate_authorized_asset to_account a) (\<lambda>_.
     bindE (dynamic_data (object_asset_id a) st) (\<lambda>d.
     bindE (sadd fc (current_supply d) (amount (asset_to_issue op))) (\<lambda>x.
       fc_assert (x \<le> max_supply (options a)) ''can not create more than max supply'' (Inr d)))))))))"

text \<open>The dynamic data is an object of the database: it is read again when it is modified.\<close>

definition asset_issue_apply :: "safe_ops \<Rightarrow> asset_issue_operation \<Rightarrow> ledger \<Rightarrow> (operation_result \<times> ledger) result" where
  "asset_issue_apply fc op st =
     bindE (adjust_balance fc (issue_to_account op) (asset_to_issue op) st) (\<lambda>st.
     bindE (dynamic_data (asset_id (asset_to_issue op)) st) (\<lambda>d.
     bindE (sadd fc (current_supply d) (amount (asset_to_issue op))) (\<lambda>x.
       Inr (Void_Result, put_dynamic (d\<lparr>current_supply := x\<rparr>) st))))"

record asset_reserve_operation =
  rs_fee :: fee_type
  rs_payer :: account_uid_type
  amount_to_reserve :: asset

definition asset_reserve_validate :: "safe_ops \<Rightarrow> (64 word \<Rightarrow> 64 word) \<Rightarrow> asset_reserve_operation \<Rightarrow> unit result" where
  "asset_reserve_validate fc sha op =
     bindE (validate_op_fee fc (rs_fee op)) (\<lambda>_.
     bindE (validate_account_uid sha (rs_payer op)) (\<lambda>_.
     fc_assert (amount (amount_to_reserve op) \<le> max_share_supply) ''Can not reserve more than max supply''
    (fc_assert (amount (amount_to_reserve op) > 0) ''Can only reserve positive amount'' (Inr ()))))"

definition asset_reserve_evaluate :: "safe_ops \<Rightarrow> asset_reserve_operation \<Rightarrow> ledger \<Rightarrow> asset_dynamic_data_object result" where
  "asset_reserve_evaluate fc op st =
     fc_assert (ledger_time st \<ge> HARDFORK_0_3_TIME) ''Can only use asset_reserve after HARDFORK_0_3_TIME''
    (bindE (get_asset_by_aid (asset_id (amount_to_reserve op)) st) (\<lambda>a.
     bindE (get_account_by_uid (rs_payer op) st) (\<lambda>from_account.
     bindE (validate_authorized_asset from_account a) (\<lambda>_.
     bindE (dynamic_data (object_asset_id a) st) (\<lambda>d.
     bindE (ssub fc (current_supply d) (amount (amount_to_reserve op))) (\<lambda>x.
       fc_assert (x \<ge> 0) ''Can not reserve more than current supply'' (Inr d)))))))"

definition asset_reserve_apply :: "safe_ops \<Rightarrow> asset_reserve_operation \<Rightarrow> ledger \<Rightarrow> (operation_result \<times> ledger) result" where
  "asset_reserve_apply fc op st =
     bindE (asset_neg fc (amount_to_reserve op)) (\<lambda>e.
     bindE (adjust_balance fc (rs_payer op) e st) (\<lambda>st.
     bindE (dynamic_data (asset_id (amount_to_reserve op)) st) (\<lambda>d.
     bindE (ssub fc (current_supply d) (amount (amount_to_reserve op))) (\<lambda>x.
       Inr (Void_Result, put_dynamic (d\<lparr>current_supply := x\<rparr>) st)))))"

section \<open>Update and claim\<close>

record asset_update_operation =
  au_fee :: fee_type
  au_issuer :: account_uid_type
  asset_to_update :: asset_aid_type
  new_precision :: "8 word option"
  new_options :: asset_options

definition asset_update_validate :: "safe_ops \<Rightarrow> (64 word \<Rightarrow> 64 word) \<Rightarrow> asset_update_operation \<Rightarrow> unit result" where
  "asset_update_validate fc sha op =
     bindE (validate_op_fee fc (au_fee op)) (\<lambda>_.
     bindE (validate_account_uid sha (au_issuer op)) (\<lambda>_.
     fc_assert (case new_precision op of Some p \<Rightarrow> p \<le> 12 | None \<Rightarrow> True) ''new precision should be no more than 12''
       (asset_options_validate (new_options op))))"

definition asset_update_calculate_fee :: "safe_ops \<Rightarrow> (asset_options \<Rightarrow> 64 word) \<Rightarrow> 64 word \<Rightarrow> 32 word \<Rightarrow> asset_update_operation \<Rightarrow> int result" where
  "asset_update_calculate_fee fc data_size fee price_per_kbyte op =
     fee_with_data fc fee (data_size (new_options op)) price_per_kbyte"

definition asset_update_evaluate :: "asset_update_operation \<Rightarrow> ledger \<Rightarrow> asset_object result" where
  "asset_update_evaluate op st =
     fc_assert (ledger_time st \<ge> HARDFORK_0_3_TIME) ''Can only use asset_update after HARDFORK_0_3_TIME''
    (bindE (check_fee_options (new_options op) st) (\<lambda>_.
     bindE (get_asset_by_aid (asset_to_update op) st) (\<lambda>a.
     let opts = options a; copy = a\<lparr>options := new_options op\<rparr>
     in fc_assert (\<not> can_change_max_supply a \<and> \<not> can_change_max_supply copy \<longrightarrow> max_supply opts = max_supply (new_options op))
          ''change_max_supply flag is disabled for this asset''
       (fc_assert (new_precision op \<noteq> Some (precision a)) ''new precision should not be equal to current precision''
       (bindE (dynamic_data (object_asset_id a) st) (\<lambda>d.
        fc_assert (current_supply d \<noteq> 0 \<longrightarrow> new_precision op = None) ''Cannot change asset precision when current supply is not zero''
       (fc_assert (current_supply d \<noteq> 0 \<longrightarrow> NOT (issuer_permissions (new_options op)) AND issuer_permissions opts = 0)
          ''Cannot reinstate previously revoked issuer permissions on an asset.''
       (fc_assert ((flags (new_options op) XOR flags opts) AND issuer_permissions opts = 0) ''Flag change is forbidden by issuer permissions''
       (fc_assert (au_issuer op = issuer a) ''only asset issuer can update asset''
       (bindE (check_authorities (new_options op) st) (\<lambda>_. Inr a)))))))))))"

definition asset_update_apply :: "asset_update_operation \<Rightarrow> asset_object \<Rightarrow> ledger \<Rightarrow> (operation_result \<times> ledger) result" where
  "asset_update_apply op a st =
     Inr (Void_Result, st\<lparr>asset_objects := row_put object_asset_id
       (a\<lparr>precision := (case new_precision op of Some p \<Rightarrow> p | None \<Rightarrow> precision a), options := new_options op\<rparr>) (asset_objects st)\<rparr>)"

record asset_claim_fees_operation =
  cf_fee :: fee_type
  cf_issuer :: account_uid_type
  amount_to_claim :: asset

definition asset_claim_fees_validate :: "safe_ops \<Rightarrow> (64 word \<Rightarrow> 64 word) \<Rightarrow> asset_claim_fees_operation \<Rightarrow> unit result" where
  "asset_claim_fees_validate fc sha op =
     bindE (validate_op_fee fc (cf_fee op)) (\<lambda>_.
     bindE (validate_account_uid sha (cf_issuer op)) (\<lambda>_.
       fc_assert (amount (amount_to_claim op) > 0) ''Should claim a positive amount'' (Inr ())))"

definition asset_claim_fees_evaluate :: "asset_claim_fees_operation \<Rightarrow> ledger \<Rightarrow> unit result" where
  "asset_claim_fees_evaluate op st =
     fc_assert (ledger_time st \<ge> HARDFORK_0_3_TIME) ''Can only use asset_claim after HARDFORK_0_3_TIME''
    (bindE (get_asset_by_aid (asset_id (amount_to_claim op)) st) (\<lambda>a.
     fc_assert (issuer a = cf_issuer op) ''Asset fees may only be claimed by the issuer'' (Inr ())))"

definition asset_claim_fees_apply :: "safe_ops \<Rightarrow> asset_claim_fees_operation \<Rightarrow> ledger \<Rightarrow> (operation_result \<times> ledger) result" where
  "asset_claim_fees_apply fc op st =
     bindE (get_asset_by_aid (asset_id (amount_to_claim op)) st) (\<lambda>a.
     bindE (dynamic_data (object_asset_id a) st) (\<lambda>d.
     fc_assert (amount (amount_to_claim op) \<le> accumulated_fees d) ''Attempt to claim more fees than have accumulated''
    (bindE (ssub fc (accumulated_fees d) (amount (amount_to_claim op))) (\<lambda>x.
     bindE (adjust_balance fc (cf_issuer op) (amount_to_claim op) (put_dynamic (d\<lparr>accumulated_fees := x\<rparr>) st)) (\<lambda>st.
       Inr (Void_Result, st))))))"

end
