(* ===== verification/Csaf_Ops.thy ===== *)
theory Csaf_Ops
  imports Fees
begin

text \<open>
  Coin-seconds as fee and locked balances: \<^verbatim>\<open>csaf_evaluator.cpp\<close>, \<^verbatim>\<open>protocol/csaf.cpp\<close>,
  \<^verbatim>\<open>balance_lock_evaluator.cpp\<close>, \<^verbatim>\<open>protocol/balance_lock.cpp\<close>, the collection of pledge bonuses of
  \<^verbatim>\<open>pledge_mining_evaluator.cpp\<close> and the expiry of leases in \<^verbatim>\<open>db_update.cpp\<close>.
\<close>

definition GRAPHENE_MAX_CSAF_COLLECTING_TIME_OFFSET :: "32 word" where
  "GRAPHENE_MAX_CSAF_COLLECTING_TIME_OFFSET = 300"

definition refresh_coin_seconds :: "safe_ops \<Rightarrow> nat \<Rightarrow> ledger \<Rightarrow> account_statistics_object \<Rightarrow> account_statistics_object result" where
  "refresh_coin_seconds fc hf st s =
     update_coin_seconds_earned fc (pledge_of st) (csaf_accumulate_window (lparams st)) (ledger_time st) hf s"

section \<open>Collecting\<close>

record csaf_collect_operation =
  cc_fee :: fee_type
  cc_from :: account_uid_type
  cc_to :: account_uid_type
  cc_amount :: asset
  cc_time :: "32 word"

definition csaf_collect_validate :: "safe_ops \<Rightarrow> (64 word \<Rightarrow> 64 word) \<Rightarrow> csaf_collect_operation \<Rightarrow> unit result" where
  "csaf_collect_validate fc sha op =
     bindE (validate_op_fee fc (cc_fee op)) (\<lambda>_.
     bindE (validate_account_uid sha (cc_from op)) (\<lambda>_.
     bindE (validate_account_uid sha (cc_to op)) (\<lambda>_.
     bindE (validate_positive_core_asset (cc_amount op)) (\<lambda>_.
       fc_assert (cc_time op mod 60 = 0) ''time should be rounded down to nearest minute'' (Inr ())))))"

text \<open>What the receiver may hold: the general limit, raised by its locked balance after the fork.\<close>

definition csaf_limit :: "safe_ops \<Rightarrow> account_statistics_object \<Rightarrow> ledger \<Rightarrow> int result" where
  "csaf_limit fc s st =
     (case map_of (pledge_balance_ids s) Lock_balance of
        Some i \<Rightarrow>
          if ledger_fork st \<ge> enable_head_fork_05
          then bindE (db_get_pledge (pledge_of st) i) (\<lambda>pb.
               sadd fc (max_csaf_per_account (lparams st))
                 (share_of_u128 ((u128 (pledge pb) * ucast (csaf_limit_lock_balance_modulus (lparams st))) div u128 GRAPHENE_100_PERCENT)))
          else Inr (max_csaf_per_account (lparams st))
      | None \<Rightarrow> Inr (max_csaf_per_account (lparams st)))"

text \<open>The result is the pair of available and collected coin-seconds.\<close>

definition csaf_collect_evaluate :: "safe_ops \<Rightarrow> csaf_collect_operation \<Rightarrow> ledger \<Rightarrow> (128 word \<times> 128 word) result" where
  "csaf_collect_evaluate fc op st =
     bindE (get_account_statistics_by_uid (cc_from op) st) (\<lambda>from_stats.
     bindE (get_account_statistics_by_uid (cc_to op) st) (\<lambda>to_stats.
     bindE (csaf_limit fc to_stats st) (\<lambda>limit.
     bindE (sadd fc (amount (cc_amount op)) (csaf to_stats)) (\<lambda>x.
     fc_assert (x \<le> limit) ''Maximum CSAF per account exceeded''
    (fc_assert (cc_time op \<le> ledger_time st) ''Time should not be later than head block time''
    (fc_assert (cc_time op + GRAPHENE_MAX_CSAF_COLLECTING_TIME_OFFSET \<ge> ledger_time st)
       ''Time should not be earlier than 5 minutes before head block time''
    (bindE (compute_coin_seconds_earned_fix fc (pledge_of st) (csaf_accumulate_window (lparams st)) (cc_time op) (ledger_fork st) from_stats) (\<lambda>(available, _).
     let collecting = u128 (amount (cc_amount op)) * ucast (csaf_rate (lparams st))
     in fc_assert (available \<ge> collecting) ''Insufficient CSAF'' (Inr (available, collecting))))))))))"

definition csaf_collect_apply :: "safe_ops \<Rightarrow> csaf_collect_operation \<Rightarrow> 128 word \<times> 128 word \<Rightarrow> ledger \<Rightarrow> (operation_result \<times> ledger) result" where
  "csaf_collect_apply fc op ev st =
     bindE (get_account_statistics_by_uid (cc_from op) st) (\<lambda>s.
     let st = put_stats (set_coin_seconds_earned (fst ev - snd ev) (cc_time op) s) st
     in bindE (get_account_statistics_by_uid (cc_to op) st) (\<lambda>s.
        bindE (sadd fc (csaf s) (amount (cc_amount op))) (\<lambda>x.
          Inr (Void_Result, put_stats (s\<lparr>csaf := x\<rparr>) st))))"

section \<open>Leasing\<close>

record csaf_lease_operation =
  cl_fee :: fee_type
  cl_from :: account_uid_type
  cl_to :: account_uid_type
  cl_amount :: asset
  cl_expiration :: "32 word"

definition csaf_lease_validate :: "safe_ops \<Rightarrow> (64 word \<Rightarrow> 64 word) \<Rightarrow> csaf_lease_operation \<Rightarrow> unit result" where
  "csaf_lease_validate fc sha op =
     bindE (validate_op_fee fc (cl_fee op)) (\<lambda>_.
     bindE (validate_account_uid sha (cl_from op)) (\<lambda>_.
     bindE (validate_account_uid sha (cl_to op)) (\<lambda>_.
     bindE (validate_non_negative_core_asset (cl_amount op)) (\<lambda>_.
       fc_assert (cl_from op \<noteq> cl_to op) ''can not lease to self.'' (Inr ())))))"

definition find_lease :: "account_uid_type \<Rightarrow> account_uid_type \<Rightarrow> ledger \<Rightarrow> csaf_lease_object option" where
  "find_lease u v st = row_find (\<lambda>l. (lease_from l, lease_to l)) (u, v) (csaf_leases st)"

text \<open>The result is the current lease, if there is one, and the change of the leased amount.\<close>

definition csaf_lease_evaluate :: "safe_ops \<Rightarrow> csaf_lease_operation \<Rightarrow> ledger \<Rightarrow> (csaf_lease_object option \<times> int) result" where
  "csaf_lease_evaluate fc op st =
     fc_assert (amount (cl_amount op) = 0 \<or> cl_expiration op > ledger_time st) ''CSAF lease should expire later''
    (bindE (case find_lease (cl_from op) (cl_to op) st of
              None \<Rightarrow> fc_assert (amount (cl_amount op) > 0) ''Should lease something'' (Inr (None, amount (cl_amount op)))
            | Some l \<Rightarrow> fc_assert (lease_amount l \<noteq> amount (cl_amount op) \<or> lease_expiration l \<noteq> cl_expiration op) ''Should change something''
                (bindE (ssub fc (amount (cl_amount op)) (lease_amount l)) (\<lambda>delta. Inr (Some l, delta)))) (\<lambda>(current_lease, delta).
     bindE (get_account_statistics_by_uid (cl_from op) st) (\<lambda>from_stats.
     bindE (get_account_statistics_by_uid (cl_to op) st) (\<lambda>_.
     bindE (if delta > 0
            then bindE (get_available_core_balance fc (pledge_of st) from_stats) (\<lambda>available.
                 fc_assert (available \<ge> delta) ''Insufficient Balance'' (Inr ()))
            else Inr ()) (\<lambda>_. Inr (current_lease, delta))))))"

definition refresh_before_fork :: "safe_ops \<Rightarrow> ledger \<Rightarrow> account_statistics_object \<Rightarrow> account_statistics_object result" where
  "refresh_before_fork fc st s =
     (if ledger_fork st < enable_head_fork_05 then refresh_coin_seconds fc (ledger_fork st) st s else Inr s)"

definition add_leased_out :: "safe_ops \<Rightarrow> account_uid_type \<Rightarrow> int \<Rightarrow> ledger \<Rightarrow> ledger result" where
  "add_leased_out fc u x st =
     bindE (get_account_statistics_by_uid u st) (\<lambda>s. bindE (refresh_before_fork fc st s) (\<lambda>s.
     bindE (sadd fc (core_leased_out s) x) (\<lambda>y. Inr (put_stats (s\<lparr>core_leased_out := y\<rparr>) st))))"

definition add_leased_in :: "safe_ops \<Rightarrow> account_uid_type \<Rightarrow> int \<Rightarrow> ledger \<Rightarrow> ledger result" where
  "add_leased_in fc u x st =
     bindE (get_account_statistics_by_uid u st) (\<lambda>s. bindE (refresh_before_fork fc st s) (\<lambda>s.
     bindE (sadd fc (core_leased_in s) x) (\<lambda>y. Inr (put_stats (s\<lparr>core_leased_in := y\<rparr>) st))))"

text \<open>The lease is created, changed or removed.\<close>

definition write_lease :: "csaf_lease_operation \<Rightarrow> csaf_lease_object option \<Rightarrow> ledger \<Rightarrow> nat \<times> ledger" where
  "write_lease op current st =
     (case current of
        None \<Rightarrow> (next_lease_id st,
          st\<lparr>csaf_leases := csaf_leases st @ [\<lparr>lease_id = next_lease_id st, lease_from = cl_from op, lease_to = cl_to op,
               lease_amount = amount (cl_amount op), lease_expiration = cl_expiration op\<rparr>], next_lease_id := Suc (next_lease_id st)\<rparr>)
      | Some l \<Rightarrow> (lease_id l,
          if amount (cl_amount op) > 0
          then st\<lparr>csaf_leases := row_put lease_id (l\<lparr>lease_amount := amount (cl_amount op), lease_expiration := cl_expiration op\<rparr>) (csaf_leases st)\<rparr>
          else st\<lparr>csaf_leases := row_remove lease_id (lease_id l) (csaf_leases st)\<rparr>))"

definition csaf_lease_apply :: "safe_ops \<Rightarrow> csaf_lease_operation \<Rightarrow> csaf_lease_object option \<times> int \<Rightarrow> ledger \<Rightarrow> (operation_result \<times> ledger) result" where
  "csaf_lease_apply fc op ev st =
     (let (i, st) = write_lease op (fst ev) st
      in bindE (if snd ev \<noteq> 0
                then bindE (add_leased_out fc (cl_from op) (snd ev) st) (add_leased_in fc (cl_to op) (snd ev)) else Inr st) (\<lambda>st.
           Inr (Object_Id_Result i, st)))"

text \<open>The loop over the index by expiration and id: the first lease goes until none is due.\<close>

definition first_lease :: "csaf_lease_object list \<Rightarrow> csaf_lease_object option" where
  "first_lease ls = (case sort_key (\<lambda>l. (lease_expiration l, lease_id l)) ls of [] \<Rightarrow> None | l # _ \<Rightarrow> Some l)"

definition sub_leased_out :: "safe_ops \<Rightarrow> account_uid_type \<Rightarrow> int \<Rightarrow> ledger \<Rightarrow> ledger result" where
  "sub_leased_out fc u x st =
     bindE (get_account_statistics_by_uid u st) (\<lambda>s. bindE (refresh_before_fork fc st s) (\<lambda>s.
     bindE (ssub fc (core_leased_out s) x) (\<lambda>y. Inr (put_stats (s\<lparr>core_leased_out := y\<rparr>) st))))"

definition sub_leased_in :: "safe_ops \<Rightarrow> account_uid_type \<Rightarrow> int \<Rightarrow> ledger \<Rightarrow> ledger result" where
  "sub_leased_in fc u x st =
     bindE (get_account_statistics_by_uid u st) (\<lambda>s. bindE (refresh_before_fork fc st s) (\<lambda>s.
     bindE (ssub fc (core_leased_in s) x) (\<lambda>y. Inr (put_stats (s\<lparr>core_leased_in := y\<rparr>) st))))"

definition end_lease :: "safe_ops \<Rightarrow> csaf_lease_object \<Rightarrow> ledger \<Rightarrow> ledger result" where
  "end_lease fc l st =
     bindE (sub_leased_out fc (lease_from l) (lease_amount l) st) (\<lambda>st.
     bindE (sub_leased_in fc (lease_to l) (lease_amount l) st) (\<lambda>st.
       Inr (st\<lparr>csaf_leases := row_remove lease_id (lease_id l) (csaf_leases st)\<rparr>)))"

fun expire_leases :: "nat \<Rightarrow> safe_ops \<Rightarrow> ledger \<Rightarrow> ledger result" where
  "expire_leases 0 fc st = Inr st"
| "expire_leases (Suc n) fc st =
     (case first_lease (csaf_leases st) of
        None \<Rightarrow> Inr st
      | Some l \<Rightarrow> if lease_expiration l \<le> ledger_time st then bindE (end_lease fc l st) (expire_leases n fc) else Inr st)"

text \<open>Every round removes a lease, so the number of leases bounds the loop.\<close>

definition clear_expired_csaf_leases :: "safe_ops \<Rightarrow> ledger \<Rightarrow> ledger result" where
  "clear_expired_csaf_leases fc st = expire_leases (length (csaf_leases st)) fc st"

section \<open>Locked balances\<close>

record balance_lock_update_operation =
  bl_fee :: fee_type
  bl_account :: account_uid_type
  new_lock_balance :: int
  bl_has_extensions :: bool

definition balance_lock_validate :: "safe_ops \<Rightarrow> (64 word \<Rightarrow> 64 word) \<Rightarrow> balance_lock_update_operation \<Rightarrow> unit result" where
  "balance_lock_validate fc sha op =
     bindE (validate_op_fee fc (bl_fee op)) (\<lambda>_.
     bindE (validate_account_uid sha (bl_account op)) (\<lambda>_.
     bindE (validate_non_negative_amount (new_lock_balance op)) (\<lambda>_.
       fc_assert (\<not> bl_has_extensions op) ''extension is currently not allowed'' (Inr ()))))"

text \<open>The result is the id and the object of the present lock, if there is one.\<close>

definition balance_lock_evaluate :: "safe_ops \<Rightarrow> balance_lock_update_operation \<Rightarrow> ledger \<Rightarrow> (nat \<times> pledge_balance_object) option result" where
  "balance_lock_evaluate fc op st =
     fc_assert (ledger_fork st \<ge> enable_head_fork_05) ''Can only update balance lock after HARDFORK_0_5_TIME''
    (bindE (get_account_statistics_by_uid (bl_account op) st) (\<lambda>s.
     bindE (case map_of (pledge_balance_ids s) Lock_balance of
              Some i \<Rightarrow> bindE (db_get_pledge (pledge_of st) i) (\<lambda>pb. Inr (Some (i, pb)))
            | None \<Rightarrow> Inr None) (\<lambda>lock.
     if new_lock_balance op > 0
     then fc_assert (case lock of Some (_, pb) \<Rightarrow> new_lock_balance op \<noteq> pledge pb | None \<Rightarrow> True) ''new_lock_balance specified but did not change''
         (bindE (get_available_core_balance_excluding fc (pledge_of st) Lock_balance s) (\<lambda>available.
          fc_assert (available \<ge> new_lock_balance op) ''Insufficient Balance'' (Inr lock)))
     else Inr lock)))"

text \<open>The map of an account's pledges is ordered by their type, in the order of the enumeration.\<close>

fun pledge_rank :: "pledge_balance_type \<Rightarrow> nat" where
  "pledge_rank Witness = 0"
| "pledge_rank Commitment = 1"
| "pledge_rank Platform = 2"
| "pledge_rank Lock_balance = 3"
| "pledge_rank Mine = 4"

lemma pledge_rank_eq: "pledge_rank x = pledge_rank y \<longleftrightarrow> x = y"
  by (cases x; cases y; simp)

instantiation pledge_balance_type :: linorder
begin

definition less_eq_pledge_balance_type :: "pledge_balance_type \<Rightarrow> pledge_balance_type \<Rightarrow> bool" where
  "less_eq_pledge_balance_type x y \<longleftrightarrow> pledge_rank x \<le> pledge_rank y"

definition less_pledge_balance_type :: "pledge_balance_type \<Rightarrow> pledge_balance_type \<Rightarrow> bool" where
  "less_pledge_balance_type x y \<longleftrightarrow> pledge_rank x < pledge_rank y"

instance
  by standard (auto simp: less_eq_pledge_balance_type_def less_pledge_balance_type_def pledge_rank_eq [symmetric])

end

definition ledger_pledge_env :: "ledger \<Rightarrow> pledge_env" where
  "ledger_pledge_env st = \<lparr>enabled_hardfork_version = ledger_fork st, max_pledge_releasing_size = pledge_releasing_size (lparams st)\<rparr>"

definition balance_lock_apply :: "safe_ops \<Rightarrow> balance_lock_update_operation \<Rightarrow> (nat \<times> pledge_balance_object) option \<Rightarrow> ledger \<Rightarrow> (operation_result \<times> ledger) result" where
  "balance_lock_apply fc op lock st =
     bindE (get_account_statistics_by_uid (bl_account op) st) (\<lambda>s.
     bindE (refresh_coin_seconds fc enable_head_fork_05 st s) (\<lambda>s.
     let st = put_stats s st
     in (case lock of
           Some (i, pb) \<Rightarrow>
             bindE (update_pledge fc (ledger_pledge_env st) (mk_asset (new_lock_balance op) core_asset_aid)
                      (ledger_block st + unlocked_balance_release_delay (lparams st)) pb) (\<lambda>(pb, _).
               Inr (Void_Result, st\<lparr>pledge_rows := AList.update i pb (pledge_rows st)\<rparr>))
         | None \<Rightarrow>
             let i = next_pledge_id st;
                 pb = \<lparr>superior_index = bl_account op, pledge_type = Lock_balance, pledge_asset_id = core_asset_aid,
                       pledge = new_lock_balance op, total_releasing_pledge = 0, releasing_pledges = []\<rparr>;
                 st = st\<lparr>pledge_rows := pledge_rows st @ [(i, pb)], next_pledge_id := Suc i\<rparr>
             in Inr (Void_Result, put_stats (s\<lparr>pledge_balance_ids := omap_put Lock_balance i (pledge_balance_ids s)\<rparr>) st))))"

section \<open>Pledge bonus\<close>

record pledge_bonus_collect_operation =
  pb_fee :: fee_type
  pb_account :: account_uid_type
  pb_bonus :: int
  pb_has_extensions :: bool

definition pledge_bonus_collect_validate :: "safe_ops \<Rightarrow> (64 word \<Rightarrow> 64 word) \<Rightarrow> pledge_bonus_collect_operation \<Rightarrow> unit result" where
  "pledge_bonus_collect_validate fc sha op =
     bindE (validate_op_fee fc (pb_fee op)) (\<lambda>_.
     bindE (validate_account_uid sha (pb_account op)) (\<lambda>_.
     bindE (validate_positive_core_asset (mk_asset (pb_bonus op) core_asset_aid)) (\<lambda>_.
       fc_assert (\<not> pb_has_extensions op) ''extension is currently not allowed'' (Inr ()))))"

definition pledge_bonus_collect_evaluate :: "pledge_bonus_collect_operation \<Rightarrow> ledger \<Rightarrow> unit result" where
  "pledge_bonus_collect_evaluate op st =
     fc_assert (ledger_fork st \<ge> enable_head_fork_05) ''Can only collect pledge bonus after HARDFORK_0_5_TIME''
    (bindE (get_account_statistics_by_uid (pb_account op) st) (\<lambda>s.
       fc_assert (uncollected_pledge_bonus s \<ge> pb_bonus op) ''Can not collect so much'' (Inr ())))"

definition pledge_bonus_collect_apply :: "safe_ops \<Rightarrow> pledge_bonus_collect_operation \<Rightarrow> ledger \<Rightarrow> (operation_result \<times> ledger) result" where
  "pledge_bonus_collect_apply fc op st =
     bindE (adjust_balance fc (pb_account op) (mk_asset (pb_bonus op) core_asset_aid) st) (\<lambda>st.
     bindE (get_account_statistics_by_uid (pb_account op) st) (\<lambda>s.
     bindE (ssub fc (uncollected_pledge_bonus s) (pb_bonus op)) (\<lambda>x.
       Inr (Void_Result, put_stats (s\<lparr>uncollected_pledge_bonus := x\<rparr>) st))))"

end
