(* ===== verification/Transfer_Ops.thy ===== *)
theory Transfer_Ops
  imports Fees Authority
begin

text \<open>
  Transfers: \<^verbatim>\<open>transfer_evaluator.cpp\<close>, \<^verbatim>\<open>protocol/transfer.cpp\<close> and \<^verbatim>\<open>protocol/transfer.hpp\<close>. A transfer
  takes its amount from the balance or from the prepaid core coins of the sender, in parts if the
  extension says so, and gives it to the balance or to the prepaid coins of the receiver.
\<close>

section \<open>Transfer\<close>

record transfer_ext =
  ext_from_balance :: "asset option"
  ext_from_prepaid :: "asset option"
  ext_to_balance :: "asset option"
  ext_to_prepaid :: "asset option"
  sign_platform :: "account_uid_type option"

record transfer_operation =
  tr_fee :: fee_type
  tr_from :: account_uid_type
  tr_to :: account_uid_type
  tr_amount :: asset
  tr_ext :: "transfer_ext option"

definition some_from_balance :: "transfer_operation \<Rightarrow> bool" where
  "some_from_balance op \<longleftrightarrow>
     (case tr_ext op of
        None \<Rightarrow> True
      | Some ev \<Rightarrow> (case ext_from_balance ev of Some a \<Rightarrow> amount a > 0 | None \<Rightarrow> False))"

definition transfer_required_active :: "transfer_operation \<Rightarrow> account_uid_type list" where
  "transfer_required_active op = (if some_from_balance op then [tr_from op] else [])"

definition transfer_required_secondary :: "transfer_operation \<Rightarrow> account_uid_type list" where
  "transfer_required_secondary op = (if some_from_balance op then [] else [tr_from op])"

definition opt_asset :: "asset_aid_type \<Rightarrow> asset option \<Rightarrow> asset" where
  "opt_asset i x = (case x of Some a \<Rightarrow> a | None \<Rightarrow> mk_asset 0 i)"

definition check_balance_part :: "asset_aid_type \<Rightarrow> asset option \<Rightarrow> unit result" where
  "check_balance_part i x = (case x of None \<Rightarrow> Inr ()
     | Some a \<Rightarrow> bindE (validate_positive_asset a) (\<lambda>_. validate_asset_id a i))"

definition check_prepaid_part :: "asset \<Rightarrow> asset option \<Rightarrow> unit result" where
  "check_prepaid_part amt x = (case x of None \<Rightarrow> Inr ()
     | Some a \<Rightarrow> bindE (validate_positive_core_asset a) (\<lambda>_. validate_core_asset_id amt))"

text \<open>The parts, when there are any, make up the whole amount.\<close>

definition check_parts :: "safe_ops \<Rightarrow> asset \<Rightarrow> asset \<Rightarrow> asset \<Rightarrow> unit result" where
  "check_parts fc amt bal pre =
     (if amount bal > 0 \<or> amount pre > 0
      then bindE (asset_add fc bal pre) (\<lambda>s. fc_assert (asset_eq amt s) ''amount should be equal to sum'' (Inr ()))
      else Inr ())"

definition transfer_validate :: "safe_ops \<Rightarrow> (64 word \<Rightarrow> 64 word) \<Rightarrow> transfer_operation \<Rightarrow> unit result" where
  "transfer_validate fc sha op =
     bindE (validate_op_fee fc (tr_fee op)) (\<lambda>_.
     bindE (validate_account_uid sha (tr_from op)) (\<lambda>_.
     bindE (validate_account_uid sha (tr_to op)) (\<lambda>_.
     bindE (validate_positive_asset (tr_amount op)) (\<lambda>_.
     case tr_ext op of
       None \<Rightarrow> fc_assert (tr_from op \<noteq> tr_to op) ''can not transfer to self.'' (Inr ())
     | Some ev \<Rightarrow>
         let i = asset_id (tr_amount op);
             from_balance = opt_asset i (ext_from_balance ev); from_prepaid = opt_asset i (ext_from_prepaid ev);
             to_balance = opt_asset i (ext_to_balance ev); to_prepaid = opt_asset i (ext_to_prepaid ev)
         in bindE (check_balance_part i (ext_from_balance ev)) (\<lambda>_.
            bindE (check_prepaid_part (tr_amount op) (ext_from_prepaid ev)) (\<lambda>_.
            bindE (check_balance_part i (ext_to_balance ev)) (\<lambda>_.
            bindE (check_prepaid_part (tr_amount op) (ext_to_prepaid ev)) (\<lambda>_.
            bindE (check_parts fc (tr_amount op) from_balance from_prepaid) (\<lambda>_.
            bindE (check_parts fc (tr_amount op) to_balance to_prepaid) (\<lambda>_.
              if tr_from op = tr_to op
              then fc_assert (amount from_prepaid = 0 \<and> amount to_prepaid = amount (tr_amount op) \<or>
                              amount from_prepaid = amount (tr_amount op) \<and> amount to_prepaid = 0)
                     ''when tranferring to self, can only transfer from balance to prepaid, or from prepaid to balance'' (Inr ())
              else Inr ()))))))))))"

definition GRAPHENE_MAX_PLATFORM_LIMIT_PREPAID :: int where
  "GRAPHENE_MAX_PLATFORM_LIMIT_PREPAID = 2 ^ 63 - 1"

text \<open>A platform that signs for the account needs its permission and stays within its limit.\<close>

definition check_platform :: "safe_ops \<Rightarrow> account_uid_type \<Rightarrow> transfer_operation \<Rightarrow> ledger \<Rightarrow> account_auth_platform_object option result" where
  "check_platform fc sign_account op st =
     (if some_from_balance op \<or> sign_account = tr_from op then Inr None
      else bindE (get_account_statistics_by_uid (tr_from op) st) (\<lambda>s.
        case find_account_auth_platform (tr_from op) sign_account st of
          None \<Rightarrow> Inr None
        | Some au \<Rightarrow>
            fc_assert (permission_flags au AND Platform_Permission_Transfer > 0) ''the transfer permisson of platform is invalid. ''
           (fc_assert (prepaid s \<ge> amount (tr_amount op)) ''Insufficient balance: unable to transfer''
           (if max_limit au < GRAPHENE_MAX_PLATFORM_LIMIT_PREPAID
            then bindE (get_auth_platform_usable_prepaid fc (prepaid s) au) (\<lambda>usable.
                 fc_assert (usable \<ge> amount (tr_amount op)) ''Insufficient balance: unable to forward'' (Inr (Some au)))
            else Inr (Some au)))))"

definition check_sign_platform :: "account_auth_platform_object option \<Rightarrow> transfer_operation \<Rightarrow> ledger \<Rightarrow> unit result" where
  "check_sign_platform auth op st =
     (case auth of
        Some au \<Rightarrow>
          if ledger_time st > HARDFORK_0_4_TIME
          then (case tr_ext op of
                  None \<Rightarrow> Inl (Assert_Exception ''op.extension must be exist.'')
                | Some ev \<Rightarrow> (case sign_platform ev of
                    None \<Rightarrow> Inl (Assert_Exception ''sign_platform must be valid.'')
                  | Some p \<Rightarrow> fc_assert (p = auth_platform au) ''sign_platform must be authorized by account'' (Inr ())))
          else Inr ()
      | None \<Rightarrow>
          (case tr_ext op of
             Some ev \<Rightarrow> fc_assert (ledger_time st > HARDFORK_0_4_TIME \<longrightarrow> sign_platform ev = None) ''sign_platform shouldn`t be valid.'' (Inr ())
           | None \<Rightarrow> Inr ()))"

record transfer_plan =
  asset_from_balance :: asset
  asset_from_prepaid :: asset
  asset_to_balance :: asset
  asset_to_prepaid :: asset
  auth_object :: "account_auth_platform_object option"

text \<open>One side of the plan: what is taken from (given to) the balance, and what from (to) the prepaid coins.\<close>

definition plan_side :: "asset \<Rightarrow> asset option \<Rightarrow> asset option \<Rightarrow> asset \<times> asset" where
  "plan_side amt bal pre =
     (let p = (case pre of Some a \<Rightarrow> if amount a > 0 then a else mk_asset 0 core_asset_aid | None \<Rightarrow> mk_asset 0 core_asset_aid)
      in (case bal of Some a \<Rightarrow> a | None \<Rightarrow> if amount p > 0 then amt\<lparr>amount := 0\<rparr> else amt, p))"

definition make_plan :: "account_auth_platform_object option \<Rightarrow> transfer_operation \<Rightarrow> transfer_plan" where
  "make_plan auth op =
     (case tr_ext op of
        None \<Rightarrow> \<lparr>asset_from_balance = tr_amount op, asset_from_prepaid = mk_asset 0 core_asset_aid,
                 asset_to_balance = tr_amount op, asset_to_prepaid = mk_asset 0 core_asset_aid, auth_object = auth\<rparr>
      | Some ev \<Rightarrow>
          let (fb, fp) = plan_side (tr_amount op) (ext_from_balance ev) (ext_from_prepaid ev);
              (tb, tp) = plan_side (tr_amount op) (ext_to_balance ev) (ext_to_prepaid ev)
          in \<lparr>asset_from_balance = fb, asset_from_prepaid = fp, asset_to_balance = tb, asset_to_prepaid = tp, auth_object = auth\<rparr>)"

definition transfer_evaluate :: "safe_ops \<Rightarrow> signed_information \<Rightarrow> transfer_operation \<Rightarrow> ledger \<Rightarrow> transfer_plan result" where
  "transfer_evaluate fc sigs op st =
     bindE (get_account_by_uid (tr_from op) st) (\<lambda>from_account.
     bindE (get_account_by_uid (tr_to op) st) (\<lambda>to_account.
     bindE (get_asset_by_aid (asset_id (tr_amount op)) st) (\<lambda>a.
     bindE (validate_authorized_asset from_account a) (\<lambda>_.
     bindE (validate_authorized_asset to_account a) (\<lambda>_.
     bindE (check_platform fc (real_secondary_uid sigs (tr_from op) 1) op st) (\<lambda>auth.
     bindE (check_sign_platform auth op st) (\<lambda>_.
     graphene_assert (is_transfer_restricted a \<longrightarrow> tr_from op = issuer a \<or> tr_to op = issuer a) Transfer_Restricted_Transfer_Asset
     (let plan = make_plan auth op
      in bindE (if amount (asset_from_prepaid plan) > 0
                then bindE (get_account_statistics_by_uid (tr_from op) st) (\<lambda>s.
                     fc_assert (prepaid s \<ge> amount (asset_from_prepaid plan)) ''Insufficient Prepaid'' (Inr ()))
                else Inr ()) (\<lambda>_.
         bindE (if amount (asset_to_prepaid plan) > 0
                then bindE (get_account_statistics_by_uid (tr_to op) st) (\<lambda>_. Inr ()) else Inr ()) (\<lambda>_.
           fc_assert (amount (asset_from_balance plan) > 0 \<longrightarrow>
               amount (get_balance (tr_from op) (object_asset_id a) st) \<ge> amount (asset_from_balance plan))
             ''Insufficient Balance'' (Inr plan)))))))))))"

definition add_prepaid :: "safe_ops \<Rightarrow> account_uid_type \<Rightarrow> int \<Rightarrow> ledger \<Rightarrow> ledger result" where
  "add_prepaid fc u x st =
     bindE (get_account_statistics_by_uid u st) (\<lambda>s.
     bindE (sadd fc (prepaid s) x) (\<lambda>y. Inr (put_stats (s\<lparr>prepaid := y\<rparr>) st)))"

definition sub_prepaid :: "safe_ops \<Rightarrow> account_uid_type \<Rightarrow> int \<Rightarrow> ledger \<Rightarrow> ledger result" where
  "sub_prepaid fc u x st =
     bindE (get_account_statistics_by_uid u st) (\<lambda>s.
     bindE (ssub fc (prepaid s) x) (\<lambda>y. Inr (put_stats (s\<lparr>prepaid := y\<rparr>) st)))"

definition use_auth :: "safe_ops \<Rightarrow> account_auth_platform_object option \<Rightarrow> int \<Rightarrow> ledger \<Rightarrow> ledger result" where
  "use_auth fc auth x st =
     (case auth of
        None \<Rightarrow> Inr st
      | Some au \<Rightarrow> bindE (sadd fc (cur_used au) x) (\<lambda>y.
          Inr (st\<lparr>auth_platforms := row_put (\<lambda>a. (auth_account a, auth_platform a)) (au\<lparr>cur_used := y\<rparr>) (auth_platforms st)\<rparr>)))"

definition transfer_apply :: "safe_ops \<Rightarrow> transfer_operation \<Rightarrow> transfer_plan \<Rightarrow> ledger \<Rightarrow> (operation_result \<times> ledger) result" where
  "transfer_apply fc op plan st =
     bindE (if amount (asset_from_balance plan) > 0
            then bindE (asset_neg fc (asset_from_balance plan)) (\<lambda>d. adjust_balance fc (tr_from op) d st) else Inr st) (\<lambda>st.
     bindE (if amount (asset_from_prepaid plan) > 0
            then bindE (sub_prepaid fc (tr_from op) (amount (asset_from_prepaid plan)) st)
                   (use_auth fc (auth_object plan) (amount (asset_from_prepaid plan))) else Inr st) (\<lambda>st.
     bindE (if amount (asset_to_balance plan) > 0 then adjust_balance fc (tr_to op) (asset_to_balance plan) st else Inr st) (\<lambda>st.
     bindE (if amount (asset_to_prepaid plan) > 0 then add_prepaid fc (tr_to op) (amount (asset_to_prepaid plan)) st else Inr st) (\<lambda>st.
       Inr (Void_Result, st)))))"

section \<open>Override transfer\<close>

record override_transfer_operation =
  ov_fee :: fee_type
  ov_issuer :: account_uid_type
  ov_from :: account_uid_type
  ov_to :: account_uid_type
  ov_amount :: asset

definition override_transfer_validate :: "safe_ops \<Rightarrow> (64 word \<Rightarrow> 64 word) \<Rightarrow> override_transfer_operation \<Rightarrow> unit result" where
  "override_transfer_validate fc sha op =
     bindE (validate_op_fee fc (ov_fee op)) (\<lambda>_.
     bindE (validate_account_uid sha (ov_issuer op)) (\<lambda>_.
     bindE (validate_account_uid sha (ov_from op)) (\<lambda>_.
     bindE (validate_account_uid sha (ov_to op)) (\<lambda>_.
     bindE (validate_positive_asset (ov_amount op)) (\<lambda>_.
     bindE (validate_non_core_asset_id (ov_amount op)) (\<lambda>_.
     fc_assert (ov_from op \<noteq> ov_to op) ''can not override-transfer from an account to the same account.''
    (fc_assert (ov_issuer op \<noteq> ov_from op) ''can not override-transfer from self'' (Inr ()))))))))"

definition override_transfer_evaluate :: "override_transfer_operation \<Rightarrow> ledger \<Rightarrow> unit result" where
  "override_transfer_evaluate op st =
     bindE (get_asset_by_aid (asset_id (ov_amount op)) st) (\<lambda>a.
     graphene_assert (can_override a) Override_Transfer_Not_Permitted
    (fc_assert (issuer a = ov_issuer op) ''only asset issuer can override-transfer asset''
    (bindE (get_account_by_uid (ov_from op) st) (\<lambda>_.
     bindE (get_account_by_uid (ov_to op) st) (\<lambda>to_account.
     bindE (validate_authorized_asset to_account a) (\<lambda>_.
       fc_assert (amount (get_balance (ov_from op) (object_asset_id a) st) \<ge> amount (ov_amount op)) ''balance'' (Inr ())))))))"

definition move_amount :: "safe_ops \<Rightarrow> account_uid_type \<Rightarrow> account_uid_type \<Rightarrow> asset \<Rightarrow> ledger \<Rightarrow> (operation_result \<times> ledger) result" where
  "move_amount fc u v amt st =
     bindE (asset_neg fc amt) (\<lambda>d. bindE (adjust_balance fc u d st) (\<lambda>st.
     bindE (adjust_balance fc v amt st) (\<lambda>st. Inr (Void_Result, st))))"

definition override_transfer_apply :: "safe_ops \<Rightarrow> override_transfer_operation \<Rightarrow> ledger \<Rightarrow> (operation_result \<times> ledger) result" where
  "override_transfer_apply fc op st = move_amount fc (ov_from op) (ov_to op) (ov_amount op) st"

section \<open>Inline transfer\<close>

text \<open>The transfer a contract makes; as an operation of its own it never validates.\<close>

record inline_transfer_operation =
  in_from :: account_uid_type
  in_to :: account_uid_type
  in_amount :: asset

definition inline_transfer_validate :: "inline_transfer_operation \<Rightarrow> unit result" where
  "inline_transfer_validate op = fc_assert False ''virtual operation'' (Inr ())"

definition inline_transfer_evaluate :: "inline_transfer_operation \<Rightarrow> ledger \<Rightarrow> unit result" where
  "inline_transfer_evaluate op st =
     bindE (get_account_by_uid (in_from op) st) (\<lambda>_.
     bindE (get_account_by_uid (in_to op) st) (\<lambda>_.
     bindE (get_asset_by_aid (asset_id (in_amount op)) st) (\<lambda>a.
       fc_assert (amount (get_balance (in_from op) (object_asset_id a) st) \<ge> amount (in_amount op)) ''Insufficient Balance'' (Inr ()))))"

definition inline_transfer_apply :: "safe_ops \<Rightarrow> inline_transfer_operation \<Rightarrow> ledger \<Rightarrow> (operation_result \<times> ledger) result" where
  "inline_transfer_apply fc op st = move_amount fc (in_from op) (in_to op) (in_amount op) st"

end
