(* ===== verification/Operations.thy ===== *)
theory Operations
  imports Market Asset_Ops Csaf_Ops Transfer_Ops
begin

text \<open>
  The operations on assets as one type, with the dispatch of \<^verbatim>\<open>operation_validate\<close>
  (\<^verbatim>\<open>protocol/operations.cpp\<close>) and of \<^verbatim>\<open>database::apply_operation\<close> (\<^verbatim>\<open>db_block.cpp\<close>) through the generic
  evaluator. The history of applied operations keeps the virtual ones only; recording an operation
  before it is evaluated is for the account history.
\<close>

datatype operation =
    Transfer_Op transfer_operation
  | Csaf_Collect_Op csaf_collect_operation
  | Csaf_Lease_Op csaf_lease_operation
  | Asset_Create_Op asset_create_operation
  | Asset_Update_Op asset_update_operation
  | Asset_Issue_Op asset_issue_operation
  | Asset_Reserve_Op asset_reserve_operation
  | Asset_Claim_Fees_Op asset_claim_fees_operation
  | Override_Transfer_Op override_transfer_operation
  | Balance_Lock_Op balance_lock_update_operation
  | Pledge_Bonus_Collect_Op pledge_bonus_collect_operation
  | Limit_Order_Create_Op limit_order_create_operation
  | Order_Cancel_Op limit_order_cancel_operation
  | Market_Fee_Collect_Op market_fee_collect_operation

primrec op_fee :: "operation \<Rightarrow> fee_type" where
  "op_fee (Transfer_Op x) = tr_fee x"
| "op_fee (Csaf_Collect_Op x) = cc_fee x"
| "op_fee (Csaf_Lease_Op x) = cl_fee x"
| "op_fee (Asset_Create_Op x) = ac_fee x"
| "op_fee (Asset_Update_Op x) = au_fee x"
| "op_fee (Asset_Issue_Op x) = is_fee x"
| "op_fee (Asset_Reserve_Op x) = rs_fee x"
| "op_fee (Asset_Claim_Fees_Op x) = cf_fee x"
| "op_fee (Override_Transfer_Op x) = ov_fee x"
| "op_fee (Balance_Lock_Op x) = bl_fee x"
| "op_fee (Pledge_Bonus_Collect_Op x) = pb_fee x"
| "op_fee (Limit_Order_Create_Op x) = loc_fee x"
| "op_fee (Order_Cancel_Op x) = cancel_fee x"
| "op_fee (Market_Fee_Collect_Op x) = mfc_fee x"

primrec fee_payer_uid :: "operation \<Rightarrow> account_uid_type" where
  "fee_payer_uid (Transfer_Op x) = tr_from x"
| "fee_payer_uid (Csaf_Collect_Op x) = cc_from x"
| "fee_payer_uid (Csaf_Lease_Op x) = cl_from x"
| "fee_payer_uid (Asset_Create_Op x) = ac_issuer x"
| "fee_payer_uid (Asset_Update_Op x) = au_issuer x"
| "fee_payer_uid (Asset_Issue_Op x) = is_issuer x"
| "fee_payer_uid (Asset_Reserve_Op x) = rs_payer x"
| "fee_payer_uid (Asset_Claim_Fees_Op x) = cf_issuer x"
| "fee_payer_uid (Override_Transfer_Op x) = ov_issuer x"
| "fee_payer_uid (Balance_Lock_Op x) = bl_account x"
| "fee_payer_uid (Pledge_Bonus_Collect_Op x) = pb_account x"
| "fee_payer_uid (Limit_Order_Create_Op x) = loc_seller x"
| "fee_payer_uid (Order_Cancel_Op x) = fee_paying_account x"
| "fee_payer_uid (Market_Fee_Collect_Op x) = mfc_account x"

primrec operation_validate :: "safe_ops \<Rightarrow> (64 word \<Rightarrow> 64 word) \<Rightarrow> operation \<Rightarrow> unit result" where
  "operation_validate fc sha (Transfer_Op x) = transfer_validate fc sha x"
| "operation_validate fc sha (Csaf_Collect_Op x) = csaf_collect_validate fc sha x"
| "operation_validate fc sha (Csaf_Lease_Op x) = csaf_lease_validate fc sha x"
| "operation_validate fc sha (Asset_Create_Op x) = asset_create_validate fc sha x"
| "operation_validate fc sha (Asset_Update_Op x) = asset_update_validate fc sha x"
| "operation_validate fc sha (Asset_Issue_Op x) = asset_issue_validate fc sha x"
| "operation_validate fc sha (Asset_Reserve_Op x) = asset_reserve_validate fc sha x"
| "operation_validate fc sha (Asset_Claim_Fees_Op x) = asset_claim_fees_validate fc sha x"
| "operation_validate fc sha (Override_Transfer_Op x) = override_transfer_validate fc sha x"
| "operation_validate fc sha (Balance_Lock_Op x) = balance_lock_validate fc sha x"
| "operation_validate fc sha (Pledge_Bonus_Collect_Op x) = pledge_bonus_collect_validate fc sha x"
| "operation_validate fc sha (Limit_Order_Create_Op x) = limit_order_create_validate fc sha x"
| "operation_validate fc sha (Order_Cancel_Op x) = limit_order_cancel_validate fc sha x"
| "operation_validate fc sha (Market_Fee_Collect_Op x) = market_fee_collect_validate fc sha x"

text \<open>
  The evaluator registered for each operation, run through the generic one. The required fee is the
  pair that the fee schedule gives for the operation; it is absent when the check is skipped. Nothing
  sets the flag \<^verbatim>\<open>skip_fee\<close> of the transaction state.
\<close>

primrec apply_operation :: "safe_ops \<Rightarrow> (int \<times> int) option \<Rightarrow> signed_information \<Rightarrow> operation \<Rightarrow> ledger \<Rightarrow> (operation_result \<times> ledger) result" where
  "apply_operation fc required sigs (Transfer_Op x) st =
     start_evaluate fc False required (tr_from x) (tr_fee x) (transfer_evaluate fc sigs x) (transfer_apply fc x) st"
| "apply_operation fc required sigs (Csaf_Collect_Op x) st =
     start_evaluate fc False required (cc_from x) (cc_fee x) (csaf_collect_evaluate fc x) (csaf_collect_apply fc x) st"
| "apply_operation fc required sigs (Csaf_Lease_Op x) st =
     start_evaluate fc False required (cl_from x) (cl_fee x) (csaf_lease_evaluate fc x) (csaf_lease_apply fc x) st"
| "apply_operation fc required sigs (Asset_Create_Op x) st =
     start_evaluate fc False required (ac_issuer x) (ac_fee x) (asset_create_evaluate x) (\<lambda>_. asset_create_apply fc x) st"
| "apply_operation fc required sigs (Asset_Update_Op x) st =
     start_evaluate fc False required (au_issuer x) (au_fee x) (asset_update_evaluate x) (asset_update_apply x) st"
| "apply_operation fc required sigs (Asset_Issue_Op x) st =
     start_evaluate fc False required (is_issuer x) (is_fee x) (asset_issue_evaluate fc x) (\<lambda>_. asset_issue_apply fc x) st"
| "apply_operation fc required sigs (Asset_Reserve_Op x) st =
     start_evaluate fc False required (rs_payer x) (rs_fee x) (asset_reserve_evaluate fc x) (\<lambda>_. asset_reserve_apply fc x) st"
| "apply_operation fc required sigs (Asset_Claim_Fees_Op x) st =
     start_evaluate fc False required (cf_issuer x) (cf_fee x) (asset_claim_fees_evaluate x) (\<lambda>_. asset_claim_fees_apply fc x) st"
| "apply_operation fc required sigs (Override_Transfer_Op x) st =
     start_evaluate fc False required (ov_issuer x) (ov_fee x) (override_transfer_evaluate x) (\<lambda>_. override_transfer_apply fc x) st"
| "apply_operation fc required sigs (Balance_Lock_Op x) st =
     start_evaluate fc False required (bl_account x) (bl_fee x) (balance_lock_evaluate fc x) (balance_lock_apply fc x) st"
| "apply_operation fc required sigs (Pledge_Bonus_Collect_Op x) st =
     start_evaluate fc False required (pb_account x) (pb_fee x) (pledge_bonus_collect_evaluate x) (\<lambda>_. pledge_bonus_collect_apply fc x) st"
| "apply_operation fc required sigs (Limit_Order_Create_Op x) st =
     start_evaluate fc False required (loc_seller x) (loc_fee x) (limit_order_create_evaluate x) (\<lambda>_. limit_order_create_apply fc x) st"
| "apply_operation fc required sigs (Order_Cancel_Op x) st =
     start_evaluate fc False required (fee_paying_account x) (cancel_fee x) (limit_order_cancel_evaluate x) (limit_order_cancel_apply fc) st"
| "apply_operation fc required sigs (Market_Fee_Collect_Op x) st =
     start_evaluate fc False required (mfc_account x) (mfc_fee x) (market_fee_collect_evaluate x) (\<lambda>_. market_fee_collect_apply fc x) st"

text \<open>The operations of a transaction, in order.\<close>

definition apply_operations :: "safe_ops \<Rightarrow> (operation \<Rightarrow> (int \<times> int) option) \<Rightarrow> signed_information \<Rightarrow> operation list \<Rightarrow> ledger \<Rightarrow> ledger result" where
  "apply_operations fc schedule sigs ops st =
     foldE (\<lambda>op st. bindE (apply_operation fc (schedule op) sigs op st) (\<lambda>(_, st). Inr st)) ops st"

section \<open>Amounts of operations\<close>

text \<open>The amounts of an operation have the type \<^verbatim>\<open>share_type\<close>, so they are 64-bit integers.\<close>

definition asset_fits :: "asset \<Rightarrow> bool" where
  "asset_fits a \<longleftrightarrow> fits64 (amount a)"

definition opt_fits :: "asset option \<Rightarrow> bool" where
  "opt_fits x \<longleftrightarrow> (case x of None \<Rightarrow> True | Some a \<Rightarrow> asset_fits a)"

definition fee_fits :: "fee_type \<Rightarrow> bool" where
  "fee_fits f \<longleftrightarrow> asset_fits (fee_total f) \<and>
     (case fee_opts f of None \<Rightarrow> True
      | Some fov \<Rightarrow> opt_fits (fee_from_balance fov) \<and> opt_fits (fee_from_prepaid fov) \<and> opt_fits (fee_from_csaf fov))"

definition options_fit :: "asset_options \<Rightarrow> bool" where
  "options_fit opts \<longleftrightarrow> fits64 (max_supply opts) \<and> fits64 (max_market_fee opts)"

primrec amounts_fit :: "operation \<Rightarrow> bool" where
  "amounts_fit (Transfer_Op x) \<longleftrightarrow> asset_fits (tr_amount x) \<and>
     (case tr_ext x of None \<Rightarrow> True
      | Some ev \<Rightarrow> opt_fits (ext_from_balance ev) \<and> opt_fits (ext_from_prepaid ev) \<and> opt_fits (ext_to_balance ev) \<and> opt_fits (ext_to_prepaid ev))"
| "amounts_fit (Csaf_Collect_Op x) \<longleftrightarrow> asset_fits (cc_amount x)"
| "amounts_fit (Csaf_Lease_Op x) \<longleftrightarrow> asset_fits (cl_amount x)"
| "amounts_fit (Asset_Create_Op x) \<longleftrightarrow> options_fit (common_options x) \<and> fits64 (initial_supply x)"
| "amounts_fit (Asset_Update_Op x) \<longleftrightarrow> options_fit (new_options x)"
| "amounts_fit (Asset_Issue_Op x) \<longleftrightarrow> asset_fits (asset_to_issue x)"
| "amounts_fit (Asset_Reserve_Op x) \<longleftrightarrow> asset_fits (amount_to_reserve x)"
| "amounts_fit (Asset_Claim_Fees_Op x) \<longleftrightarrow> asset_fits (amount_to_claim x)"
| "amounts_fit (Override_Transfer_Op x) \<longleftrightarrow> asset_fits (ov_amount x)"
| "amounts_fit (Balance_Lock_Op x) \<longleftrightarrow> fits64 (new_lock_balance x)"
| "amounts_fit (Pledge_Bonus_Collect_Op x) \<longleftrightarrow> fits64 (pb_bonus x)"
| "amounts_fit (Limit_Order_Create_Op x) \<longleftrightarrow> asset_fits (amount_to_sell x) \<and> asset_fits (min_to_receive x)"
| "amounts_fit (Order_Cancel_Op x) \<longleftrightarrow> True"
| "amounts_fit (Market_Fee_Collect_Op x) \<longleftrightarrow> fits64 (mfc_amount x)"

definition op_fits :: "operation \<Rightarrow> bool" where
  "op_fits op \<longleftrightarrow> fee_fits (op_fee op) \<and> amounts_fit op"

section \<open>Steps of the chain\<close>

text \<open>A validated operation is applied, or a block clears what has expired.\<close>

inductive ledger_step :: "safe_ops \<Rightarrow> (64 word \<Rightarrow> 64 word) \<Rightarrow> ledger \<Rightarrow> ledger \<Rightarrow> bool" for fc sha where
  operation: "operation_validate fc sha op = Inr () \<Longrightarrow> op_fits op \<Longrightarrow> apply_operation fc required sigs op st = Inr (res, st') \<Longrightarrow>
    ledger_step fc sha st st'"
| expired_orders: "clear_expired_limit_orders fc st = Inr st' \<Longrightarrow> ledger_step fc sha st st'"
| expired_leases: "clear_expired_csaf_leases fc st = Inr st' \<Longrightarrow> ledger_step fc sha st st'"

inductive_cases ledger_stepE: "ledger_step fc sha st st'"

end
