(* ===== verification/Ledger_Correct.thy ===== *)
theory Ledger_Correct
  imports Ledger
begin

text \<open>
  What a ledger holds of an asset: balances, amounts in orders, accumulated and uncollected market
  fees, and of the core asset what accounts have prepaid and not collected yet. A well-formed ledger
  has unique keys and amounts in range, none of them negative. Adjusting a balance changes what is
  held of its asset by the amount and nothing else.
\<close>

section \<open>Totals\<close>

definition bal_of :: "asset_aid_type \<Rightarrow> account_balance_object \<Rightarrow> int" where
  "bal_of a b = (if asset_type b = a then balance b else 0)"

definition ord_of :: "asset_aid_type \<Rightarrow> limit_order_object \<Rightarrow> int" where
  "ord_of a ord = (if asset_id (base (sell_price ord)) = a then for_sale ord else 0)"

definition fee_of :: "asset_aid_type \<Rightarrow> asset_dynamic_data_object \<Rightarrow> int" where
  "fee_of a d = (if dynamic_asset_id d = a then accumulated_fees d else 0)"

definition supply_of :: "asset_aid_type \<Rightarrow> asset_dynamic_data_object \<Rightarrow> int" where
  "supply_of a d = (if dynamic_asset_id d = a then current_supply d else 0)"

definition owed_of :: "asset_aid_type \<Rightarrow> account_statistics_object \<Rightarrow> int" where
  "owed_of a s = omap_get a 0 (uncollected_market_fees s) +
     (if a = core_asset_aid then prepaid s + uncollected_pledge_bonus s else 0)"

definition holdings :: "asset_aid_type \<Rightarrow> ledger \<Rightarrow> int" where
  "holdings a st = total (bal_of a) (account_balances st) + total (ord_of a) (limit_orders st) +
     total (fee_of a) (asset_dynamics st) + total (owed_of a) (account_stats st)"

definition issued :: "asset_aid_type \<Rightarrow> ledger \<Rightarrow> int" where
  "issued a st = total (supply_of a) (asset_dynamics st)"

section \<open>Well-formed ledgers\<close>

definition balance_wf :: "account_balance_object \<Rightarrow> bool" where
  "balance_wf b \<longleftrightarrow> 0 \<le> balance b \<and> fits64 (balance b)"

definition order_wf :: "limit_order_object \<Rightarrow> bool" where
  "order_wf ord \<longleftrightarrow> 0 < for_sale ord \<and> fits64 (for_sale ord) \<and> price_ok (sell_price ord) \<and>
     asset_id (base (sell_price ord)) \<noteq> asset_id (quote (sell_price ord))"

definition dynamic_wf :: "asset_dynamic_data_object \<Rightarrow> bool" where
  "dynamic_wf d \<longleftrightarrow> fits64 (current_supply d) \<and> 0 \<le> accumulated_fees d \<and> fits64 (accumulated_fees d)"

definition fees_wf :: "(asset_aid_type \<times> int) list \<Rightarrow> bool" where
  "fees_wf m \<longleftrightarrow> omap_ok m \<and> (\<forall>x \<in> snd ` set m. 0 \<le> x \<and> fits64 x)"

definition stats_wf :: "account_statistics_object \<Rightarrow> bool" where
  "stats_wf s \<longleftrightarrow> fees_wf (uncollected_market_fees s) \<and> fits64 (core_balance s) \<and> fits64 (total_core_in_orders s) \<and>
     0 \<le> prepaid s \<and> fits64 (prepaid s) \<and> 0 \<le> csaf s \<and> fits64 (csaf s) \<and>
     0 \<le> uncollected_pledge_bonus s \<and> fits64 (uncollected_pledge_bonus s)"

definition options_wf :: "asset_options \<Rightarrow> bool" where
  "options_wf opts \<longleftrightarrow> uint (market_fee_percent opts) \<le> GRAPHENE_100_PERCENT \<and> 0 \<le> max_market_fee opts \<and>
     fits64 (max_market_fee opts) \<and> fits64 (max_supply opts) \<and>
     (case reward_percent_ext opts of Some (Some p) \<Rightarrow> uint p \<le> GRAPHENE_100_PERCENT | _ \<Rightarrow> True)"

definition ledger_wf :: "ledger \<Rightarrow> bool" where
  "ledger_wf st \<longleftrightarrow>
     distinct (map balance_key (account_balances st)) \<and> distinct (map order_id (limit_orders st)) \<and>
     distinct (map dynamic_asset_id (asset_dynamics st)) \<and> distinct (map owner (account_stats st)) \<and>
     (\<forall>b \<in> set (account_balances st). balance_wf b) \<and>
     (\<forall>ord \<in> set (limit_orders st). order_wf ord \<and> order_id ord < next_order_id st) \<and>
     (\<forall>d \<in> set (asset_dynamics st). dynamic_wf d) \<and> (\<forall>s \<in> set (account_stats st). stats_wf s) \<and>
     (\<forall>a \<in> set (asset_objects st). options_wf (options a)) \<and>
     dynamic_asset_id ` set (asset_dynamics st) \<subseteq> object_asset_id ` set (asset_objects st)"

text \<open>What changes of the votes and the coin-seconds leave alone.\<close>

definition money :: "account_statistics_object \<Rightarrow> account_uid_type \<times> (asset_aid_type \<times> int) list \<times> int \<times> int \<times> int" where
  "money s = (owner s, uncollected_market_fees s, prepaid s, csaf s, uncollected_pledge_bonus s)"

definition same_but_balances :: "ledger \<Rightarrow> ledger \<Rightarrow> bool" where
  "same_but_balances st st' \<longleftrightarrow> limit_orders st' = limit_orders st \<and> asset_dynamics st' = asset_dynamics st \<and>
     next_order_id st' = next_order_id st \<and> map money (account_stats st') = map money (account_stats st) \<and>
     map owner (account_stats st') = map owner (account_stats st)"

lemma same_but_balances_refl [simp]: "same_but_balances st st"
  by (simp add: same_but_balances_def)

lemma same_but_balances_trans: "same_but_balances a b \<Longrightarrow> same_but_balances b c \<Longrightarrow> same_but_balances a c"
  by (simp add: same_but_balances_def)

lemma owed_of_money: "owed_of a s = (case money s of (_, m, p, _, q) \<Rightarrow> omap_get a 0 m + (if a = core_asset_aid then p + q else 0))"
  by (simp add: owed_of_def money_def)

lemma total_owed_money: "map money ss' = map money ss \<Longrightarrow> total (owed_of a) ss' = total (owed_of a) ss"
proof -
  assume eq: "map money ss' = map money ss"
  let ?g = "\<lambda>(_, m, p, _, q). omap_get a 0 m + (if a = core_asset_aid then p + q else 0)"
  have "map (owed_of a) xs = map ?g (map money xs)" for xs by (simp add: owed_of_money)
  then show ?thesis by (simp only: eq)
qed

lemma holdings_same:
  "same_but_balances st st' \<Longrightarrow> holdings a st' = holdings a st + (total (bal_of a) (account_balances st') - total (bal_of a) (account_balances st))"
  using total_owed_money [of "account_stats st'" "account_stats st" a] by (simp add: same_but_balances_def holdings_def)

lemma issued_same: "same_but_balances st st' \<Longrightarrow> issued a st' = issued a st"
  by (simp add: same_but_balances_def issued_def)

section \<open>One row of the statistics\<close>

lemma get_stats_iff: "get_account_statistics_by_uid u st = Inr s \<longleftrightarrow> row_find owner u (account_stats st) = Some s"
  by (simp add: get_account_statistics_by_uid_def result_simps)

lemma get_stats_wf: "ledger_wf st \<Longrightarrow> get_account_statistics_by_uid u st = Inr s \<Longrightarrow> stats_wf s \<and> owner s = u \<and> s \<in> set (account_stats st)"
  by (auto simp: get_stats_iff ledger_wf_def dest: row_find_Some)

lemma map_money_put:
  assumes "distinct (map owner ss)" "row_find owner (owner s') ss = Some s" "money s' = money s"
  shows "map money (row_put owner s' ss) = map money ss"
proof -
  have "(if owner x = owner s' then s' else x) = s' \<and> x = s \<or> (if owner x = owner s' then s' else x) = x" if "x \<in> set ss" for x
    using row_find_in [OF assms(1) that] assms(2) by auto
  then have "money (if owner x = owner s' then s' else x) = money x" if "x \<in> set ss" for x
    using that assms(3) by metis
  then show ?thesis by (simp add: row_put_def)
qed

lemma put_stats_wf: "ledger_wf st \<Longrightarrow> stats_wf s \<Longrightarrow> ledger_wf (put_stats s st)"
  using set_row_put [of owner s "account_stats st"] by (auto simp: ledger_wf_def put_stats_def)

lemma put_stats_same:
  assumes "ledger_wf st" "get_account_statistics_by_uid u st = Inr s" "money s' = money s"
  shows "same_but_balances st (put_stats s' st)"
proof -
  have "owner s' = u" using get_stats_wf [OF assms(1,2)] assms(3) by (simp add: money_def)
  then show ?thesis
    using assms map_money_put [of "account_stats st" s' s] by (simp add: same_but_balances_def put_stats_def get_stats_iff ledger_wf_def)
qed

lemma put_stats_owed:
  assumes "ledger_wf st" "get_account_statistics_by_uid u st = Inr s" "owner s' = owner s"
  shows "holdings a (put_stats s' st) = holdings a st + (owed_of a s' - owed_of a s)" "issued a (put_stats s' st) = issued a st"
proof -
  have "row_find owner (owner s') (account_stats st) = Some s" using assms get_stats_wf [OF assms(1,2)] by (simp add: get_stats_iff)
  with total_row_put [of owner "account_stats st" s' s "owed_of a"] assms(1)
  show "holdings a (put_stats s' st) = holdings a st + (owed_of a s' - owed_of a s)"
    by (simp add: holdings_def put_stats_def ledger_wf_def)
qed (simp add: issued_def put_stats_def)

section \<open>One row of the dynamic data\<close>

lemma get_dynamic_iff: "dynamic_data a st = Inr d \<longleftrightarrow> row_find dynamic_asset_id a (asset_dynamics st) = Some d"
  by (simp add: dynamic_data_def result_simps)

lemma get_dynamic_wf: "ledger_wf st \<Longrightarrow> dynamic_data a st = Inr d \<Longrightarrow> dynamic_wf d \<and> dynamic_asset_id d = a"
  by (auto simp: get_dynamic_iff ledger_wf_def dest: row_find_Some)

lemma put_dynamic_wf: "ledger_wf st \<Longrightarrow> dynamic_wf d \<Longrightarrow> ledger_wf (put_dynamic d st)"
proof -
  assume wf: "ledger_wf st" "dynamic_wf d"
  have "dynamic_asset_id ` set (row_put dynamic_asset_id d (asset_dynamics st)) = dynamic_asset_id ` set (asset_dynamics st)"
    by (metis list.set_map row_put_keys)
  then show ?thesis
    using wf set_row_put [of dynamic_asset_id d "asset_dynamics st"] unfolding ledger_wf_def put_dynamic_def by auto
qed

lemma put_dynamic_totals:
  assumes "ledger_wf st" "dynamic_data a st = Inr d" "dynamic_asset_id d' = dynamic_asset_id d"
  shows "holdings b (put_dynamic d' st) = holdings b st + (if b = a then accumulated_fees d' - accumulated_fees d else 0)"
    "issued b (put_dynamic d' st) = issued b st + (if b = a then current_supply d' - current_supply d else 0)"
proof -
  have id: "dynamic_asset_id d = a" using get_dynamic_wf [OF assms(1,2)] by simp
  have dist: "distinct (map dynamic_asset_id (asset_dynamics st))" using assms(1) by (simp add: ledger_wf_def)
  have find: "row_find dynamic_asset_id (dynamic_asset_id d') (asset_dynamics st) = Some d"
    using assms(2,3) id by (simp add: get_dynamic_iff)
  show "holdings b (put_dynamic d' st) = holdings b st + (if b = a then accumulated_fees d' - accumulated_fees d else 0)"
    using total_row_put [OF dist find, of "fee_of b"] assms(3) id by (simp add: holdings_def put_dynamic_def fee_of_def)
  show "issued b (put_dynamic d' st) = issued b st + (if b = a then current_supply d' - current_supply d else 0)"
    using total_row_put [OF dist find, of "supply_of b"] assms(3) id by (simp add: issued_def put_dynamic_def supply_of_def)
qed

text \<open>Parts of the state that no total reads.\<close>

lemma wf_frame:
  "ledger_wf (st\<lparr>voting := v\<rparr>) = ledger_wf st" "ledger_wf (st\<lparr>applied_operations := ops\<rparr>) = ledger_wf st"
  "ledger_wf (st\<lparr>auth_platforms := aps\<rparr>) = ledger_wf st" "ledger_wf (st\<lparr>csaf_leases := ls\<rparr>) = ledger_wf st"
  "ledger_wf (st\<lparr>pledge_rows := ps\<rparr>) = ledger_wf st"
  "ledger_wf (st\<lparr>next_lease_id := n\<rparr>) = ledger_wf st" "ledger_wf (st\<lparr>next_pledge_id := m\<rparr>) = ledger_wf st"
  by (simp_all add: ledger_wf_def)

lemma holdings_frame:
  "holdings a (st\<lparr>voting := v\<rparr>) = holdings a st" "holdings a (st\<lparr>applied_operations := ops\<rparr>) = holdings a st"
  "holdings a (st\<lparr>auth_platforms := aps\<rparr>) = holdings a st" "holdings a (st\<lparr>csaf_leases := ls\<rparr>) = holdings a st"
  "holdings a (st\<lparr>asset_objects := aos\<rparr>) = holdings a st" "holdings a (st\<lparr>pledge_rows := ps\<rparr>) = holdings a st"
  "holdings a (st\<lparr>next_lease_id := n\<rparr>) = holdings a st" "holdings a (st\<lparr>next_pledge_id := m\<rparr>) = holdings a st"
  by (simp_all add: holdings_def)

lemma issued_frame:
  "issued a (st\<lparr>voting := v\<rparr>) = issued a st" "issued a (st\<lparr>applied_operations := ops\<rparr>) = issued a st"
  "issued a (st\<lparr>auth_platforms := aps\<rparr>) = issued a st" "issued a (st\<lparr>csaf_leases := ls\<rparr>) = issued a st"
  "issued a (st\<lparr>asset_objects := aos\<rparr>) = issued a st" "issued a (st\<lparr>pledge_rows := ps\<rparr>) = issued a st"
  "issued a (st\<lparr>next_lease_id := n\<rparr>) = issued a st" "issued a (st\<lparr>next_pledge_id := m\<rparr>) = issued a st"
  by (simp_all add: issued_def)

lemmas ledger_frame = wf_frame holdings_frame issued_frame

section \<open>Adjusting a balance\<close>

lemma voting_self: "\<exists>v. st = st\<lparr>voting := v\<rparr>" for st :: ledger
  by (rule exI [of _ "voting st"]) simp

lemma update_account_votes_voting: "update_account_votes fc u st = Inr st' \<Longrightarrow> \<exists>v. st' = st\<lparr>voting := v\<rparr>"
  unfolding update_account_votes_def Let_def
  using voting_self [of st] by (auto simp: result_simps split: if_splits)

lemma check_core_spending_voting: "check_core_spending fc u d st = Inr st' \<Longrightarrow> \<exists>v. st' = st\<lparr>voting := v\<rparr>"
  unfolding check_core_spending_def
  using voting_self [of st] by (auto simp: result_simps split: if_splits)

lemma same_voting [simp]: "same_but_balances st (st\<lparr>voting := v\<rparr>)"
  by (simp add: same_but_balances_def)

lemma update_coin_seconds_money:
  "update_coin_seconds_earned fc db w now hf s = Inr s' \<Longrightarrow>
    money s' = money s \<and> core_balance s' = core_balance s \<and> total_core_in_orders s' = total_core_in_orders s"
  by (auto simp: update_coin_seconds_earned_def Let_def money_def result_simps split: if_splits prod.splits)

lemma money_wf: "money s' = money s \<Longrightarrow> stats_wf s \<Longrightarrow> fits64 (core_balance s') \<Longrightarrow> fits64 (total_core_in_orders s') \<Longrightarrow> stats_wf s'"
  by (simp add: stats_wf_def money_def)

lemma adjust_core_balance_same:
  assumes "safe_spec fc" "ledger_wf st" "fits64 d" "adjust_core_balance fc u d st = Inr st'"
  shows "ledger_wf st' \<and> same_but_balances st st' \<and> account_balances st' = account_balances st"
proof -
  from assms(4) obtain st1 s s1 c where
    r1: "(if d < 0 then check_core_spending fc u d st else Inr st) = Inr st1"
    and s: "get_account_statistics_by_uid u st1 = Inr s"
    and s1: "(if ledger_fork st1 < enable_head_fork_05
      then update_coin_seconds_earned fc (pledge_of st1) (csaf_accumulate_window (lparams st1)) (ledger_time st1) (ledger_fork st1) s
      else Inr s) = Inr s1"
    and c: "sadd fc (core_balance s1) d = Inr c"
    and r2: "update_account_votes fc u (put_stats (s1\<lparr>core_balance := c\<rparr>) st1) = Inr st'"
    unfolding adjust_core_balance_def by (auto simp: bindE_eq_Inr)
  let ?s2 = "s1\<lparr>core_balance := c\<rparr>"
  obtain v where st1: "st1 = st\<lparr>voting := v\<rparr>"
    using r1 check_core_spending_voting [of fc u d st st1] voting_self [of st] by (cases "d < 0") auto
  then have wf1: "ledger_wf st1" using assms(2) by (simp add: ledger_frame)
  have m1: "money s1 = money s \<and> core_balance s1 = core_balance s \<and> total_core_in_orders s1 = total_core_in_orders s"
    using s1 update_coin_seconds_money by (auto split: if_splits)
  have swf: "stats_wf s" using get_stats_wf [OF wf1 s] by simp
  then have "fits64 (core_balance s1)" using m1 by (simp add: stats_wf_def)
  with c assms(1,3) have "fits64 c" by (simp add: sadd_eq_Inr)
  moreover have m2: "money ?s2 = money s" using m1 by (simp add: money_def)
  ultimately have "stats_wf ?s2" using swf m1 by (intro money_wf [OF m2 swf]) (simp_all add: stats_wf_def)
  with put_stats_wf [OF wf1] have wf2: "ledger_wf (put_stats ?s2 st1)" .
  have same: "same_but_balances st (put_stats ?s2 st1)"
    using same_but_balances_trans [OF _ put_stats_same [OF wf1 s m2]] st1 by simp
  obtain v' where st': "st' = (put_stats ?s2 st1)\<lparr>voting := v'\<rparr>" using update_account_votes_voting [OF r2] by blast
  have "account_balances st' = account_balances st" by (simp add: st' st1 put_stats_def)
  moreover have "ledger_wf st'" using wf2 by (simp add: st' ledger_frame)
  moreover have "same_but_balances st st'" unfolding st' by (rule same_but_balances_trans [OF same same_voting])
  ultimately show ?thesis by blast
qed

lemma adjust_balance_row_effect:
  assumes "safe_spec fc" "ledger_wf st" "fits64 (amount d)" "adjust_balance_row fc u d st = Inr st'"
  shows "ledger_wf st' \<and> same_but_balances st st' \<and>
    total (bal_of a) (account_balances st') = total (bal_of a) (account_balances st) + (if asset_id d = a then amount d else 0)"
proof (cases "row_find balance_key (u, asset_id d) (account_balances st)")
  case None
  let ?b = "\<lparr>balance_owner = u, asset_type = asset_id d, balance = amount d\<rparr>"
  from assms(4) None have pos: "0 < amount d" and st': "st' = st\<lparr>account_balances := account_balances st @ [?b]\<rparr>"
    by (auto simp: adjust_balance_row_def result_simps)
  have "balance_key ?b \<notin> balance_key ` set (account_balances st)" using None by (simp add: row_find_None)
  with assms(2,3) pos show ?thesis unfolding st'
    by (auto simp: ledger_wf_def same_but_balances_def balance_wf_def bal_of_def)
next
  case (Some b)
  have b: "b \<in> set (account_balances st)" "balance_key b = (u, asset_id d)" using row_find_Some [OF Some] by auto
  then have bwf: "0 \<le> balance b" "fits64 (balance b)" using assms(2) by (auto simp: ledger_wf_def balance_wf_def)
  from assms(4) Some obtain b' where
    neg: "(if amount d < 0 then bindE (asset_neg fc d) (\<lambda>need.
       bindE (asset_ge (mk_asset (balance b) (asset_type b)) need) (\<lambda>enough. fc_assert enough ''Insufficient Balance'' (Inr ()))) else Inr ()) = Inr ()"
    and b': "balance_adjust fc d b = Inr b'" and st': "st' = st\<lparr>account_balances := row_put balance_key b' (account_balances st)\<rparr>"
    by (auto simp: adjust_balance_row_def bindE_eq_Inr)
  have sum: "b' = b\<lparr>balance := balance b + amount d\<rparr>" "fits64 (balance b + amount d)"
    using b' assms(1,3) bwf by (auto simp: balance_adjust_def result_simps)
  have "0 \<le> balance b + amount d"
    using neg assms(1,3) bwf(1) b(2) by (auto simp: asset_neg_def asset_ge_def asset_less_def mk_asset_def result_simps split: if_splits)
  then have wf': "balance_wf b'" using sum by (simp add: balance_wf_def)
  have key: "balance_key b' = (u, asset_id d)" using sum b by simp
  have dist: "distinct (map balance_key (account_balances st))" using assms(2) by (simp add: ledger_wf_def)
  have "total (bal_of a) (account_balances st') = total (bal_of a) (account_balances st) - bal_of a b + bal_of a b'"
    using total_row_put [OF dist, of b' b "bal_of a"] Some key by (simp add: st')
  also have "\<dots> = total (bal_of a) (account_balances st) + (if asset_id d = a then amount d else 0)"
    using b sum by (simp add: bal_of_def)
  finally have tot: "total (bal_of a) (account_balances st') = total (bal_of a) (account_balances st) + (if asset_id d = a then amount d else 0)" .
  have "ledger_wf st'" unfolding st'
    using assms(2) wf' set_row_put [of balance_key b' "account_balances st"] by (auto simp: ledger_wf_def simp del: prod.inject)
  moreover have "same_but_balances st st'" by (simp add: st' same_but_balances_def)
  ultimately show ?thesis using tot by blast
qed

lemma adjust_balance_effect:
  assumes "safe_spec fc" "ledger_wf st" "fits64 (amount d)" "adjust_balance fc u d st = Inr st'"
  shows "ledger_wf st' \<and> same_but_balances st st' \<and> holdings a st' = holdings a st + (if asset_id d = a then amount d else 0)"
proof (cases "amount d = 0")
  case True
  with assms show ?thesis by (simp add: adjust_balance_def)
next
  case False
  with assms(4) obtain st1 where row: "adjust_balance_row fc u d st = Inr st1"
    and rest: "(if asset_id d = core_asset_aid then adjust_core_balance fc u (amount d) st1 else Inr st1) = Inr st'"
    by (auto simp: adjust_balance_def bindE_eq_Inr)
  note r = adjust_balance_row_effect [OF assms(1-3) row, of a]
  have core: "ledger_wf st' \<and> same_but_balances st1 st' \<and> account_balances st' = account_balances st1"
    using rest adjust_core_balance_same [OF assms(1) _ assms(3), of st1 u st'] r by (auto split: if_splits)
  have same: "same_but_balances st st'" using r core same_but_balances_trans by blast
  from holdings_same [OF same, of a] r core same show ?thesis by simp
qed

section \<open>The interface\<close>

text \<open>
  What the rest of the chain relies on: a store of assets with an operation that changes what is held
  of one asset by a given amount, or fails. Moving an amount conserves what is held of every asset.
\<close>

locale asset_store =
  fixes adjust :: "account_uid_type \<Rightarrow> asset \<Rightarrow> 's \<Rightarrow> 's result"
    and held :: "asset_aid_type \<Rightarrow> 's \<Rightarrow> int"
    and ok :: "'s \<Rightarrow> bool"
  assumes adjust_ok: "ok st \<Longrightarrow> fits64 (amount d) \<Longrightarrow> adjust u d st = Inr st' \<Longrightarrow> ok st'"
    and adjust_held: "ok st \<Longrightarrow> fits64 (amount d) \<Longrightarrow> adjust u d st = Inr st' \<Longrightarrow>
      held a st' = held a st + (if asset_id d = a then amount d else 0)"
begin

lemma move_conserves:
  assumes "ok st" "fits64 x" "fits64 (- x)" "adjust from (mk_asset (- x) i) st = Inr st1" "adjust to (mk_asset x i) st1 = Inr st'"
  shows "ok st' \<and> held a st' = held a st"
proof -
  have "ok st1" using adjust_ok [OF assms(1) _ assms(4)] assms(3) by (simp add: mk_asset_def)
  with adjust_held [OF assms(1) _ assms(4), of a] adjust_held [of st1 _ to st' a] adjust_ok [of st1 _ to st'] assms(2,3,5)
  show ?thesis by (force simp: mk_asset_def)
qed

lemma adjust_all_held:
  assumes "ok st" "\<And>u d. (u, d) \<in> set xs \<Longrightarrow> fits64 (amount d)" "foldE (\<lambda>(u, d). adjust u d) xs st = Inr st'"
  shows "ok st' \<and> held a st' = held a st + (\<Sum>(u, d)\<leftarrow>xs. if asset_id d = a then amount d else 0)"
  using assms
proof (induction xs arbitrary: st)
  case (Cons x xs)
  obtain u d where x: "x = (u, d)" by fastforce
  with Cons.prems(3) obtain st1 where r: "adjust u d st = Inr st1" "foldE (\<lambda>(u, d). adjust u d) xs st1 = Inr st'"
    by (auto simp: result_simps)
  have f: "fits64 (amount d)" using Cons.prems(2) [of u d] x by simp
  have "fits64 (amount d')" if "(u', d') \<in> set xs" for u' d' using Cons.prems(2) [of u' d'] that by simp
  from Cons.IH [OF adjust_ok [OF Cons.prems(1) f r(1)] this r(2)] adjust_held [OF Cons.prems(1) f r(1), of a]
  show ?case by (simp add: x)
qed simp

end

interpretation ledger_store: asset_store "adjust_balance fc" holdings "\<lambda>st. safe_spec fc \<and> ledger_wf st" for fc
  by unfold_locales (use adjust_balance_effect in blast)+

end
