(* ===== verification/Market_Correct.thy ===== *)
theory Market_Correct
  imports Market Ledger_Correct
begin

text \<open>
  The market conserves every asset: whatever orders are matched, filled, culled or cancelled, and
  whatever fees are split between issuer, referrer and registrar, what the ledger holds of each asset
  stays the same, amounts stay in range and no balance becomes negative.
\<close>

section \<open>Effects\<close>

text \<open>A step that keeps the ledger well-formed, leaves the supply alone and adds \<open>f\<close> to what is held.\<close>

definition adds :: "ledger \<Rightarrow> ledger \<Rightarrow> (asset_aid_type \<Rightarrow> int) \<Rightarrow> bool" where
  "adds st st' f \<longleftrightarrow> ledger_wf st' \<and> (\<forall>a. holdings a st' = holdings a st + f a) \<and> (\<forall>a. issued a st' = issued a st)"

abbreviation of_asset :: "asset \<Rightarrow> asset_aid_type \<Rightarrow> int" where
  "of_asset d a \<equiv> (if asset_id d = a then amount d else 0)"

lemma adds_refl: "ledger_wf st \<Longrightarrow> adds st st (\<lambda>_. 0)"
  by (simp add: adds_def)

lemma adds_trans: "adds s t f \<Longrightarrow> adds t u g \<Longrightarrow> h = (\<lambda>a. f a + g a) \<Longrightarrow> adds s u h"
  by (simp add: adds_def)

lemma adds_wf: "adds s t f \<Longrightarrow> ledger_wf t"
  by (simp add: adds_def)

lemma adds_applied: "adds s t f \<Longrightarrow> adds s (push_applied_operation v t) f"
  by (simp add: adds_def push_applied_operation_def ledger_frame)

lemma adjust_adds:
  assumes "safe_spec fc" "ledger_wf st" "fits64 (amount d)" "adjust_balance fc u d st = Inr st'"
  shows "adds st st' (of_asset d)" "limit_orders st' = limit_orders st" "next_order_id st' = next_order_id st"
proof -
  have same: "same_but_balances st st'" using adjust_balance_effect [OF assms] by blast
  show "adds st st' (of_asset d)" unfolding adds_def
    using adjust_balance_effect [OF assms] issued_same [OF same] by blast
  show "limit_orders st' = limit_orders st" "next_order_id st' = next_order_id st" using same by (simp_all add: same_but_balances_def)
qed

lemma put_stats_adds:
  assumes "ledger_wf st" "get_account_statistics_by_uid u st = Inr s" "owner s' = owner s" "stats_wf s'"
    and "\<And>a. owed_of a s' = owed_of a s + f a"
  shows "adds st (put_stats s' st) f"
  using put_stats_owed [OF assms(1-3)] put_stats_wf [OF assms(1,4)] by (simp add: adds_def assms(5))

lemma put_dynamic_adds:
  assumes "ledger_wf st" "dynamic_data a st = Inr d" "dynamic_asset_id d' = dynamic_asset_id d" "dynamic_wf d'" "current_supply d' = current_supply d"
    and "accumulated_fees d' = accumulated_fees d + x"
  shows "adds st (put_dynamic d' st) (\<lambda>b. if b = a then x else 0)"
  using put_dynamic_totals [OF assms(1-3)] put_dynamic_wf [OF assms(1,4)] assms(5,6) by (simp add: adds_def)

section \<open>Core coins in orders\<close>

lemma put_in_orders_adds:
  assumes "ledger_wf st" "get_account_statistics_by_uid u st = Inr s" "fits64 t"
  shows "adds st (put_stats (s\<lparr>total_core_in_orders := t\<rparr>) st) (\<lambda>_. 0)"
  by (rule put_stats_adds [OF assms(1,2)])
    (use get_stats_wf [OF assms(1,2)] assms(3) in \<open>simp_all add: stats_wf_def owed_of_def\<close>)

lemma core_in_orders_adds:
  assumes "safe_spec fc" "ledger_wf st" "fits64 x"
  shows "add_core_in_orders fc u x st = Inr st' \<Longrightarrow> adds st st' (\<lambda>_. 0) \<and> limit_orders st' = limit_orders st \<and> next_order_id st' = next_order_id st"
    and "sub_core_in_orders fc u x st = Inr st' \<Longrightarrow> adds st st' (\<lambda>_. 0) \<and> limit_orders st' = limit_orders st \<and> next_order_id st' = next_order_id st"
proof -
  have fits: "fits64 (total_core_in_orders s)" if "get_account_statistics_by_uid u st = Inr s" for s
    using get_stats_wf [OF assms(2) that] by (simp add: stats_wf_def)
  show "add_core_in_orders fc u x st = Inr st' \<Longrightarrow> adds st st' (\<lambda>_. 0) \<and> limit_orders st' = limit_orders st \<and> next_order_id st' = next_order_id st"
    using fits assms put_in_orders_adds [OF assms(2)]
    by (fastforce simp: add_core_in_orders_def bindE_eq_Inr sadd_eq_Inr put_stats_def)
  show "sub_core_in_orders fc u x st = Inr st' \<Longrightarrow> adds st st' (\<lambda>_. 0) \<and> limit_orders st' = limit_orders st \<and> next_order_id st' = next_order_id st"
    using fits assms put_in_orders_adds [OF assms(2)]
    by (fastforce simp: sub_core_in_orders_def bindE_eq_Inr ssub_eq_Inr put_stats_def)
qed

section \<open>Orders leave the book\<close>

lemma find_order_wf:
  assumes "ledger_wf st" "find_order i st = Some ord"
  shows "order_wf ord" "order_id ord = i" "ord \<in> set (limit_orders st)" "i < next_order_id st"
  using assms row_find_Some [of order_id i "limit_orders st" ord] by (auto simp: find_order_def ledger_wf_def)

lemma remove_order_adds:
  assumes "ledger_wf st" "find_order i st = Some ord"
  shows "adds st (remove_order i st) (\<lambda>a. - ord_of a ord)"
proof -
  have dist: "distinct (map order_id (limit_orders st))" using assms(1) by (simp add: ledger_wf_def)
  have "ledger_wf (remove_order i st)"
    using assms(1) distinct_row_remove [OF dist] by (auto simp: ledger_wf_def remove_order_def set_row_remove)
  with total_row_remove [OF dist assms(2) [unfolded find_order_def]] show ?thesis
    by (simp add: adds_def holdings_def issued_def remove_order_def)
qed

lemma put_order_adds:
  assumes "ledger_wf st" "find_order (order_id ord') st = Some ord" "order_wf ord'"
  shows "adds st (st\<lparr>limit_orders := row_put order_id ord' (limit_orders st)\<rparr>) (\<lambda>a. ord_of a ord' - ord_of a ord)"
proof -
  have dist: "distinct (map order_id (limit_orders st))" using assms(1) by (simp add: ledger_wf_def)
  have "order_id ord' < next_order_id st" using find_order_wf [OF assms(1,2)] by simp
  then have "ledger_wf (st\<lparr>limit_orders := row_put order_id ord' (limit_orders st)\<rparr>)"
    using assms(1,3) set_row_put [of order_id ord' "limit_orders st"] by (auto simp: ledger_wf_def)
  with total_row_put [OF dist assms(2) [unfolded find_order_def]] show ?thesis
    by (simp add: adds_def holdings_def issued_def)
qed

lemma ord_of_for_sale: "ord_of a ord = of_asset (amount_for_sale ord) a"
  by (simp add: ord_of_def amount_for_sale_def mk_asset_def)

lemma find_order_cong: "limit_orders st' = limit_orders st \<Longrightarrow> find_order i st' = find_order i st"
  by (simp add: find_order_def)

lemma find_order_remove: "find_order i (remove_order j st) = (if i = j then None else find_order i st)"
  by (simp add: find_order_def remove_order_def row_find_remove)

text \<open>What filling, culling and cancelling may do to the book: only the order in question changes.\<close>

definition only_order :: "nat \<Rightarrow> ledger \<Rightarrow> ledger \<Rightarrow> bool" where
  "only_order i st st' \<longleftrightarrow> next_order_id st' = next_order_id st \<and> (\<forall>j. j \<noteq> i \<longrightarrow> find_order j st' = find_order j st) \<and>
     (\<forall>ord'. find_order i st' = Some ord' \<longrightarrow> (\<exists>ord. find_order i st = Some ord \<and> sell_price ord' = sell_price ord))"

lemma only_order_trans: "only_order i s t \<Longrightarrow> only_order i t u \<Longrightarrow> only_order i s u"
  unfolding only_order_def by metis

lemma only_order_same: "limit_orders st' = limit_orders st \<Longrightarrow> next_order_id st' = next_order_id st \<Longrightarrow> only_order i st st'"
  by (simp add: only_order_def find_order_def)

lemma push_frame [simp]:
  "limit_orders (push_applied_operation v st) = limit_orders st" "next_order_id (push_applied_operation v st) = next_order_id st"
  by (simp_all add: push_applied_operation_def)

lemma cancel_conserves:
  assumes "safe_spec fc" "ledger_wf st" "find_order (order_id ord) st = Some ord" "cancel_limit_order fc ord b st = Inr st'"
  shows "adds st st' (\<lambda>_. 0) \<and> only_order (order_id ord) st st' \<and> find_order (order_id ord) st' = None"
proof -
  let ?d = "amount_for_sale ord"
  have fits: "fits64 (amount ?d)" using find_order_wf(1) [OF assms(2,3)] by (simp add: amount_for_sale_def mk_asset_def order_wf_def)
  from assms(4) obtain st1 st2 where
    r1: "(if asset_id ?d = core_asset_aid then sub_core_in_orders fc (seller ord) (amount ?d) st else Inr st) = Inr st1"
    and r2: "adjust_balance fc (seller ord) ?d st1 = Inr st2"
    and st': "st' = remove_order (order_id ord) (if b then push_applied_operation (Limit_Order_Cancel_Op (order_id ord) (seller ord)) st2 else st2)"
    by (auto simp: cancel_limit_order_def Let_def bindE_eq_Inr)
  let ?st3 = "if b then push_applied_operation (Limit_Order_Cancel_Op (order_id ord) (seller ord)) st2 else st2"
  have s1: "adds st st1 (\<lambda>_. 0) \<and> limit_orders st1 = limit_orders st \<and> next_order_id st1 = next_order_id st"
    using r1 core_in_orders_adds(2) [OF assms(1,2) fits] adds_refl [OF assms(2)] by (auto split: if_splits)
  have wf1: "ledger_wf st1" using s1 adds_wf by blast
  note s2 = adjust_adds [OF assms(1) wf1 fits r2]
  have "adds st st2 (of_asset ?d)" by (rule adds_trans [OF conjunct1 [OF s1] s2(1)]) simp
  then have a3: "adds st ?st3 (of_asset ?d)" by (simp add: adds_applied)
  have o3: "limit_orders ?st3 = limit_orders st" "next_order_id ?st3 = next_order_id st" using s1 s2(2,3) by auto
  then have "find_order (order_id ord) ?st3 = Some ord" using assms(3) unfolding find_order_def by simp
  from adds_trans [OF a3 remove_order_adds [OF adds_wf [OF a3] this]]
  have "adds st st' (\<lambda>_. 0)" unfolding st' by (simp add: ord_of_for_sale fun_eq_iff)
  moreover have "only_order (order_id ord) st st'"
    unfolding only_order_def st' find_order_remove using o3 by (simp add: remove_order_def find_order_def)
  ultimately show ?thesis by (simp add: st' find_order_remove)
qed

lemma cull_conserves:
  assumes "safe_spec fc" "ledger_wf st" "find_order (order_id ord) st = Some ord" "maybe_cull_small_order fc ord st = Inr (r, st')"
  shows "adds st st' (\<lambda>_. 0) \<and> only_order (order_id ord) st st' \<and> find_order (order_id ord) st' = (if r then None else Some ord)"
proof -
  from assms(4) consider "r" "cancel_limit_order fc ord True st = Inr st'" | "\<not> r" "st' = st"
    by (auto simp: maybe_cull_small_order_def bindE_eq_Inr split: if_splits)
  then show ?thesis
  proof cases
    case 1
    with cancel_conserves [OF assms(1-3) 1(2)] show ?thesis by simp
  next
    case 2
    with adds_refl [OF assms(2)] assms(3) show ?thesis by (simp add: only_order_same)
  qed
qed

section \<open>Market fees\<close>

lemma percent_share:
  assumes "amount_ok x" "uint (p :: 16 word) \<le> GRAPHENE_100_PERCENT"
  shows "share_of_u128 ((u128 x * ucast p) div u128 GRAPHENE_100_PERCENT) = x * uint p div GRAPHENE_100_PERCENT"
    and "0 \<le> x * uint p div GRAPHENE_100_PERCENT" "x * uint p div GRAPHENE_100_PERCENT \<le> x"
proof -
  have x: "0 \<le> x" "x < 2 ^ 63" using assms(1) by (simp_all add: amount_ok_def)
  show "0 \<le> x * uint p div GRAPHENE_100_PERCENT" using x by (simp add: GRAPHENE_100_PERCENT_def pos_imp_zdiv_nonneg_iff)
  have "x * uint p \<le> x * GRAPHENE_100_PERCENT" using x assms(2) by (intro mult_left_mono)
  then have "x * uint p div GRAPHENE_100_PERCENT \<le> x * GRAPHENE_100_PERCENT div GRAPHENE_100_PERCENT"
    by (intro zdiv_mono1) (simp_all add: GRAPHENE_100_PERCENT_def)
  then show le: "x * uint p div GRAPHENE_100_PERCENT \<le> x" by (simp add: GRAPHENE_100_PERCENT_def)
  have "uint (u128 x * ucast p) = x * uint p"
    using uint_amount_times(1) [OF assms(1), of "ucast p"] unsigned_less [of p, where 'a = int] by (simp add: uint_ucast_up)
  then have "uint ((u128 x * ucast p) div u128 GRAPHENE_100_PERCENT) = x * uint p div GRAPHENE_100_PERCENT"
    by (simp add: uint_div_distrib uint_u128 GRAPHENE_100_PERCENT_def)
  with le x(2) show "share_of_u128 ((u128 x * ucast p) div u128 GRAPHENE_100_PERCENT) = x * uint p div GRAPHENE_100_PERCENT"
    by (simp add: share_of_u128_exact)
qed

lemma sint_calculate_percent: "sint (calculate_percent x p) = share_of_u128 ((u128 x * ucast p) div u128 GRAPHENE_100_PERCENT)"
  by (simp add: calculate_percent_def share_of_u128_def)

lemma amount_ok_fits: "amount_ok x \<Longrightarrow> fits64 x"
  by (simp add: amount_ok_def fits64_def int64_min_def int64_max_def)

lemma fits_amount_ok: "0 \<le> x \<Longrightarrow> fits64 x \<Longrightarrow> amount_ok x"
  by (simp add: amount_ok_def fits64_def int64_min_def int64_max_def)

lemma amount_ok_sub: "amount_ok x \<Longrightarrow> 0 \<le> y \<Longrightarrow> y \<le> x \<Longrightarrow> amount_ok y"
  by (simp add: amount_ok_def)

lemma market_fee_bounds:
  assumes "options_wf (options a)" "amount_ok (amount d)"
  shows "amount_ok (amount (calculate_market_fee a d))" "asset_id (calculate_market_fee a d) = object_asset_id a"
proof -
  let ?f = "share_of_u128 ((u128 (amount d) * ucast (market_fee_percent (options a))) div u128 GRAPHENE_100_PERCENT)"
  have p: "uint (market_fee_percent (options a)) \<le> GRAPHENE_100_PERCENT" using assms(1) by (simp add: options_wf_def)
  have "amount_ok ?f" unfolding percent_share(1) [OF assms(2) p]
    by (rule amount_ok_sub [OF assms(2)]) (rule percent_share [OF assms(2) p])+
  moreover have "amount_ok (max_market_fee (options a))" using assms(1) by (intro fits_amount_ok) (simp_all add: options_wf_def)
  ultimately show "amount_ok (amount (calculate_market_fee a d))"
    by (auto simp: calculate_market_fee_def Let_def asset_amount_def mk_asset_def amount_ok_def)
qed (simp add: calculate_market_fee_def Let_def asset_amount_def mk_asset_def)

lemma omap_get_put: "omap_ok m \<Longrightarrow> omap_get b 0 (omap_put k v m) = (if b = k then v else omap_get b 0 m)"
  by (simp add: omap_get_def map_of_put)

lemma fees_wf_put: "fees_wf m \<Longrightarrow> 0 \<le> v \<Longrightarrow> fits64 v \<Longrightarrow> fees_wf (omap_put k v m)"
  unfolding fees_wf_def using values_omap_put [of k v m] omap_ok_put [of m k v] by blast

lemma fees_wf_get: "fees_wf m \<Longrightarrow> map_of m k = Some x \<Longrightarrow> 0 \<le> x \<and> fits64 x"
  by (force simp: fees_wf_def dest: map_of_SomeD)

lemma add_uncollected_owed:
  assumes "safe_spec fc" "stats_wf s" "amount_ok x" "add_uncollected_market_fee fc aid x s = Inr s'"
  shows "stats_wf s' \<and> owner s' = owner s \<and> owed_of b s' = owed_of b s + (if b = aid then x else 0)"
proof -
  let ?m = "uncollected_market_fees s"
  have m: "fees_wf ?m" "omap_ok ?m" and x: "0 \<le> x" "fits64 x"
    using assms(2,3) amount_ok_fits by (simp_all add: stats_wf_def fees_wf_def amount_ok_def)
  have "\<exists>y. s' = s\<lparr>uncollected_market_fees := omap_put aid y ?m\<rparr> \<and> 0 \<le> y \<and> fits64 y \<and> y = omap_get aid 0 ?m + x"
  proof (cases "map_of ?m aid")
    case None
    with assms(4) x show ?thesis by (simp add: add_uncollected_market_fee_def omap_get_def)
  next
    case (Some z)
    with fees_wf_get [OF m(1) Some] assms(1,4) x show ?thesis
      by (auto simp: add_uncollected_market_fee_def omap_get_def bindE_eq_Inr sadd_eq_Inr)
  qed
  then obtain y where y: "s' = s\<lparr>uncollected_market_fees := omap_put aid y ?m\<rparr>" "0 \<le> y" "fits64 y" "y = omap_get aid 0 ?m + x"
    by blast
  have "stats_wf s'" unfolding y(1) using assms(2) fees_wf_put [OF m(1) y(2,3)] by (simp add: stats_wf_def)
  moreover have "owed_of b s' = owed_of b s + (if b = aid then x else 0)"
    unfolding owed_of_def using m(2) y by (simp add: omap_get_put)
  ultimately show ?thesis by (simp add: y(1))
qed

lemma add_reward_adds:
  assumes "safe_spec fc" "ledger_wf st" "amount_ok x" "add_market_reward fc u aid x st = Inr st'"
  shows "adds st st' (\<lambda>b. if b = aid then x else 0) \<and> limit_orders st' = limit_orders st \<and> next_order_id st' = next_order_id st \<and>
    asset_objects st' = asset_objects st"
proof -
  from assms(4) obtain s s' where s: "get_account_statistics_by_uid u st = Inr s" "add_uncollected_market_fee fc aid x s = Inr s'"
    and st': "st' = put_stats s' st"
    by (auto simp: add_market_reward_def bindE_eq_Inr)
  have "stats_wf s" using get_stats_wf [OF assms(2) s(1)] by simp
  note o = add_uncollected_owed [OF assms(1) this assms(3) s(2)]
  have "adds st st' (\<lambda>b. if b = aid then x else 0)"
    unfolding st' by (rule put_stats_adds [OF assms(2) s(1)]) (use o in auto)
  then show ?thesis by (simp add: st' put_stats_def)
qed

lemma pay_rewards_adds:
  assumes "safe_spec fc" "ledger_wf st" "options_wf (options a)" "amount_ok (amount fees)" "pay_rewards fc acct a fees st = Inr (reward, st')"
  shows "adds st st' (\<lambda>b. if b = object_asset_id a then reward else 0) \<and> limit_orders st' = limit_orders st \<and>
    next_order_id st' = next_order_id st \<and> asset_objects st' = asset_objects st \<and> 0 \<le> reward \<and> reward \<le> amount fees"
proof (cases "reward = 0 \<and> st' = st")
  case True
  with adds_refl [OF assms(2)] assms(4) show ?thesis by (simp add: amount_ok_def cong: if_cong)
next
  case False
  let ?info = "reg_info acct" and ?id = "object_asset_id a"
  from assms(5) False obtain percent st1 where
    p: "reward_percent_ext (options a) = Some (Some percent)" and reward: "reward = sint (calculate_percent (amount fees) percent)"
    and less: "reward < amount fees"
    and sum: "uint (referrer_percent ?info) + uint (registrar_percent ?info) = GRAPHENE_100_PERCENT"
    and r1: "add_market_reward fc (reg_referrer ?info) ?id (sint (calculate_percent reward (referrer_percent ?info))) st = Inr st1"
    and r2: "bindE (ssub fc reward (sint (calculate_percent reward (referrer_percent ?info))))
      (\<lambda>x. add_market_reward fc (reg_registrar ?info) ?id x st1) = Inr st'"
    by (auto simp: pay_rewards_def Let_def result_simps split: option.splits if_splits)
  have "uint percent \<le> GRAPHENE_100_PERCENT" using assms(3) p by (simp add: options_wf_def)
  then have ok: "amount_ok reward" unfolding reward sint_calculate_percent
    using percent_share [OF assms(4)] amount_ok_sub [OF assms(4)] by simp
  let ?x = "sint (calculate_percent reward (referrer_percent ?info))"
  have "uint (referrer_percent ?info) \<le> GRAPHENE_100_PERCENT" using sum uint_ge_0 [of "registrar_percent ?info"] by linarith
  then have x: "0 \<le> ?x" "?x \<le> reward" unfolding sint_calculate_percent using percent_share [OF ok] by simp_all
  then have ok1: "amount_ok ?x" "amount_ok (reward - ?x)" using ok by (simp_all add: amount_ok_def)
  note s1 = add_reward_adds [OF assms(1,2) ok1(1) r1]
  have "add_market_reward fc (reg_registrar ?info) ?id (reward - ?x) st1 = Inr st'"
    using r2 ok1 ok assms(1) amount_ok_fits by (auto simp: bindE_eq_Inr ssub_eq_Inr)
  note s2 = add_reward_adds [OF assms(1) adds_wf [OF conjunct1 [OF s1]] ok1(2) this]
  have "adds st st' (\<lambda>b. if b = ?id then reward else 0)"
    by (rule adds_trans [OF conjunct1 [OF s1] conjunct1 [OF s2]]) auto
  with s1 s2 ok less show ?thesis by (simp add: amount_ok_def)
qed

lemma pay_fees_adds:
  assumes "safe_spec fc" "ledger_wf st" "a \<in> set (asset_objects st)" "amount_ok (amount d)" "pay_market_fees fc acct a d st = Inr (fees, st')"
  shows "adds st st' (of_asset fees) \<and> limit_orders st' = limit_orders st \<and> next_order_id st' = next_order_id st \<and>
    amount_ok (amount fees) \<and> amount fees \<le> amount d \<and> asset_id fees = asset_id d"
proof -
  let ?f = "calculate_market_fee a d" and ?id = "object_asset_id a"
  have opt: "options_wf (options a)" using assms(2,3) by (simp add: ledger_wf_def)
  note f = market_fee_bounds [OF opt assms(4)]
  from assms(5) have le: "asset_le ?f d = Inr True" and fees: "fees = ?f"
    by (auto simp: pay_market_fees_def Let_def bindE_eq_Inr fc_assert_eq_Inr split: if_splits prod.splits)
  from le have id: "asset_id ?f = asset_id d" "amount ?f \<le> amount d"
    by (auto simp: asset_le_def asset_eq_def asset_less_def fc_assert_eq_Inr split: if_splits)
  have "adds st st' (of_asset ?f) \<and> limit_orders st' = limit_orders st \<and> next_order_id st' = next_order_id st"
  proof (cases "amount ?f > 0")
    case False
    then have "amount ?f = 0" using f(1) by (simp add: amount_ok_def)
    with assms(5) False adds_refl [OF assms(2)] show ?thesis
      by (auto simp: pay_market_fees_def Let_def bindE_eq_Inr fc_assert_eq_Inr cong: if_cong)
  next
    case True
    with assms(5) obtain reward st1 dd x where r: "pay_rewards fc acct a ?f st = Inr (reward, st1)"
      and dd: "dynamic_data ?id st1 = Inr dd" and x: "ssub fc (amount ?f) reward = Inr x"
      and st': "(if x > 0 then bindE (sadd fc (accumulated_fees dd) x) (\<lambda>y. Inr (?f, put_dynamic (dd\<lparr>accumulated_fees := y\<rparr>) st1)) else Inr (?f, st1)) = Inr (fees, st')"
      by (auto simp: pay_market_fees_def Let_def bindE_eq_Inr fc_assert_eq_Inr)
    note rw = pay_rewards_adds [OF assms(1,2) opt f(1) r]
    have wf1: "ledger_wf st1" using rw adds_wf by blast
    have "fits64 reward" using rw f(1) by (intro amount_ok_fits amount_ok_sub [OF f(1)]) auto
    then have x': "x = amount ?f - reward" "0 \<le> x" "fits64 x"
      using x rw assms(1) amount_ok_fits [OF f(1)] by (auto simp: ssub_eq_Inr)
    have "adds st1 st' (\<lambda>b. if b = ?id then x else 0) \<and> limit_orders st' = limit_orders st1 \<and> next_order_id st' = next_order_id st1"
    proof (cases "x > 0")
      case False
      with st' x'(2) adds_refl [OF wf1] show ?thesis by (simp cong: if_cong)
    next
      case True
      have dw: "dynamic_wf dd" using get_dynamic_wf [OF wf1 dd] by simp
      with st' True x'(3) assms(1) have y: "st' = put_dynamic (dd\<lparr>accumulated_fees := accumulated_fees dd + x\<rparr>) st1" "fits64 (accumulated_fees dd + x)"
        by (auto simp: bindE_eq_Inr sadd_eq_Inr dynamic_wf_def)
      have "adds st1 st' (\<lambda>b. if b = ?id then x else 0)" unfolding y(1)
        by (rule put_dynamic_adds [OF wf1 dd]) (use dw y(2) True in \<open>simp_all add: dynamic_wf_def\<close>)
      then show ?thesis by (simp add: y(1) put_dynamic_def)
    qed
    moreover have "adds st st' (of_asset ?f)"
      by (rule adds_trans [OF conjunct1 [OF rw] conjunct1 [OF calculation]]) (auto simp: f(2) x'(1))
    ultimately show ?thesis using rw by simp
  qed
  with f(1) id show ?thesis unfolding fees by blast
qed

section \<open>Filling an order\<close>

lemma update_votes_adds:
  assumes "ledger_wf st" "update_account_votes fc u st = Inr st'"
  shows "adds st st' (\<lambda>_. 0) \<and> limit_orders st' = limit_orders st \<and> next_order_id st' = next_order_id st"
proof -
  obtain v where "st' = st\<lparr>voting := v\<rparr>" using update_account_votes_voting [OF assms(2)] by blast
  with assms(1) show ?thesis by (simp add: adds_def ledger_frame)
qed

lemma pay_order_adds:
  assumes "safe_spec fc" "ledger_wf st" "fits64 (amount d)" "fits64 (amount pays)" "pay_order fc u d pays st = Inr st'"
  shows "adds st st' (of_asset d) \<and> limit_orders st' = limit_orders st \<and> next_order_id st' = next_order_id st"
proof -
  from assms(5) obtain st1 where
    r1: "(if asset_id pays = core_asset_aid then bindE (sub_core_in_orders fc u (amount pays) st) (update_account_votes fc u) else Inr st) = Inr st1"
    and r2: "adjust_balance fc u d st1 = Inr st'"
    by (auto simp: pay_order_def bindE_eq_Inr)
  have s1: "adds st st1 (\<lambda>_. 0) \<and> limit_orders st1 = limit_orders st \<and> next_order_id st1 = next_order_id st"
  proof (cases "asset_id pays = core_asset_aid")
    case True
    with r1 obtain st0 where st0: "sub_core_in_orders fc u (amount pays) st = Inr st0" "update_account_votes fc u st0 = Inr st1"
      by (auto simp: bindE_eq_Inr)
    note a = core_in_orders_adds(2) [OF assms(1,2,4) st0(1)]
    note b = update_votes_adds [OF adds_wf [OF conjunct1 [OF a]] st0(2)]
    have "adds st st1 (\<lambda>_. 0)" by (rule adds_trans [OF conjunct1 [OF a] conjunct1 [OF b]]) simp
    with a b show ?thesis by simp
  next
    case False
    with r1 adds_refl [OF assms(2)] show ?thesis by simp
  qed
  note s2 = adjust_adds [OF assms(1) adds_wf [OF conjunct1 [OF s1]] assms(3) r2]
  have "adds st st' (of_asset d)" by (rule adds_trans [OF conjunct1 [OF s1] s2(1)]) simp
  with s1 s2 show ?thesis by simp
qed

lemma get_asset_in: "get_asset_by_aid i st = Inr a \<Longrightarrow> a \<in> set (asset_objects st)"
  by (auto simp: get_asset_by_aid_def result_simps dest: row_find_Some)

lemma fill_adds:
  assumes fc: "safe_spec fc" and wf: "ledger_wf st" and ord: "find_order (order_id ord) st = Some ord"
    and pays: "amount_ok (amount pays)" "amount pays \<le> for_sale ord" and recv: "amount_ok (amount receives)"
    and run: "fill_limit_order fc ord pays receives cull p mk st = Inr (r, st')"
  shows "adds st st' (\<lambda>a. of_asset receives a - of_asset pays a) \<and> only_order (order_id ord) st st'"
proof -
  from run obtain acct a fees st1 net st2 where
    id: "asset_id (amount_for_sale ord) = asset_id pays" and a: "get_asset_by_aid (asset_id receives) st = Inr a"
    and r1: "pay_market_fees fc acct a receives st = Inr (fees, st1)" and net: "asset_sub fc receives fees = Inr net"
    and r2: "pay_order fc (seller ord) net pays st1 = Inr st2"
    and r3: "(let st = push_applied_operation (Fill_Order_Op (order_id ord) (seller ord) pays receives fees p mk) st2
     in if asset_eq pays (amount_for_sale ord) then Inr (True, remove_order (order_id ord) st)
        else bindE (ssub fc (for_sale ord) (amount pays)) (\<lambda>x.
             let ord = ord\<lparr>for_sale := x\<rparr>; st = st\<lparr>limit_orders := row_put order_id ord (limit_orders st)\<rparr>
             in if cull then maybe_cull_small_order fc ord st else Inr (False, st))) = Inr (r, st')"
    unfolding fill_limit_order_def by (auto simp: bindE_eq_Inr fc_assert_eq_Inr split: prod.splits)
  let ?st3 = "push_applied_operation (Fill_Order_Op (order_id ord) (seller ord) pays receives fees p mk) st2"
  note f = pay_fees_adds [OF fc wf get_asset_in [OF a] recv r1]
  have net': "net = mk_asset (amount receives - amount fees) (asset_id receives)"
    using net f recv fc amount_ok_fits by (auto simp: asset_sub_def bindE_eq_Inr fc_assert_eq_Inr ssub_eq_Inr)
  have nfits: "fits64 (amount net)"
    using f recv by (intro amount_ok_fits) (simp add: net' mk_asset_def amount_ok_def)
  note o = pay_order_adds [OF fc adds_wf [OF conjunct1 [OF f]] nfits amount_ok_fits [OF pays(1)] r2]
  have "adds st st2 (of_asset receives)"
    by (rule adds_trans [OF conjunct1 [OF f] conjunct1 [OF o]]) (use f in \<open>auto simp: net' mk_asset_def\<close>)
  then have a3: "adds st ?st3 (of_asset receives)" by (rule adds_applied)
  have o3: "limit_orders ?st3 = limit_orders st" "next_order_id ?st3 = next_order_id st" using f o by simp_all
  have ord3: "find_order (order_id ord) ?st3 = Some ord" using ord o3 by (simp add: find_order_def)
  note w = find_order_wf(1) [OF wf ord]
  have only3: "only_order (order_id ord) st ?st3" by (rule only_order_same [OF o3])
  show ?thesis
  proof (cases "asset_eq pays (amount_for_sale ord)")
    case True
    then have st': "st' = remove_order (order_id ord) ?st3" using r3 by simp
    have "adds st st' (\<lambda>a. of_asset receives a - of_asset pays a)" unfolding st'
      by (rule adds_trans [OF a3 remove_order_adds [OF adds_wf [OF a3] ord3]]) (use True in \<open>auto simp: ord_of_for_sale asset_eq_def\<close>)
    moreover have "only_order (order_id ord) ?st3 st'"
      unfolding st' only_order_def find_order_remove by (simp add: remove_order_def)
    ultimately show ?thesis using only_order_trans [OF only3] by blast
  next
    case False
    let ?ord' = "ord\<lparr>for_sale := for_sale ord - amount pays\<rparr>"
    let ?st4 = "?st3\<lparr>limit_orders := row_put order_id ?ord' (limit_orders ?st3)\<rparr>"
    have less: "amount pays < for_sale ord"
      using False pays(2) id by (auto simp: asset_eq_def amount_for_sale_def mk_asset_def)
    have "fits64 (for_sale ord)" using w by (simp add: order_wf_def)
    then have r4: "(if cull then maybe_cull_small_order fc ?ord' ?st4 else Inr (False, ?st4)) = Inr (r, st')"
      using r3 False fc amount_ok_fits [OF pays(1)] by (auto simp: Let_def bindE_eq_Inr ssub_eq_Inr)
    have w': "order_wf ?ord'" using w less pays(1) by (auto simp: order_wf_def amount_ok_def fits64_def int64_min_def)
    have a34: "adds ?st3 ?st4 (\<lambda>a. ord_of a ?ord' - ord_of a ord)"
      by (rule put_order_adds [OF adds_wf [OF a3] _ w']) (simp add: ord3)
    have "adds st ?st4 (\<lambda>a. of_asset receives a - of_asset pays a)"
      by (rule adds_trans [OF a3 a34]) (use id in \<open>auto simp: ord_of_def amount_for_sale_def mk_asset_def\<close>)
    moreover have ord4: "find_order (order_id ?ord') ?st4 = Some ?ord'"
      using row_find_Some [OF ord3 [unfolded find_order_def]] by (auto simp: find_order_def row_find_put)
    moreover have only4: "only_order (order_id ord) st ?st4"
      using only3 ord4 ord by (auto simp: only_order_def find_order_def row_find_put)
    ultimately show ?thesis
    proof (cases cull)
      case True
      note c = cull_conserves [OF fc adds_wf [OF \<open>adds st ?st4 _\<close>] ord4, of r st'] r4 True
      have "adds st st' (\<lambda>a. of_asset receives a - of_asset pays a)"
        by (rule adds_trans [OF \<open>adds st ?st4 _\<close>]) (use c in auto)
      with c only_order_trans [OF only4] show ?thesis by auto
    next
      case False
      with r4 \<open>adds st ?st4 _\<close> only4 show ?thesis by simp
    qed
  qed
qed

section \<open>Matching two orders\<close>

lemma ceiling_div_le: "0 < y \<Longrightarrow> x \<le> n * y \<Longrightarrow> ceiling_div x y \<le> n"
proof -
  assume y: "0 < y" and x: "x \<le> n * y"
  have "(x + y - 1) div y \<le> (n * y + (y - 1)) div y" using x y by (intro zdiv_mono1) auto
  also have "\<dots> = n" using y by simp
  finally show ?thesis by (simp add: ceiling_div_def)
qed

lemma div_mult_le': "0 < y \<Longrightarrow> (x :: int) div y * y \<le> x"
  using div_mult_mod_eq [of x y] pos_mod_sign [of y x] by linarith

lemma supply_amount_ok: "0 \<le> x \<Longrightarrow> x \<le> max_share_supply \<Longrightarrow> amount_ok x"
  by (simp add: amount_ok_def max_share_supply_def)

text \<open>Conversions at the price of an order, from its quote side to its base side and back.\<close>

lemma mult_price_base:
  assumes "price_ok p" "amount_ok (amount d)" "asset_id d = asset_id (base p)" "mult_price d p = Inr r"
  shows "r = mk_asset (amount d * amount (quote p) div amount (base p)) (asset_id (quote p))" "amount_ok (amount r)"
proof -
  have x: "0 \<le> amount d" "fits64 (amount d)" using assms(2) amount_ok_fits by (simp_all add: amount_ok_def)
  have pos: "positive_amount (amount (base p))" "positive_amount (amount (quote p))" using assms(1) by (simp_all add: price_ok_def)
  show r: "r = mk_asset (amount d * amount (quote p) div amount (base p)) (asset_id (quote p))"
    using assms(3,4) convert_amount_eq [OF x pos, of False] by (auto simp: mult_price_def Let_def fc_assert_eq_Inr)
  have "amount d * amount (quote p) div amount (base p) \<le> max_share_supply"
    using assms(3,4) convert_amount_eq [OF x pos, of False] by (auto simp: mult_price_def Let_def fc_assert_eq_Inr)
  then show "amount_ok (amount r)"
    using x pos by (intro supply_amount_ok) (simp_all add: r mk_asset_def positive_amount_def pos_imp_zdiv_nonneg_iff)
qed

lemma mult_price_quote:
  assumes "price_ok p" "amount_ok (amount d)" "asset_id d = asset_id (quote p)" "asset_id (base p) \<noteq> asset_id (quote p)" "mult_price d p = Inr r"
  shows "r = mk_asset (amount d * amount (base p) div amount (quote p)) (asset_id (base p))" "amount_ok (amount r)"
proof -
  have x: "0 \<le> amount d" "fits64 (amount d)" using assms(2) amount_ok_fits by (simp_all add: amount_ok_def)
  have pos: "positive_amount (amount (quote p))" "positive_amount (amount (base p))" using assms(1) by (simp_all add: price_ok_def)
  show r: "r = mk_asset (amount d * amount (base p) div amount (quote p)) (asset_id (base p))"
    using assms(3-5) convert_amount_eq [OF x pos, of False] by (auto simp: mult_price_def Let_def fc_assert_eq_Inr)
  have "amount d * amount (base p) div amount (quote p) \<le> max_share_supply"
    using assms(3-5) convert_amount_eq [OF x pos, of False] by (auto simp: mult_price_def Let_def fc_assert_eq_Inr)
  then show "amount_ok (amount r)"
    using x pos by (intro supply_amount_ok) (simp_all add: r mk_asset_def positive_amount_def pos_imp_zdiv_nonneg_iff)
qed

lemma round_up_base:
  assumes "price_ok p" "amount_ok (amount d)" "asset_id d = asset_id (base p)" "multiply_and_round_up d p = Inr r"
  shows "r = mk_asset (ceiling_div (amount d * amount (quote p)) (amount (base p))) (asset_id (quote p))" "amount_ok (amount r)"
proof -
  have x: "0 \<le> amount d" "fits64 (amount d)" using assms(2) amount_ok_fits by (simp_all add: amount_ok_def)
  have pos: "positive_amount (amount (base p))" "positive_amount (amount (quote p))" "0 < amount (base p)" "0 < amount (quote p)"
    using assms(1) by (simp_all add: price_ok_def positive_amount_def)
  show r: "r = mk_asset (ceiling_div (amount d * amount (quote p)) (amount (base p))) (asset_id (quote p))"
    using assms(3,4) convert_amount_eq [OF x pos(1,2), of True] by (auto simp: multiply_and_round_up_def Let_def fc_assert_eq_Inr)
  have "ceiling_div (amount d * amount (quote p)) (amount (base p)) \<le> max_share_supply"
    using assms(3,4) convert_amount_eq [OF x pos(1,2), of True] by (auto simp: multiply_and_round_up_def Let_def fc_assert_eq_Inr)
  moreover have "0 \<le> ceiling_div (amount d * amount (quote p)) (amount (base p))"
    using x pos unfolding ceiling_div_def by (simp add: pos_imp_zdiv_nonneg_iff add_nonneg_pos)
  ultimately show "amount_ok (amount r)" by (intro supply_amount_ok) (simp_all add: r mk_asset_def)
qed

lemma round_up_quote:
  assumes "price_ok p" "amount_ok (amount d)" "asset_id d = asset_id (quote p)" "asset_id (base p) \<noteq> asset_id (quote p)" "multiply_and_round_up d p = Inr r"
  shows "r = mk_asset (ceiling_div (amount d * amount (base p)) (amount (quote p))) (asset_id (base p))" "amount_ok (amount r)"
proof -
  have x: "0 \<le> amount d" "fits64 (amount d)" using assms(2) amount_ok_fits by (simp_all add: amount_ok_def)
  have pos: "positive_amount (amount (quote p))" "positive_amount (amount (base p))" "0 < amount (quote p)" "0 < amount (base p)"
    using assms(1) by (simp_all add: price_ok_def positive_amount_def)
  show r: "r = mk_asset (ceiling_div (amount d * amount (base p)) (amount (quote p))) (asset_id (base p))"
    using assms(3-5) convert_amount_eq [OF x pos(1,2), of True] by (auto simp: multiply_and_round_up_def Let_def fc_assert_eq_Inr)
  have "ceiling_div (amount d * amount (base p)) (amount (quote p)) \<le> max_share_supply"
    using assms(3-5) convert_amount_eq [OF x pos(1,2), of True] by (auto simp: multiply_and_round_up_def Let_def fc_assert_eq_Inr)
  moreover have "0 \<le> ceiling_div (amount d * amount (base p)) (amount (quote p))"
    using x pos unfolding ceiling_div_def by (simp add: pos_imp_zdiv_nonneg_iff add_nonneg_pos)
  ultimately show "amount_ok (amount r)" by (intro supply_amount_ok) (simp_all add: r mk_asset_def)
qed

text \<open>
  The two sides of a match at the maker's price: neither order gives more than it has for sale. The
  third conjunct says who bears the rounding.
\<close>

definition fair_amounts :: "price \<Rightarrow> asset \<Rightarrow> asset \<Rightarrow> bool" where
  "fair_amounts p to_taker to_maker \<longleftrightarrow>
     (let x = amount to_maker; y = amount to_taker; b = amount (base p); q = amount (quote p)
      in y * q \<le> x * b \<and> x * b < y * q + b \<or> x * b \<le> y * q \<and> y * q < x * b + q)"

lemma asset_le_cases: "asset_le a b = Inr r \<Longrightarrow> asset_id a = asset_id b \<and> (r \<longleftrightarrow> amount a \<le> amount b)"
  by (auto simp: asset_le_def asset_eq_def asset_less_def fc_assert_eq_Inr split: if_splits)

lemma match_amounts:
  assumes "order_wf usd" "order_wf core" "match fc usd core (sell_price core) st = Inr (r, st')"
  shows "(r = 1 \<and> st' = st) \<or> (\<exists>to_taker to_maker cull. fill_both fc usd core to_taker to_maker cull (sell_price core) st = Inr (r, st') \<and>
    amount_ok (amount to_taker) \<and> amount to_taker \<le> for_sale core \<and> amount_ok (amount to_maker) \<and> amount to_maker \<le> for_sale usd \<and>
    fair_amounts (sell_price core) to_taker to_maker)"
proof -
  let ?p = "sell_price core" and ?U = "for_sale usd" and ?C = "for_sale core"
  let ?b = "amount (base ?p)" and ?q = "amount (quote ?p)"
  let ?us = "amount_for_sale usd" and ?cs = "amount_for_sale core"
  have p: "price_ok ?p" "asset_id (base ?p) \<noteq> asset_id (quote ?p)" "0 < ?b" "0 < ?q"
    using assms(2) by (simp_all add: order_wf_def price_ok_def positive_amount_def)
  have ok: "amount_ok (amount ?us)" "amount_ok (amount ?cs)"
    using assms(1,2) by (auto simp: order_wf_def amount_for_sale_def mk_asset_def intro: fits_amount_ok)
  from assms(3) obtain worth small where ids: "asset_id (base (sell_price usd)) = asset_id (quote ?p)"
    and worth: "mult_price ?cs ?p = Inr worth" and small: "asset_le ?us worth = Inr small"
    and rest: "(if small then bindE (mult_price ?us ?p) (\<lambda>y. if amount y = 0 then Inr (1, st)
         else bindE (multiply_and_round_up y ?p) (\<lambda>x. fill_both fc usd core y x True ?p st))
       else bindE (mult_price ?cs ?p) (\<lambda>x. bindE (multiply_and_round_up x ?p) (\<lambda>y. fill_both fc usd core y x False ?p st))) = Inr (r, st')"
    unfolding match_def Let_def by (auto simp: bindE_eq_Inr fc_assert_eq_Inr)
  have cs: "asset_id ?cs = asset_id (base ?p)" "amount ?cs = ?C" and us: "asset_id ?us = asset_id (quote ?p)" "amount ?us = ?U"
    using ids by (simp_all add: amount_for_sale_def mk_asset_def)
  note w = mult_price_base [OF p(1) ok(2) cs(1) worth]
  have cmp: "small \<longleftrightarrow> ?U \<le> amount worth" using asset_le_cases [OF small] us(2) by simp
  show ?thesis
  proof (cases small)
    case True
    with rest obtain y where y: "mult_price ?us ?p = Inr y"
      and rest': "(if amount y = 0 then Inr (1, st) else bindE (multiply_and_round_up y ?p) (\<lambda>x. fill_both fc usd core y x True ?p st)) = Inr (r, st')"
      by (auto simp: bindE_eq_Inr)
    note yy = mult_price_quote [OF p(1) ok(1) us(1) p(2) y]
    show ?thesis
    proof (cases "amount y = 0")
      case False
      with rest' obtain x where x: "multiply_and_round_up y ?p = Inr x" and run: "fill_both fc usd core y x True ?p st = Inr (r, st')"
        by (auto simp: bindE_eq_Inr)
      have yid: "asset_id y = asset_id (base ?p)" using yy(1) by (simp add: mk_asset_def)
      note xx = round_up_base [OF p(1) yy(2) yid x]
      have ya: "amount y = ?U * ?b div ?q" using yy(1) us by (simp add: mk_asset_def)
      have xa: "amount x = ceiling_div (amount y * ?q) ?b" using xx(1) by (simp add: mk_asset_def)
      have yq: "amount y * ?q \<le> ?U * ?b" unfolding ya by (rule div_mult_le' [OF p(4)])
      then have xU: "amount x \<le> ?U" unfolding xa by (rule ceiling_div_le [OF p(3)])
      have "?U * ?b \<le> amount worth * ?b" using True cmp p(3) by (intro mult_right_mono) auto
      also have "\<dots> \<le> ?C * ?q" using w(1) cs div_mult_le' [OF p(3), of "?C * ?q"] by (simp add: mk_asset_def)
      finally have "amount y \<le> ?C * ?q div ?q" unfolding ya using p(4) by (intro zdiv_mono1)
      then have yC: "amount y \<le> ?C" using p(4) by simp
      have "fair_amounts ?p y x" unfolding fair_amounts_def Let_def using ceiling_div_bounds(1,2) [OF p(3), of "amount y * ?q"] xa by simp
      with run yy(2) xx(2) xU yC show ?thesis by blast
    qed (use rest' in auto)
  next
    case False
    with rest worth obtain y where y: "multiply_and_round_up worth ?p = Inr y" and run: "fill_both fc usd core y worth False ?p st = Inr (r, st')"
      by (auto simp: bindE_eq_Inr)
    have wid: "asset_id worth = asset_id (quote ?p)" using w(1) by (simp add: mk_asset_def)
    note yy = round_up_quote [OF p(1) w(2) wid p(2) y]
    have ya: "amount y = ceiling_div (amount worth * ?b) ?q" using yy(1) by (simp add: mk_asset_def)
    have "amount worth * ?b \<le> ?C * ?q" using w(1) cs div_mult_le' [OF p(3), of "?C * ?q"] by (simp add: mk_asset_def)
    then have yC: "amount y \<le> ?C" unfolding ya by (rule ceiling_div_le [OF p(4)])
    have "fair_amounts ?p y worth" unfolding fair_amounts_def Let_def using ceiling_div_bounds(1,2) [OF p(4), of "amount worth * ?b"] ya by simp
    moreover have "amount worth \<le> ?U" using False cmp by simp
    ultimately show ?thesis using run yy(2) w(2) yC by blast
  qed
qed

lemma match_ids: "match fc usd core p st = Inr x \<Longrightarrow> asset_id (quote (sell_price usd)) = asset_id (base (sell_price core))"
  unfolding match_def by (rule ccontr) simp

lemma fill_both_conserves:
  assumes fc: "safe_spec fc" and wf: "ledger_wf st" and usd: "find_order (order_id usd) st = Some usd"
    and core: "find_order (order_id core) st = Some core" and diff: "order_id usd \<noteq> order_id core"
    and y: "amount_ok (amount y)" "amount y \<le> for_sale core" and x: "amount_ok (amount x)" "amount x \<le> for_sale usd"
    and run: "fill_both fc usd core y x cull p st = Inr (r, st')"
  shows "adds st st' (\<lambda>_. 0) \<and> next_order_id st' = next_order_id st \<and>
    (\<forall>j. j \<noteq> order_id usd \<longrightarrow> j \<noteq> order_id core \<longrightarrow> find_order j st' = find_order j st) \<and>
    (\<forall>ord. find_order (order_id usd) st' = Some ord \<longrightarrow> sell_price ord = sell_price usd)"
proof -
  from run obtain r1 st1 r2 where f1: "fill_limit_order fc usd x y cull p False st = Inr (r1, st1)"
    and f2: "fill_limit_order fc core y x True p True st1 = Inr (r2, st')"
    by (auto simp: fill_both_def Let_def bindE_eq_Inr fc_assert_eq_Inr)
  note a = fill_adds [OF fc wf usd x y(1) f1]
  have core1: "find_order (order_id core) st1 = Some core" using a core diff by (simp add: only_order_def)
  note b = fill_adds [OF fc adds_wf [OF conjunct1 [OF a]] core1 y x(1) f2]
  have "adds st st' (\<lambda>_. 0)" by (rule adds_trans [OF conjunct1 [OF a] conjunct1 [OF b]]) auto
  moreover have "sell_price ord = sell_price usd" if "find_order (order_id usd) st' = Some ord" for ord
    using a b diff usd that by (auto simp: only_order_def)
  ultimately show ?thesis using a b by (auto simp: only_order_def)
qed

lemma match_conserves:
  assumes fc: "safe_spec fc" and wf: "ledger_wf st" and usd: "find_order (order_id usd) st = Some usd"
    and core: "find_order (order_id core) st = Some core" and run: "match fc usd core (sell_price core) st = Inr (r, st')"
  shows "adds st st' (\<lambda>_. 0) \<and> next_order_id st' = next_order_id st \<and> order_id core \<noteq> order_id usd \<and>
    (\<forall>j. j \<noteq> order_id usd \<longrightarrow> j \<noteq> order_id core \<longrightarrow> find_order j st' = find_order j st) \<and>
    (\<forall>ord. find_order (order_id usd) st' = Some ord \<longrightarrow> sell_price ord = sell_price usd)"
proof -
  note w = find_order_wf(1) [OF wf usd] find_order_wf(1) [OF wf core]
  have diff: "order_id usd \<noteq> order_id core"
  proof
    assume "order_id usd = order_id core"
    then have "usd = core" using usd core by (metis option.inject)
    with match_ids [OF run] w(1) show False by (simp add: order_wf_def)
  qed
  from match_amounts [OF w run] show ?thesis
  proof (elim disjE exE conjE)
    assume "st' = st"
    with adds_refl [OF wf] usd diff show ?thesis by auto
  next
    fix y x cull
    assume "fill_both fc usd core y x cull (sell_price core) st = Inr (r, st')" "amount_ok (amount y)" "amount y \<le> for_sale core"
      "amount_ok (amount x)" "amount x \<le> for_sale usd"
    with fill_both_conserves [OF fc wf usd core diff] diff show ?thesis by auto
  qed
qed

lemma match_loop_conserves:
  assumes "safe_spec fc" "ledger_wf st" "match_loop fc i os st = Inr st'" "distinct (map order_id os)"
    and "\<And>ord. ord \<in> set os \<Longrightarrow> order_id ord \<noteq> i \<Longrightarrow> find_order (order_id ord) st = Some ord"
    and "\<And>ord. ord \<in> set os \<Longrightarrow> order_id ord = i \<Longrightarrow> sell_price ord = p"
    and "\<And>ord. find_order i st = Some ord \<Longrightarrow> sell_price ord = p"
  shows "adds st st' (\<lambda>_. 0) \<and> next_order_id st' = next_order_id st"
  using assms
proof (induction os arbitrary: st)
  case Nil
  then show ?case by (simp add: adds_refl)
next
  case (Cons old os)
  from Cons.prems(3) obtain new r st1 where new: "find_order i st = Some new"
    and m: "match fc new old (sell_price old) st = Inr (r, st1)" and rest: "(if r = 2 then match_loop fc i os st1 else Inr st1) = Inr st'"
    by (auto simp: bindE_eq_Inr split: option.splits)
  have id: "order_id new = i" using find_order_wf(2) [OF Cons.prems(2) new] .
  have "order_id old \<noteq> i"
  proof
    assume "order_id old = i"
    then have "sell_price old = sell_price new" using Cons.prems(6,7) new by simp
    with match_ids [OF m] find_order_wf(1) [OF Cons.prems(2) new] show False by (simp add: order_wf_def)
  qed
  then have old: "find_order (order_id old) st = Some old" using Cons.prems(5) by simp
  note c = match_conserves [OF Cons.prems(1,2) _ old m, unfolded id, OF new]
  show ?case
  proof (cases "r = 2")
    case True
    have "find_order (order_id ord) st1 = Some ord" if "ord \<in> set os" "order_id ord \<noteq> i" for ord
    proof -
      have "order_id ord \<noteq> order_id old" using Cons.prems(4) imageI [OF that(1), of order_id] by auto
      with c that Cons.prems(5) [of ord] show ?thesis by simp
    qed
    moreover have "sell_price ord = p" if "ord \<in> set os" "order_id ord = i" for ord using Cons.prems(6) [of ord] that by simp
    moreover have "sell_price ord = p" if "find_order i st1 = Some ord" for ord using c Cons.prems(7) [OF new] that by simp
    moreover have "match_loop fc i os st1 = Inr st'" "distinct (map order_id os)" using rest True Cons.prems(4) by simp_all
    ultimately have IH: "adds st1 st' (\<lambda>_. 0) \<and> next_order_id st' = next_order_id st1"
      using Cons.IH [OF Cons.prems(1) adds_wf [OF conjunct1 [OF c]]] by simp
    have "adds st st' (\<lambda>_. 0)" by (rule adds_trans [OF conjunct1 [OF c] conjunct1 [OF IH]]) simp
    with c IH show ?thesis by simp
  next
    case False
    with rest c show ?thesis by simp
  qed
qed

lemma opposite_side_sub: "set (opposite_side b m os) \<subseteq> set os" "distinct (map order_id os) \<Longrightarrow> distinct (map order_id (opposite_side b m os))"
proof -
  show "set (opposite_side b m os) \<subseteq> set os"
    unfolding opposite_side_def by (meson set_dropWhileD set_takeWhileD subsetI)
  have "opposite_side b m os = take (length (opposite_side b m os)) (drop (length (takeWhile (\<lambda>ord. price_gt (sell_price ord) b) os)) os)"
    unfolding opposite_side_def dropWhile_eq_drop by (metis takeWhile_eq_take)
  then show "distinct (map order_id os) \<Longrightarrow> distinct (map order_id (opposite_side b m os))"
    by (metis distinct_drop distinct_take drop_map take_map)
qed

lemma apply_order_conserves:
  assumes "safe_spec fc" "ledger_wf st" "find_order (order_id new) st = Some new" "apply_order fc new st = Inr (r, st')"
  shows "adds st st' (\<lambda>_. 0)"
proof -
  let ?m = "inverse_price (sell_price new)"
  have dist: "distinct (map order_id (limit_orders st))" using assms(2) by (simp add: ledger_wf_def)
  have found: "find_order (order_id ord) st = Some ord" if "ord \<in> set (limit_orders st)" for ord
    using row_find_in [OF dist that] by (simp add: find_order_def)
  from assms(4) consider "st' = st" | b st1 where
      "match_loop fc (order_id new) (opposite_side b ?m (limit_orders st)) st = Inr st1"
      "(case find_order (order_id new) st1 of None \<Rightarrow> Inr (True, st1) | Some ord \<Rightarrow> maybe_cull_small_order fc ord st1) = Inr (r, st')"
    by (auto simp: apply_order_def Let_def bindE_eq_Inr split: if_splits)
  then show ?thesis
  proof cases
    case 1
    with adds_refl [OF assms(2)] show ?thesis by simp
  next
    case 2
    have sp: "sell_price ord = sell_price new" if "ord \<in> set (opposite_side b ?m (limit_orders st))" "order_id ord = order_id new" for ord
      using found [of ord] that opposite_side_sub(1) [of b ?m "limit_orders st"] assms(3) by auto
    have l: "adds st st1 (\<lambda>_. 0) \<and> next_order_id st1 = next_order_id st"
      by (rule match_loop_conserves [OF assms(1,2) 2(1) opposite_side_sub(2) [OF dist], where p = "sell_price new"])
        (use found opposite_side_sub(1) [of b ?m "limit_orders st"] sp assms(3) in auto)
    have wf1: "ledger_wf st1" using l adds_wf by blast
    show ?thesis
    proof (cases "find_order (order_id new) st1")
      case None
      with 2(2) l show ?thesis by simp
    next
      case (Some ord)
      have "find_order (order_id ord) st1 = Some ord" unfolding find_order_wf(2) [OF wf1 Some] by (rule Some)
      moreover have "maybe_cull_small_order fc ord st1 = Inr (r, st')" using 2(2) unfolding Some option.case .
      ultimately have "adds st1 st' (\<lambda>_. 0)" using cull_conserves [OF assms(1) wf1] by blast
      then show ?thesis by (rule adds_trans [OF conjunct1 [OF l]]) simp
    qed
  qed
qed

section \<open>The operations of the market\<close>

lemma insert_by_price_parts:
  "set (insert_by_price ord os) = insert ord (set os)" "total g (insert_by_price ord os) = total g os + g ord"
  "distinct (map order_id os) \<Longrightarrow> order_id ord \<notin> order_id ` set os \<Longrightarrow> distinct (map order_id (insert_by_price ord os))"
proof -
  let ?P = "\<lambda>x. order_before x ord"
  have os: "takeWhile ?P os @ dropWhile ?P os = os" by simp
  have s: "set os = set (takeWhile ?P os) \<union> set (dropWhile ?P os)" unfolding set_append [symmetric] os ..
  show "set (insert_by_price ord os) = insert ord (set os)"
    unfolding insert_by_price_def set_append list.set s by blast
  have "total g os = total g (takeWhile ?P os) + total g (dropWhile ?P os)"
    unfolding sum_list_append [symmetric] map_append [symmetric] os ..
  then show "total g (insert_by_price ord os) = total g os + g ord" by (simp add: insert_by_price_def)
  assume d: "distinct (map order_id os)" and n: "order_id ord \<notin> order_id ` set os"
  have "distinct (xs @ ys) \<Longrightarrow> x \<notin> set (xs @ ys) \<Longrightarrow> distinct (xs @ x # ys)" for xs ys :: "nat list" and x by auto
  from this [of "map order_id (takeWhile ?P os)" "map order_id (dropWhile ?P os)" "order_id ord"]
  show "distinct (map order_id (insert_by_price ord os))"
    using d n unfolding map_append [symmetric] os set_map by (simp add: insert_by_price_def)
qed

definition add_order :: "limit_order_object \<Rightarrow> ledger \<Rightarrow> ledger" where
  "add_order ord st = st\<lparr>limit_orders := insert_by_price ord (limit_orders st), next_order_id := Suc (next_order_id st)\<rparr>"

lemma add_order_adds:
  assumes "ledger_wf st" "order_id ord = next_order_id st" "order_wf ord"
  shows "adds st (add_order ord st) (\<lambda>a. ord_of a ord) \<and> find_order (order_id ord) (add_order ord st) = Some ord"
proof -
  have "order_id ord \<notin> order_id ` set (limit_orders st)" using assms(1,2) by (auto simp: ledger_wf_def)
  then have dist: "distinct (map order_id (insert_by_price ord (limit_orders st)))"
    using assms(1) insert_by_price_parts(3) by (simp add: ledger_wf_def)
  have "ledger_wf (add_order ord st)"
    using assms dist by (auto simp: ledger_wf_def add_order_def insert_by_price_parts(1) intro: less_SucI)
  moreover have "find_order (order_id ord) (add_order ord st) = Some ord"
    using row_find_in [OF dist, of ord] by (simp add: find_order_def add_order_def insert_by_price_parts(1))
  ultimately show ?thesis by (simp add: adds_def holdings_def issued_def add_order_def insert_by_price_parts(2))
qed

lemma asset_neg_eq:
  assumes "safe_spec fc" "amount_ok (amount d)" "asset_neg fc d = Inr e"
  shows "e = mk_asset (- amount d) (asset_id d)" "fits64 (amount e)"
  using assms amount_ok_fits [OF assms(2)] by (auto simp: asset_neg_def bindE_eq_Inr sneg_eq_Inr mk_asset_def)

lemma order_create_conserves:
  assumes "safe_spec fc" "ledger_wf st" "amount_ok (amount (amount_to_sell op))" "0 < amount (amount_to_sell op)"
    "positive_amount (amount (min_to_receive op))" "limit_order_create_apply fc op st = Inr (res, st')"
  shows "adds st st' (\<lambda>_. 0)"
proof -
  let ?d = "amount_to_sell op"
  from assms(6) obtain st1 e st2 p filled where
    r1: "(if asset_id ?d = core_asset_aid then add_core_in_orders fc (loc_seller op) (amount ?d) st else Inr st) = Inr st1"
    and e: "asset_neg fc ?d = Inr e" and r2: "adjust_balance fc (loc_seller op) e st1 = Inr st2"
    and p: "make_price ?d (min_to_receive op) = Inr p"
    and r3: "apply_order fc \<lparr>order_id = next_order_id st2, expiration = loc_expiration op, seller = loc_seller op, for_sale = amount ?d, sell_price = p\<rparr>
       (add_order \<lparr>order_id = next_order_id st2, expiration = loc_expiration op, seller = loc_seller op, for_sale = amount ?d, sell_price = p\<rparr> st2) = Inr (filled, st')"
    unfolding limit_order_create_apply_def Let_def add_order_def by (auto simp: bindE_eq_Inr fc_assert_eq_Inr)
  let ?ord = "\<lparr>order_id = next_order_id st2, expiration = loc_expiration op, seller = loc_seller op, for_sale = amount ?d, sell_price = p\<rparr>"
  have s1: "adds st st1 (\<lambda>_. 0)"
    using r1 core_in_orders_adds(1) [OF assms(1,2) amount_ok_fits [OF assms(3)]] adds_refl [OF assms(2)] by (auto split: if_splits)
  note e' = asset_neg_eq [OF assms(1,3) e]
  note s2 = adjust_adds [OF assms(1) adds_wf [OF s1] e'(2) r2]
  have "order_wf ?ord"
    using p assms(3-5) amount_ok_fits [OF assms(3)] by (auto simp: make_price_def fc_assert_eq_Inr order_wf_def price_ok_def positive_amount_def)
  then have s3: "adds st2 (add_order ?ord st2) (\<lambda>a. ord_of a ?ord)" "find_order (order_id ?ord) (add_order ?ord st2) = Some ?ord"
    using add_order_adds [OF adds_wf [OF s2(1)], of ?ord] by simp_all
  note s4 = apply_order_conserves [OF assms(1) adds_wf [OF s3(1)] s3(2) r3]
  have "adds st st2 (of_asset e)" by (rule adds_trans [OF s1 s2(1)]) simp
  then have "adds st (add_order ?ord st2) (\<lambda>_. 0)"
    by (rule adds_trans [OF _ s3(1)]) (use p in \<open>auto simp: ord_of_def e'(1) mk_asset_def make_price_def fc_assert_eq_Inr\<close>)
  then show ?thesis by (rule adds_trans [OF _ s4]) simp
qed

lemma order_cancel_conserves:
  assumes "safe_spec fc" "ledger_wf st" "limit_order_cancel_evaluate op st = Inr ord" "limit_order_cancel_apply fc ord st = Inr (res, st')"
  shows "adds st st' (\<lambda>_. 0)"
proof -
  have f: "find_order (cancel_order op) st = Some ord"
    using assms(3) by (auto simp: limit_order_cancel_evaluate_def bindE_eq_Inr fc_assert_eq_Inr option_or_eq_Inr)
  have "find_order (order_id ord) st = Some ord" unfolding find_order_wf(2) [OF assms(2) f] by (rule f)
  with cancel_conserves [OF assms(1,2) this, of False st'] assms(4) show ?thesis
    by (auto simp: limit_order_cancel_apply_def bindE_eq_Inr)
qed

lemma omap_get_delete: "omap_get b 0 (AList.delete k m) = (if b = k then 0 else omap_get b 0 m)"
  by (simp add: omap_get_def)

lemma omap_ok_delete: "omap_ok m \<Longrightarrow> omap_ok (AList.delete k m)"
proof -
  have "sorted_wrt R (map fst m) \<Longrightarrow> sorted_wrt R (map fst (AList.delete k m))" for R :: "'a \<Rightarrow> 'a \<Rightarrow> bool"
    by (induction m) (auto simp: AList.delete_eq)
  then show "omap_ok m \<Longrightarrow> omap_ok (AList.delete k m)" by (simp add: omap_ok_def)
qed

lemma collect_fee_owed:
  assumes "safe_spec fc" "stats_wf s" "amount_ok x" "omap_get k 0 (uncollected_market_fees s) \<ge> x" "collect_market_fee fc k x s = Inr s'"
  shows "stats_wf s' \<and> owner s' = owner s \<and> owed_of b s' = owed_of b s + (if b = k then - x else 0)"
proof -
  let ?m = "uncollected_market_fees s"
  have m: "fees_wf ?m" "omap_ok ?m" using assms(2) by (simp_all add: stats_wf_def fees_wf_def)
  obtain y where y: "map_of ?m k = Some y" using assms(5) by (auto simp: collect_market_fee_def split: option.splits)
  have yx: "x \<le> y" "fits64 y" "omap_get k 0 ?m = y" using assms(4) y fees_wf_get [OF m(1) y] by (simp_all add: omap_get_def)
  show ?thesis
  proof (cases "y = x")
    case True
    then have s': "s' = s\<lparr>uncollected_market_fees := AList.delete k ?m\<rparr>" using assms(5) y by (simp add: collect_market_fee_def)
    have "fees_wf (AList.delete k ?m)" using m omap_ok_delete [of ?m k] by (auto simp: fees_wf_def AList.delete_eq)
    with assms(2) True yx(3) show ?thesis unfolding s' owed_of_def by (simp add: stats_wf_def omap_get_delete)
  next
    case False
    then have s': "s' = s\<lparr>uncollected_market_fees := omap_put k (y - x) ?m\<rparr>" "fits64 (y - x)"
      using assms(1,5) y yx amount_ok_fits [OF assms(3)] by (auto simp: collect_market_fee_def bindE_eq_Inr ssub_eq_Inr)
    have "fees_wf (omap_put k (y - x) ?m)" by (rule fees_wf_put [OF m(1) _ s'(2)]) (use yx in simp)
    with assms(2) yx(3) m(2) show ?thesis unfolding s'(1) owed_of_def by (simp add: stats_wf_def omap_get_put)
  qed
qed

lemma fee_collect_conserves:
  assumes "safe_spec fc" "ledger_wf st" "amount_ok (mfc_amount op)" "market_fee_collect_evaluate op st = Inr ev"
    "market_fee_collect_apply fc op st = Inr (res, st')"
  shows "adds st st' (\<lambda>_. 0)"
proof -
  let ?d = "mk_asset (mfc_amount op) (mfc_asset_aid op)"
  from assms(5) obtain s s' where s: "get_account_statistics_by_uid (mfc_account op) st = Inr s"
    and c: "collect_market_fee fc (mfc_asset_aid op) (mfc_amount op) s = Inr s'"
    and r: "adjust_balance fc (mfc_account op) ?d (put_stats s' st) = Inr st'"
    by (auto simp: market_fee_collect_apply_def bindE_eq_Inr)
  have swf: "stats_wf s" using get_stats_wf [OF assms(2) s] by simp
  have "omap_get (mfc_asset_aid op) 0 (uncollected_market_fees s) \<ge> mfc_amount op"
    using assms(4) s by (auto simp: market_fee_collect_evaluate_def bindE_eq_Inr fc_assert_eq_Inr omap_get_def split: option.splits)
  note o = collect_fee_owed [OF assms(1) swf assms(3) this c]
  have s1: "adds st (put_stats s' st) (\<lambda>b. if b = mfc_asset_aid op then - mfc_amount op else 0)"
    by (rule put_stats_adds [OF assms(2) s]) (use o in auto)
  have "fits64 (amount ?d)" using amount_ok_fits [OF assms(3)] by (simp add: mk_asset_def)
  note s2 = adjust_adds [OF assms(1) adds_wf [OF s1] this r]
  show ?thesis by (rule adds_trans [OF s1 s2(1)]) (auto simp: mk_asset_def)
qed

end
