(* ===== verification/Supply_Correct.thy ===== *)
theory Supply_Correct
  imports Operations Market_Correct
begin

text \<open>
  Every operation keeps the books: what the ledger holds of an asset moves together with its supply,
  so that no operation creates coins or lets them disappear, and the ledger stays well-formed. The fee
  is part of the statement, since it is taken from the payer and from the supply.
\<close>

section \<open>Steps that move holdings and supply together\<close>

definition keeps :: "ledger \<Rightarrow> ledger \<Rightarrow> bool" where
  "keeps st st' \<longleftrightarrow> ledger_wf st' \<and> (\<forall>a. holdings a st' - issued a st' = holdings a st - issued a st)"

definition moves :: "ledger \<Rightarrow> ledger \<Rightarrow> (asset_aid_type \<Rightarrow> int) \<Rightarrow> bool" where
  "moves st st' f \<longleftrightarrow> ledger_wf st' \<and> (\<forall>a. holdings a st' - issued a st' = holdings a st - issued a st + f a)"

lemma keeps_moves: "keeps st st' \<longleftrightarrow> moves st st' (\<lambda>_. 0)"
  by (simp add: keeps_def moves_def)

lemma adds_moves: "adds st st' f \<Longrightarrow> moves st st' f"
  by (simp add: adds_def moves_def)

lemma moves_trans: "moves s t f \<Longrightarrow> moves t u g \<Longrightarrow> h = (\<lambda>a. f a + g a) \<Longrightarrow> moves s u h"
  by (simp add: moves_def)

lemma moves_wf: "moves s t f \<Longrightarrow> ledger_wf t"
  by (simp add: moves_def)

lemma moves_refl: "ledger_wf st \<Longrightarrow> moves st st (\<lambda>_. 0)"
  by (simp add: moves_def)

lemma adjust_moves:
  "safe_spec fc \<Longrightarrow> ledger_wf st \<Longrightarrow> fits64 (amount d) \<Longrightarrow> adjust_balance fc u d st = Inr st' \<Longrightarrow> moves st st' (of_asset d)"
  by (rule adds_moves, rule adjust_adds(1))

lemma asset_neg_facts:
  assumes "safe_spec fc" "fits64 (amount d)" "asset_neg fc d = Inr e"
  shows "asset_id e = asset_id d" "amount e = - amount d" "fits64 (amount e)"
  using assms by (auto simp: asset_neg_def mk_asset_def bindE_eq_Inr sneg_eq_Inr)

lemma spend_moves:
  assumes "safe_spec fc" "ledger_wf st" "fits64 (amount d)" "asset_neg fc d = Inr e" "adjust_balance fc u e st = Inr st'"
  shows "moves st st' (\<lambda>a. - of_asset d a)"
proof -
  note e = asset_neg_facts [OF assms(1,3,4)]
  have "moves st st' (of_asset e)" by (rule adjust_moves [OF assms(1,2) e(3) assms(5)])
  moreover have "of_asset e = (\<lambda>a. - of_asset d a)" using e by auto
  ultimately show ?thesis by simp
qed

lemma put_supply_moves:
  assumes "ledger_wf st" "dynamic_data i st = Inr d" "fits64 x"
  shows "moves st (put_dynamic (d\<lparr>current_supply := x\<rparr>) st) (\<lambda>a. if a = i then current_supply d - x else 0)"
  using put_dynamic_totals [OF assms(1,2), of "d\<lparr>current_supply := x\<rparr>"] put_dynamic_wf [OF assms(1), of "d\<lparr>current_supply := x\<rparr>"]
    get_dynamic_wf [OF assms(1,2)] assms(3)
  by (simp add: moves_def dynamic_wf_def)

lemma put_stats_moves:
  assumes "ledger_wf st" "get_account_statistics_by_uid u st = Inr s" "owner s' = owner s" "stats_wf s'"
    and "\<And>a. owed_of a s' = owed_of a s + f a"
  shows "moves st (put_stats s' st) f"
  by (rule adds_moves [OF put_stats_adds [OF assms]])

text \<open>Changes of a row of the statistics that no total reads.\<close>

lemma put_stats_keeps:
  assumes "ledger_wf st" "get_account_statistics_by_uid u st = Inr s" "stats_wf s'" "owner s' = owner s"
    "uncollected_market_fees s' = uncollected_market_fees s" "prepaid s' = prepaid s" "uncollected_pledge_bonus s' = uncollected_pledge_bonus s"
  shows "keeps st (put_stats s' st)"
  unfolding keeps_moves by (rule put_stats_moves [OF assms(1,2,4,3)]) (use assms(5-7) in \<open>simp add: owed_of_def\<close>)

lemma keeps_trans: "keeps s t \<Longrightarrow> keeps t u \<Longrightarrow> keeps s u"
  by (simp add: keeps_def)

lemma keeps_wf: "keeps s t \<Longrightarrow> ledger_wf t"
  by (simp add: keeps_def)

lemma keeps_refl: "ledger_wf st \<Longrightarrow> keeps st st"
  by (simp add: keeps_def)

section \<open>Fees\<close>

lemma validated_fee:
  assumes "validate_op_fee fc fee = Inr ()" "prepare_fee u fee st = Inr p"
  shows "asset_id (fee_from_account p) = core_asset_aid" "paid_from_balance p = amount (fee_from_account p)"
    "0 \<le> paid_from_balance p" "0 \<le> paid_from_prepaid p" "0 \<le> paid_from_csaf p"
  using assms
  by (auto simp: validate_op_fee_def validate_op_fee_asset_def validate_non_negative_core_asset_def validate_core_asset_id_def
      validate_asset_id_def validate_non_negative_amount_def add_fee_part_def prepare_fee_def Let_def opt_amount_def mk_asset_def
      bindE_eq_Inr fc_assert_eq_Inr split: option.splits)

lemma prepared_fits:
  assumes "fee_fits fee" "prepare_fee u fee st = Inr p"
  shows "fits64 (paid_from_balance p)" "fits64 (paid_from_prepaid p)" "fits64 (paid_from_csaf p)"
  using assms
  by (auto simp: fee_fits_def opt_fits_def asset_fits_def prepare_fee_def Let_def opt_amount_def mk_asset_def
      bindE_eq_Inr fc_assert_eq_Inr split: option.splits)

lemma process_fee_moves:
  assumes "safe_spec fc" "ledger_wf st"
    and p: "fits64 (paid_from_balance p)" "fits64 (paid_from_prepaid p)" "fits64 (paid_from_csaf p)" "0 \<le> paid_from_prepaid p" "0 \<le> paid_from_csaf p"
    and run: "process_fee_options fc False u p st = Inr st'"
  shows "moves st st' (\<lambda>a. if a = core_asset_aid then paid_from_balance p else 0)"
proof -
  from run obtain s x y d z c where s: "get_account_statistics_by_uid u st = Inr s"
    and enough: "paid_from_prepaid p > 0 \<longrightarrow> prepaid s \<ge> paid_from_prepaid p" "paid_from_csaf p > 0 \<longrightarrow> csaf s \<ge> paid_from_csaf p"
    and x: "(if paid_from_prepaid p > 0 then ssub fc (prepaid s) (paid_from_prepaid p) else Inr (prepaid s)) = Inr x"
    and y: "(if paid_from_csaf p > 0 then ssub fc (csaf s) (paid_from_csaf p) else Inr (csaf s)) = Inr y"
    and d: "dynamic_data core_asset_aid (put_stats (s\<lparr>prepaid := x, csaf := y\<rparr>) st) = Inr d"
    and z: "sadd fc (paid_from_prepaid p) (paid_from_balance p) = Inr z"
    and c: "ssub fc (current_supply d) z = Inr c"
    and st': "st' = put_dynamic (d\<lparr>current_supply := c\<rparr>) (put_stats (s\<lparr>prepaid := x, csaf := y\<rparr>) st)"
    by (auto simp: process_fee_options_def Let_def bindE_eq_Inr fc_assert_eq_Inr)
  let ?s = "s\<lparr>prepaid := x, csaf := y\<rparr>"
  have swf: "stats_wf s" using get_stats_wf [OF assms(2) s] by simp
  have x': "x = prepaid s - paid_from_prepaid p" "fits64 x" "0 \<le> x"
    using x swf enough(1) p assms(1) by (auto simp: stats_wf_def ssub_eq_Inr split: if_splits)
  have y': "fits64 y" "0 \<le> y"
    using y swf enough(2) p assms(1) by (auto simp: stats_wf_def ssub_eq_Inr split: if_splits)
  have m1: "moves st (put_stats ?s st) (\<lambda>a. if a = core_asset_aid then - paid_from_prepaid p else 0)"
    by (rule put_stats_moves [OF assms(2) s]) (use swf x' y' in \<open>auto simp: stats_wf_def owed_of_def\<close>)
  have z': "z = paid_from_prepaid p + paid_from_balance p" "fits64 z" using z p assms(1) by (auto simp: sadd_eq_Inr)
  have "dynamic_wf d" using get_dynamic_wf [OF moves_wf [OF m1] d] by simp
  then have c': "c = current_supply d - z" "fits64 c" using c z' assms(1) by (auto simp: dynamic_wf_def ssub_eq_Inr)
  show ?thesis unfolding st'
    by (rule moves_trans [OF m1 put_supply_moves [OF moves_wf [OF m1] d c'(2)]]) (auto simp: c' z')
qed

lemma start_evaluate_keeps:
  assumes "safe_spec fc" "ledger_wf st" "validate_op_fee fc fee = Inr ()" "fee_fits fee"
    and run: "start_evaluate fc False required u fee do_evaluate do_apply st = Inr (res, st')"
    and body: "\<And>ev r t. do_evaluate st = Inr ev \<Longrightarrow> do_apply ev st = Inr (r, t) \<Longrightarrow> keeps st t"
  shows "keeps st st'"
proof -
  from run obtain p ev t t' where p: "prepare_fee u fee st = Inr p" and ev: "do_evaluate st = Inr ev"
    and t: "do_apply ev st = Inr (res, t)"
    and t': "(if amount (fee_from_account p) > 0 then bindE (asset_neg fc (fee_from_account p)) (\<lambda>d. adjust_balance fc u d t) else Inr t) = Inr t'"
    and st': "process_fee_options fc False u p t' = Inr st'"
    by (auto simp: start_evaluate_def bindE_eq_Inr)
  note v = validated_fee [OF assms(3) p] and f = prepared_fits [OF assms(4) p]
  have k: "keeps st t" by (rule body [OF ev t])
  have m: "moves t t' (\<lambda>a. if a = core_asset_aid then - paid_from_balance p else 0)"
  proof (cases "amount (fee_from_account p) > 0")
    case True
    with t' obtain d where d: "asset_neg fc (fee_from_account p) = Inr d" "adjust_balance fc u d t = Inr t'"
      by (auto simp: bindE_eq_Inr)
    have "fits64 (amount (fee_from_account p))" using f(1) v(2) by simp
    from spend_moves [OF assms(1) keeps_wf [OF k] this d] show ?thesis
      unfolding v(1,2) by (simp add: moves_def eq_commute)
  next
    case False
    then have "t' = t" "paid_from_balance p = 0" using t' v(2,3) by auto
    with keeps_wf [OF k] show ?thesis by (simp add: moves_def)
  qed
  have "moves t st' (\<lambda>_. 0)"
    by (rule moves_trans [OF m process_fee_moves [OF assms(1) moves_wf [OF m] f v(4,5) st']]) auto
  with k show ?thesis by (simp add: keeps_moves [symmetric] keeps_trans)
qed

section \<open>Transfers\<close>

definition side_ok :: "asset \<Rightarrow> asset \<Rightarrow> asset \<Rightarrow> bool" where
  "side_ok amt b p \<longleftrightarrow> 0 \<le> amount b \<and> fits64 (amount b) \<and> 0 \<le> amount p \<and> fits64 (amount p) \<and>
     asset_id b = asset_id amt \<and> amount b + amount p = amount amt \<and> (amount p > 0 \<longrightarrow> asset_id amt = core_asset_aid)"

lemma plan_side_ok:
  assumes "safe_spec fc" "0 < amount amt" "asset_fits amt" "opt_fits bal" "opt_fits pre"
    "check_balance_part (asset_id amt) bal = Inr ()" "check_prepaid_part amt pre = Inr ()"
    "check_parts fc amt (opt_asset (asset_id amt) bal) (opt_asset (asset_id amt) pre) = Inr ()" "plan_side amt bal pre = (b, p)"
  shows "side_ok amt b p"
  using assms
  by (cases bal; cases pre)
    (auto simp: side_ok_def plan_side_def Let_def check_balance_part_def check_prepaid_part_def check_parts_def opt_asset_def opt_fits_def
      asset_fits_def validate_positive_asset_def validate_positive_amount_def validate_asset_id_def validate_positive_core_asset_def
      validate_core_asset_id_def asset_add_def asset_eq_def mk_asset_def bindE_eq_Inr fc_assert_eq_Inr sadd_eq_Inr split: if_splits)

lemma make_plan_ok:
  assumes "safe_spec fc" "transfer_validate fc sha op = Inr ()" "amounts_fit (Transfer_Op op)"
  shows "side_ok (tr_amount op) (asset_from_balance (make_plan auth op)) (asset_from_prepaid (make_plan auth op))"
    and "side_ok (tr_amount op) (asset_to_balance (make_plan auth op)) (asset_to_prepaid (make_plan auth op))"
proof -
  have pos: "0 < amount (tr_amount op)" and fits: "asset_fits (tr_amount op)"
    using assms(2,3) by (auto simp: transfer_validate_def validate_positive_asset_def validate_positive_amount_def bindE_eq_Inr fc_assert_eq_Inr)
  show "side_ok (tr_amount op) (asset_from_balance (make_plan auth op)) (asset_from_prepaid (make_plan auth op))"
  proof (cases "tr_ext op")
    case None
    with pos fits show ?thesis by (simp add: make_plan_def side_ok_def asset_fits_def mk_asset_def)
  next
    case (Some ev)
    obtain b p where bp: "plan_side (tr_amount op) (ext_from_balance ev) (ext_from_prepaid ev) = (b, p)" by fastforce
    have "side_ok (tr_amount op) b p"
      by (rule plan_side_ok [OF assms(1) pos fits _ _ _ _ _ bp])
        (use assms(2,3) Some in \<open>auto simp: transfer_validate_def Let_def bindE_eq_Inr\<close>)
    with Some bp show ?thesis by (simp add: make_plan_def split: prod.splits)
  qed
  show "side_ok (tr_amount op) (asset_to_balance (make_plan auth op)) (asset_to_prepaid (make_plan auth op))"
  proof (cases "tr_ext op")
    case None
    with pos fits show ?thesis by (simp add: make_plan_def side_ok_def asset_fits_def mk_asset_def)
  next
    case (Some ev)
    obtain b p where bp: "plan_side (tr_amount op) (ext_to_balance ev) (ext_to_prepaid ev) = (b, p)" by fastforce
    have "side_ok (tr_amount op) b p"
      by (rule plan_side_ok [OF assms(1) pos fits _ _ _ _ _ bp])
        (use assms(2,3) Some in \<open>auto simp: transfer_validate_def Let_def bindE_eq_Inr\<close>)
    with Some bp show ?thesis by (simp add: make_plan_def split: prod.splits)
  qed
qed

text \<open>The sum must not be negative: the evaluator checks that the prepaid coins suffice.\<close>

lemma prepaid_moves:
  assumes "safe_spec fc" "ledger_wf st" "get_account_statistics_by_uid u st = Inr s" "0 \<le> y" "fits64 y"
  shows "moves st (put_stats (s\<lparr>prepaid := y\<rparr>) st) (\<lambda>a. if a = core_asset_aid then y - prepaid s else 0)"
  by (rule put_stats_moves [OF assms(2,3)]) (use assms(4,5) get_stats_wf [OF assms(2,3)] in \<open>auto simp: stats_wf_def owed_of_def\<close>)

lemma use_auth_keeps:
  assumes "ledger_wf st" "use_auth fc auth x st = Inr st'"
  shows "moves st st' (\<lambda>_. 0)"
  using assms by (auto simp: use_auth_def bindE_eq_Inr moves_def ledger_frame split: option.splits)

lemma same_stats_money:
  assumes "map money (account_stats st') = map money (account_stats st)" "get_account_statistics_by_uid u st' = Inr s'"
    "get_account_statistics_by_uid u st = Inr s" "ledger_wf st" "ledger_wf st'"
  shows "money s' = money s"
proof -
  have "money s' \<in> set (map money (account_stats st))"
    using get_stats_wf [OF assms(5,2)] by (auto simp: assms(1) [symmetric])
  then obtain t where t: "t \<in> set (account_stats st)" "money t = money s'" by auto
  moreover have "owner s' = u" "owner s = u" "s \<in> set (account_stats st)" using get_stats_wf [OF assms(5,2)] get_stats_wf [OF assms(4,3)] by simp_all
  moreover have "distinct (map owner (account_stats st))" using assms(4) by (simp add: ledger_wf_def)
  ultimately have "t = s" using row_find_in [of owner "account_stats st" t] row_find_in [of owner "account_stats st" s] by (auto simp: money_def)
  with t(2) show ?thesis by simp
qed

lemma transfer_keeps:
  assumes "safe_spec fc" "ledger_wf st" "transfer_validate fc sha op = Inr ()" "amounts_fit (Transfer_Op op)"
    and ev: "transfer_evaluate fc sigs op st = Inr plan" and run: "transfer_apply fc op plan st = Inr (res, st')"
  shows "keeps st st'"
proof -
  let ?fb = "asset_from_balance plan" and ?fp = "asset_from_prepaid plan" and ?tb = "asset_to_balance plan" and ?tp = "asset_to_prepaid plan"
  from ev obtain auth where plan: "plan = make_plan auth op"
    and enough: "amount ?fp > 0 \<longrightarrow> (\<exists>s. get_account_statistics_by_uid (tr_from op) st = Inr s \<and> prepaid s \<ge> amount ?fp)"
    unfolding transfer_evaluate_def Let_def by (fastforce simp: bindE_eq_Inr fc_assert_eq_Inr graphene_assert_eq_Inr split: if_splits)
  have f: "side_ok (tr_amount op) ?fb ?fp" and t: "side_ok (tr_amount op) ?tb ?tp"
    unfolding plan by (rule make_plan_ok [OF assms(1,3,4)])+
  from run obtain s1 s2 s3 where
    r1: "(if amount ?fb > 0 then bindE (asset_neg fc ?fb) (\<lambda>d. adjust_balance fc (tr_from op) d st) else Inr st) = Inr s1"
    and r2: "(if amount ?fp > 0 then bindE (sub_prepaid fc (tr_from op) (amount ?fp) s1) (use_auth fc (auth_object plan) (amount ?fp)) else Inr s1) = Inr s2"
    and r3: "(if amount ?tb > 0 then adjust_balance fc (tr_to op) ?tb s2 else Inr s2) = Inr s3"
    and r4: "(if amount ?tp > 0 then add_prepaid fc (tr_to op) (amount ?tp) s3 else Inr s3) = Inr st'"
    by (auto simp: transfer_apply_def bindE_eq_Inr)
  have m1: "moves st s1 (\<lambda>a. - of_asset ?fb a) \<and> map money (account_stats s1) = map money (account_stats st)"
  proof (cases "amount ?fb > 0")
    case True
    with r1 obtain d where d: "asset_neg fc ?fb = Inr d" "adjust_balance fc (tr_from op) d st = Inr s1" by (auto simp: bindE_eq_Inr)
    have fit: "fits64 (amount ?fb)" using f by (simp add: side_ok_def)
    have "same_but_balances st s1" using adjust_balance_effect [OF assms(1,2) asset_neg_facts(3) [OF assms(1) fit d(1)] d(2)] by blast
    with spend_moves [OF assms(1,2) fit d] show ?thesis by (simp add: same_but_balances_def)
  next
    case False
    with r1 f moves_refl [OF assms(2)] show ?thesis by (simp add: side_ok_def cong: if_cong)
  qed
  have m2: "moves s1 s2 (\<lambda>a. if a = core_asset_aid then - amount ?fp else 0)"
  proof (cases "amount ?fp > 0")
    case True
    with r2 obtain t s y where g: "get_account_statistics_by_uid (tr_from op) s1 = Inr s" and y: "ssub fc (prepaid s) (amount ?fp) = Inr y"
      and t: "t = put_stats (s\<lparr>prepaid := y\<rparr>) s1" and u: "use_auth fc (auth_object plan) (amount ?fp) t = Inr s2"
      by (auto simp: sub_prepaid_def bindE_eq_Inr)
    have wf1: "ledger_wf s1" using m1 moves_wf by blast
    from enough True obtain s0 where s0: "get_account_statistics_by_uid (tr_from op) st = Inr s0" "prepaid s0 \<ge> amount ?fp" by blast
    then have ge: "prepaid s \<ge> amount ?fp" using same_stats_money [OF conjunct2 [OF m1] g s0(1) assms(2) wf1] by (simp add: money_def)
    have y': "y = prepaid s - amount ?fp" "fits64 y"
      using y f get_stats_wf [OF wf1 g] assms(1) by (auto simp: ssub_eq_Inr side_ok_def stats_wf_def)
    have "moves s1 t (\<lambda>a. if a = core_asset_aid then y - prepaid s else 0)" unfolding t
      by (rule prepaid_moves [OF assms(1) wf1 g]) (use ge y' in auto)
    from moves_trans [OF this use_auth_keeps [OF moves_wf [OF this] u]] y' show ?thesis by (auto simp: moves_def)
  next
    case False
    with r2 f m1 show ?thesis by (auto simp: side_ok_def moves_def)
  qed
  have wf2: "ledger_wf s2" by (rule moves_wf [OF m2])
  have m3: "moves s2 s3 (of_asset ?tb)"
  proof (cases "amount ?tb > 0")
    case True
    with r3 adjust_moves [OF assms(1) wf2 _, of ?tb "tr_to op" s3] t show ?thesis by (simp add: side_ok_def)
  next
    case False
    with r3 t wf2 show ?thesis by (auto simp: side_ok_def moves_def)
  qed
  have wf3: "ledger_wf s3" by (rule moves_wf [OF m3])
  have m4: "moves s3 st' (\<lambda>a. if a = core_asset_aid then amount ?tp else 0)"
  proof (cases "amount ?tp > 0")
    case True
    with r4 obtain s y where g: "get_account_statistics_by_uid (tr_to op) s3 = Inr s" and y: "sadd fc (prepaid s) (amount ?tp) = Inr y"
      and st': "st' = put_stats (s\<lparr>prepaid := y\<rparr>) s3" by (auto simp: add_prepaid_def bindE_eq_Inr)
    have y': "y = prepaid s + amount ?tp" "fits64 y" "0 \<le> y"
      using y t get_stats_wf [OF wf3 g] assms(1) by (auto simp: sadd_eq_Inr side_ok_def stats_wf_def)
    from prepaid_moves [OF assms(1) wf3 g y'(3,2)] y'(1) show ?thesis by (simp add: st' cong: if_cong)
  next
    case False
    with r4 t wf3 show ?thesis by (auto simp: side_ok_def moves_def)
  qed
  note m = moves_trans [OF moves_trans [OF conjunct1 [OF m1] m2 refl] moves_trans [OF m3 m4 refl] refl]
  have "- of_asset ?fb a + (if a = core_asset_aid then - amount ?fp else 0) + (of_asset ?tb a + (if a = core_asset_aid then amount ?tp else 0)) = 0" for a
    using f t by (auto simp: side_ok_def)
  with m show ?thesis by (simp add: keeps_moves)
qed

lemma move_amount_keeps:
  assumes "safe_spec fc" "ledger_wf st" "asset_fits d" "move_amount fc u v d st = Inr (res, st')"
  shows "keeps st st'"
proof -
  have fit: "fits64 (amount d)" using assms(3) by (simp add: asset_fits_def)
  from assms(4) obtain e t where r: "asset_neg fc d = Inr e" "adjust_balance fc u e st = Inr t" "adjust_balance fc v d t = Inr st'"
    by (auto simp: move_amount_def bindE_eq_Inr)
  note m = spend_moves [OF assms(1,2) fit r(1,2)]
  show ?thesis unfolding keeps_moves
    by (rule moves_trans [OF m adjust_moves [OF assms(1) moves_wf [OF m] fit r(3)]]) auto
qed

section \<open>Assets\<close>

lemma issue_keeps:
  assumes "safe_spec fc" "ledger_wf st" "asset_fits (asset_to_issue op)" "asset_issue_apply fc op st = Inr (res, st')"
  shows "keeps st st'"
proof -
  let ?d = "asset_to_issue op"
  from assms(4) obtain t d x where r: "adjust_balance fc (issue_to_account op) ?d st = Inr t" and d: "dynamic_data (asset_id ?d) t = Inr d"
    and x: "sadd fc (current_supply d) (amount ?d) = Inr x" and st': "st' = put_dynamic (d\<lparr>current_supply := x\<rparr>) t"
    by (auto simp: asset_issue_apply_def bindE_eq_Inr)
  have fit: "fits64 (amount ?d)" using assms(3) by (simp add: asset_fits_def)
  note m = adjust_moves [OF assms(1,2) fit r]
  have x': "x = current_supply d + amount ?d" "fits64 x"
    using x fit assms(1) get_dynamic_wf [OF moves_wf [OF m] d] by (auto simp: dynamic_wf_def sadd_eq_Inr)
  show ?thesis unfolding keeps_moves st'
    by (rule moves_trans [OF m put_supply_moves [OF moves_wf [OF m] d x'(2)]]) (auto simp: x')
qed

lemma reserve_keeps:
  assumes "safe_spec fc" "ledger_wf st" "asset_fits (amount_to_reserve op)" "asset_reserve_apply fc op st = Inr (res, st')"
  shows "keeps st st'"
proof -
  let ?d = "amount_to_reserve op"
  from assms(4) obtain e t d x where r: "asset_neg fc ?d = Inr e" "adjust_balance fc (rs_payer op) e st = Inr t"
    and d: "dynamic_data (asset_id ?d) t = Inr d" and x: "ssub fc (current_supply d) (amount ?d) = Inr x"
    and st': "st' = put_dynamic (d\<lparr>current_supply := x\<rparr>) t"
    by (auto simp: asset_reserve_apply_def bindE_eq_Inr)
  have fit: "fits64 (amount ?d)" using assms(3) by (simp add: asset_fits_def)
  note m = spend_moves [OF assms(1,2) fit r]
  have x': "x = current_supply d - amount ?d" "fits64 x"
    using x fit assms(1) get_dynamic_wf [OF moves_wf [OF m] d] by (auto simp: dynamic_wf_def ssub_eq_Inr)
  show ?thesis unfolding keeps_moves st'
    by (rule moves_trans [OF m put_supply_moves [OF moves_wf [OF m] d x'(2)]]) (auto simp: x')
qed

lemma claim_keeps:
  assumes "safe_spec fc" "ledger_wf st" "asset_fits (amount_to_claim op)" "asset_claim_fees_apply fc op st = Inr (res, st')"
  shows "keeps st st'"
proof -
  let ?d = "amount_to_claim op"
  from assms(4) obtain a d x where a: "get_asset_by_aid (asset_id ?d) st = Inr a" and d: "dynamic_data (object_asset_id a) st = Inr d"
    and le: "amount ?d \<le> accumulated_fees d" and x: "ssub fc (accumulated_fees d) (amount ?d) = Inr x"
    and r: "adjust_balance fc (cf_issuer op) ?d (put_dynamic (d\<lparr>accumulated_fees := x\<rparr>) st) = Inr st'"
    by (auto simp: asset_claim_fees_apply_def bindE_eq_Inr fc_assert_eq_Inr)
  have fit: "fits64 (amount ?d)" using assms(3) by (simp add: asset_fits_def)
  have id: "object_asset_id a = asset_id ?d" using a by (auto simp: get_asset_by_aid_def option_or_eq_Inr dest: row_find_Some)
  have dw: "dynamic_wf d" using get_dynamic_wf [OF assms(2) d] by simp
  have x': "x = accumulated_fees d - amount ?d" "fits64 x" using x fit assms(1) dw by (auto simp: dynamic_wf_def ssub_eq_Inr)
  have m: "moves st (put_dynamic (d\<lparr>accumulated_fees := x\<rparr>) st) (\<lambda>b. if b = object_asset_id a then - amount ?d else 0)"
    by (rule adds_moves, rule put_dynamic_adds [OF assms(2) d]) (use dw x' le in \<open>auto simp: dynamic_wf_def\<close>)
  show ?thesis unfolding keeps_moves
    by (rule moves_trans [OF m adjust_moves [OF assms(1) moves_wf [OF m] fit r]]) (auto simp: id)
qed

lemma validated_options_wf: "options_fit opts \<Longrightarrow> asset_options_validate opts = Inr () \<Longrightarrow> options_wf opts"
  by (auto simp: options_fit_def asset_options_validate_def options_wf_def fc_assert_eq_Inr split: option.splits)

lemma update_keeps:
  assumes "ledger_wf st" "options_fit (new_options op)" "asset_update_validate fc sha op = Inr ()"
    "asset_update_evaluate op st = Inr a" "asset_update_apply op a st = Inr (res, st')"
  shows "keeps st st'"
proof -
  let ?a = "a\<lparr>precision := (case new_precision op of Some p \<Rightarrow> p | None \<Rightarrow> precision a), options := new_options op\<rparr>"
  have opt: "options_wf (new_options op)"
    using assms(2,3) by (intro validated_options_wf) (auto simp: asset_update_validate_def bindE_eq_Inr fc_assert_eq_Inr)
  have ids: "object_asset_id ` set (row_put object_asset_id ?a (asset_objects st)) = object_asset_id ` set (asset_objects st)"
    by (metis list.set_map row_put_keys)
  have st': "st' = st\<lparr>asset_objects := row_put object_asset_id ?a (asset_objects st)\<rparr>"
    using assms(5) by (simp add: asset_update_apply_def)
  have "\<forall>x\<in>set (row_put object_asset_id ?a (asset_objects st)). options_wf (options x)"
    using set_row_put [of object_asset_id ?a "asset_objects st"] opt assms(1) by (auto simp: ledger_wf_def)
  with ids assms(1) show ?thesis unfolding st' keeps_def by (simp add: ledger_wf_def holdings_frame issued_frame)
qed

lemma create_keeps:
  assumes "safe_spec fc" "ledger_wf st" "amounts_fit (Asset_Create_Op op)" "asset_create_validate fc sha op = Inr ()"
    "asset_create_apply fc op st = Inr (res, st')"
  shows "keeps st st'"
proof -
  let ?id = "of_nat (next_asset_id st)" and ?x = "initial_supply op"
  let ?d = "\<lparr>dynamic_asset_id = ?id, current_supply = ?x, accumulated_fees = 0\<rparr>"
  let ?a = "\<lparr>object_asset_id = ?id, symbol = ac_symbol op, precision = ac_precision op, issuer = ac_issuer op, options = common_options op\<rparr>"
  let ?t = "st\<lparr>asset_dynamics := asset_dynamics st @ [?d], asset_objects := asset_objects st @ [?a], next_asset_id := Suc (next_asset_id st)\<rparr>"
  from assms(5) have new: "row_find object_asset_id ?id (asset_objects st) = None"
    and r: "(if ?x > 0 then adjust_balance fc (ac_issuer op) (asset_amount ?a ?x) ?t else Inr ?t) = Inr st'"
    by (auto simp: asset_create_apply_def Let_def bindE_eq_Inr fc_assert_eq_Inr)
  have opt: "options_wf (common_options op)"
    using assms(3,4) by (intro validated_options_wf) (auto simp: asset_create_validate_def bindE_eq_Inr)
  have x: "0 \<le> ?x" "fits64 ?x"
    using assms(3,4) by (auto simp: asset_create_validate_def initial_supply_def bindE_eq_Inr fc_assert_eq_Inr split: option.splits)
  have "?id \<notin> dynamic_asset_id ` set (asset_dynamics st)" using new assms(2) by (auto simp: row_find_None ledger_wf_def)
  with opt x assms(2) have wf: "ledger_wf ?t" by (auto simp: ledger_wf_def dynamic_wf_def)
  have m: "moves st ?t (\<lambda>a. if a = ?id then - ?x else 0)" unfolding moves_def
    using wf by (simp add: holdings_def issued_def fee_of_def supply_of_def)
  have "moves ?t st' (\<lambda>a. if a = ?id then ?x else 0)"
  proof (cases "?x > 0")
    case True
    with r have "adjust_balance fc (ac_issuer op) (asset_amount ?a ?x) ?t = Inr st'" by simp
    from adjust_moves [OF assms(1) wf _ this] x(2) show ?thesis by (simp add: asset_amount_def mk_asset_def moves_def eq_commute)
  next
    case False
    with r x wf show ?thesis by (auto simp: moves_def)
  qed
  then show ?thesis unfolding keeps_moves by (rule moves_trans [OF m]) auto
qed

section \<open>Coin-seconds, leases and locks\<close>

lemma refresh_stats:
  assumes "stats_wf s" "refresh_coin_seconds fc hf st s = Inr s'"
  shows "stats_wf s' \<and> money s' = money s"
  using update_coin_seconds_money [OF assms(2) [unfolded refresh_coin_seconds_def]] assms(1) money_wf [of s' s] by (simp add: stats_wf_def)

lemma refresh_before_stats:
  assumes "stats_wf s" "refresh_before_fork fc st s = Inr s'"
  shows "stats_wf s' \<and> money s' = money s"
  using assms refresh_stats [OF assms(1)] by (auto simp: refresh_before_fork_def split: if_splits)

lemma put_money_keeps:
  assumes "ledger_wf st" "get_account_statistics_by_uid u st = Inr s" "stats_wf s'" "money s' = money s"
  shows "keeps st (put_stats s' st)"
  by (rule put_stats_keeps [OF assms(1-3)]) (use assms(4) in \<open>simp_all add: money_def\<close>)

lemma leased_keeps:
  assumes "ledger_wf st"
  shows "add_leased_out fc u x st = Inr st' \<Longrightarrow> keeps st st'" "add_leased_in fc u x st = Inr st' \<Longrightarrow> keeps st st'"
    "sub_leased_out fc u x st = Inr st' \<Longrightarrow> keeps st st'" "sub_leased_in fc u x st = Inr st' \<Longrightarrow> keeps st st'"
proof -
  have put: "keeps st (put_stats (s'\<lparr>core_leased_out := y\<rparr>) st) \<and> keeps st (put_stats (s'\<lparr>core_leased_in := y\<rparr>) st)"
    if s: "get_account_statistics_by_uid u st = Inr s" and s': "refresh_before_fork fc st s = Inr s'" for s s' y
  proof -
    have r: "stats_wf s' \<and> money s' = money s" using get_stats_wf [OF assms s] s' by (intro refresh_before_stats) auto
    then show ?thesis by (intro conjI put_money_keeps [OF assms s]) (auto simp: stats_wf_def money_def)
  qed
  show "add_leased_out fc u x st = Inr st' \<Longrightarrow> keeps st st'" using put by (auto simp: add_leased_out_def bindE_eq_Inr)
  show "add_leased_in fc u x st = Inr st' \<Longrightarrow> keeps st st'" using put by (auto simp: add_leased_in_def bindE_eq_Inr)
  show "sub_leased_out fc u x st = Inr st' \<Longrightarrow> keeps st st'" using put by (auto simp: sub_leased_out_def bindE_eq_Inr)
  show "sub_leased_in fc u x st = Inr st' \<Longrightarrow> keeps st st'" using put by (auto simp: sub_leased_in_def bindE_eq_Inr)
qed

lemma keeps_frame [simp]:
  "keeps st (t\<lparr>csaf_leases := ls\<rparr>) = keeps st t" "keeps st (t\<lparr>next_lease_id := n\<rparr>) = keeps st t"
  "keeps st (t\<lparr>pledge_rows := ps\<rparr>) = keeps st t" "keeps st (t\<lparr>next_pledge_id := m\<rparr>) = keeps st t"
  by (simp_all add: keeps_def ledger_frame)

lemma collect_keeps:
  assumes "safe_spec fc" "ledger_wf st" "asset_fits (cc_amount op)" "csaf_collect_validate fc sha op = Inr ()"
    "csaf_collect_apply fc op ev st = Inr (res, st')"
  shows "keeps st st'"
proof -
  from assms(5) obtain s t s2 x where s: "get_account_statistics_by_uid (cc_from op) st = Inr s"
    and t: "t = put_stats (set_coin_seconds_earned (fst ev - snd ev) (cc_time op) s) st"
    and s2: "get_account_statistics_by_uid (cc_to op) t = Inr s2" and x: "sadd fc (csaf s2) (amount (cc_amount op)) = Inr x"
    and st': "st' = put_stats (s2\<lparr>csaf := x\<rparr>) t"
    by (auto simp: csaf_collect_apply_def Let_def bindE_eq_Inr)
  have k: "keeps st t" unfolding t
    by (rule put_money_keeps [OF assms(2) s]) (use get_stats_wf [OF assms(2) s] in \<open>auto simp: set_coin_seconds_earned_def Let_def stats_wf_def money_def\<close>)
  have "0 < amount (cc_amount op)"
    using assms(4) by (auto simp: csaf_collect_validate_def validate_positive_core_asset_def validate_positive_amount_def bindE_eq_Inr fc_assert_eq_Inr)
  then have "stats_wf (s2\<lparr>csaf := x\<rparr>)"
    using x assms(1,3) get_stats_wf [OF keeps_wf [OF k] s2] by (auto simp: stats_wf_def asset_fits_def sadd_eq_Inr)
  then have "keeps t st'" unfolding st' by (intro put_stats_keeps [OF keeps_wf [OF k] s2]) auto
  with k show ?thesis by (rule keeps_trans)
qed

lemma lease_keeps:
  assumes "ledger_wf st" "csaf_lease_apply fc op ev st = Inr (res, st')"
  shows "keeps st st'"
proof -
  obtain i t where w: "write_lease op (fst ev) st = (i, t)" by fastforce
  then have t: "keeps st t" using keeps_refl [OF assms(1)] by (auto simp: write_lease_def split: option.splits)
  have r: "(if snd ev \<noteq> 0 then bindE (add_leased_out fc (cl_from op) (snd ev) t) (add_leased_in fc (cl_to op) (snd ev)) else Inr t) = Inr st'"
    using assms(2) w by (auto simp: csaf_lease_apply_def bindE_eq_Inr)
  show ?thesis
  proof (cases "snd ev = 0")
    case True
    with r t show ?thesis by simp
  next
    case False
    with r obtain t1 where t1: "add_leased_out fc (cl_from op) (snd ev) t = Inr t1" "add_leased_in fc (cl_to op) (snd ev) t1 = Inr st'"
      by (auto simp: bindE_eq_Inr)
    have k: "keeps t t1" by (rule leased_keeps(1) [OF keeps_wf [OF t] t1(1)])
    have "keeps t1 st'" by (rule leased_keeps(2) [OF keeps_wf [OF k] t1(2)])
    with t k show ?thesis using keeps_trans by blast
  qed
qed

lemma get_put_stats:
  assumes "ledger_wf st" "get_account_statistics_by_uid u st = Inr s" "owner s' = owner s"
  shows "get_account_statistics_by_uid v (put_stats s' st) = (if v = u then Inr s' else get_account_statistics_by_uid v st)"
proof -
  have "owner s = u" "u \<in> owner ` set (account_stats st)" using get_stats_wf [OF assms(1,2)] by (auto intro: image_eqI [of _ _ s])
  with assms(3) show ?thesis by (simp add: get_account_statistics_by_uid_def put_stats_def row_find_put)
qed

lemma lock_keeps:
  assumes "ledger_wf st" "balance_lock_apply fc op lock st = Inr (res, st')"
  shows "keeps st st'"
proof -
  from assms(2) obtain s s1 where s: "get_account_statistics_by_uid (bl_account op) st = Inr s"
    and s1: "refresh_coin_seconds fc enable_head_fork_05 st s = Inr s1"
    by (auto simp: balance_lock_apply_def bindE_eq_Inr)
  have r: "stats_wf s1 \<and> money s1 = money s" using refresh_stats [OF _ s1] get_stats_wf [OF assms(1) s] by simp
  have k: "keeps st (put_stats s1 st)" by (rule put_money_keeps [OF assms(1) s]) (use r in auto)
  have g: "get_account_statistics_by_uid (bl_account op) (put_stats s1 st) = Inr s1"
    using get_put_stats [OF assms(1) s] r by (simp add: money_def)
  show ?thesis
  proof (cases lock)
    case None
    let ?t = "\<lambda>ps m. (put_stats s1 st)\<lparr>pledge_rows := ps, next_pledge_id := m\<rparr>"
    have "keeps (put_stats s1 st) (?t ps m)" for ps m by (simp add: keeps_refl [OF keeps_wf [OF k]])
    then have kt: "keeps st (?t ps m)" for ps m using k keeps_trans by blast
    have gt: "get_account_statistics_by_uid (bl_account op) (?t ps m) = Inr s1" for ps m using g by (simp add: get_stats_iff)
    have "keeps (?t ps m) (put_stats (s1\<lparr>pledge_balance_ids := z\<rparr>) (?t ps m))" for ps m z
      by (rule put_money_keeps [OF keeps_wf [OF kt] gt]) (use r in \<open>auto simp: stats_wf_def money_def\<close>)
    with kt have "keeps st (put_stats (s1\<lparr>pledge_balance_ids := z\<rparr>) (?t ps m))" for ps m z using keeps_trans by blast
    with assms(2) None s s1 show ?thesis by (auto simp: balance_lock_apply_def Let_def)
  next
    case (Some x)
    obtain i pb where "x = (i, pb)" by fastforce
    with assms(2) Some s s1 k show ?thesis by (auto simp: balance_lock_apply_def Let_def bindE_eq_Inr)
  qed
qed

lemma bonus_keeps:
  assumes "safe_spec fc" "ledger_wf st" "fits64 (pb_bonus op)" "pledge_bonus_collect_evaluate op st = Inr u"
    "pledge_bonus_collect_apply fc op st = Inr (res, st')"
  shows "keeps st st'"
proof -
  let ?d = "mk_asset (pb_bonus op) core_asset_aid"
  from assms(5) obtain t s x where r: "adjust_balance fc (pb_account op) ?d st = Inr t" and s: "get_account_statistics_by_uid (pb_account op) t = Inr s"
    and x: "ssub fc (uncollected_pledge_bonus s) (pb_bonus op) = Inr x" and st': "st' = put_stats (s\<lparr>uncollected_pledge_bonus := x\<rparr>) t"
    by (auto simp: pledge_bonus_collect_apply_def bindE_eq_Inr)
  from assms(4) obtain s0 where s0: "get_account_statistics_by_uid (pb_account op) st = Inr s0" "uncollected_pledge_bonus s0 \<ge> pb_bonus op"
    by (auto simp: pledge_bonus_collect_evaluate_def bindE_eq_Inr fc_assert_eq_Inr)
  have fit: "fits64 (amount ?d)" using assms(3) by (simp add: mk_asset_def)
  note m = adjust_moves [OF assms(1,2) fit r]
  have "same_but_balances st t" using adjust_balance_effect [OF assms(1,2) fit r] by blast
  then have ge: "uncollected_pledge_bonus s \<ge> pb_bonus op"
    using same_stats_money [OF _ s s0(1) assms(2) moves_wf [OF m]] s0(2) by (simp add: same_but_balances_def money_def)
  have swf: "stats_wf s" using get_stats_wf [OF moves_wf [OF m] s] by simp
  have x': "x = uncollected_pledge_bonus s - pb_bonus op" "fits64 x" "0 \<le> x"
    using x ge swf assms(1,3) by (auto simp: stats_wf_def ssub_eq_Inr)
  have "moves t st' (\<lambda>a. if a = core_asset_aid then - pb_bonus op else 0)" unfolding st'
    by (rule put_stats_moves [OF moves_wf [OF m] s]) (use swf x' in \<open>auto simp: stats_wf_def owed_of_def\<close>)
  then show ?thesis unfolding keeps_moves by (rule moves_trans [OF m]) (auto simp: mk_asset_def)
qed

section \<open>Clean-ups\<close>

lemma expire_orders_keeps: "safe_spec fc \<Longrightarrow> ledger_wf st \<Longrightarrow> expire_orders n fc st = Inr st' \<Longrightarrow> keeps st st'"
proof (induction n arbitrary: st)
  case (Suc n)
  show ?case
  proof (cases "expires_first (limit_orders st)")
    case None
    with Suc.prems keeps_refl show ?thesis by simp
  next
    case (Some ord)
    then obtain rest where "sort_key (\<lambda>ord. (expiration ord, order_id ord)) (limit_orders st) = ord # rest"
      by (auto simp: expires_first_def split: list.splits)
    then have "ord \<in> set (limit_orders st)" by (rule sort_key_hd(1))
    then have f: "find_order (order_id ord) st = Some ord"
      using Suc.prems(2) row_find_in [of order_id "limit_orders st" ord] by (simp add: find_order_def ledger_wf_def)
    show ?thesis
    proof (cases "expiration ord \<le> ledger_time st")
      case True
      with Some Suc.prems(3) obtain t where t: "cancel_limit_order fc ord True st = Inr t" "expire_orders n fc t = Inr st'"
        by (auto simp: bindE_eq_Inr)
      have k: "keeps st t" using cancel_conserves [OF Suc.prems(1,2) f t(1)] adds_moves keeps_moves by blast
      from keeps_trans [OF k Suc.IH [OF Suc.prems(1) keeps_wf [OF k] t(2)]] show ?thesis .
    next
      case False
      with Some Suc.prems keeps_refl show ?thesis by simp
    qed
  qed
qed (simp add: keeps_refl)

lemma end_lease_keeps:
  assumes "ledger_wf st" "end_lease fc l st = Inr st'"
  shows "keeps st st'"
proof -
  from assms(2) obtain t u where t: "sub_leased_out fc (lease_from l) (lease_amount l) st = Inr t" "sub_leased_in fc (lease_to l) (lease_amount l) t = Inr u"
    and st': "st' = u\<lparr>csaf_leases := row_remove lease_id (lease_id l) (csaf_leases u)\<rparr>"
    by (auto simp: end_lease_def bindE_eq_Inr)
  have k: "keeps st t" by (rule leased_keeps(3) [OF assms(1) t(1)])
  from keeps_trans [OF k leased_keeps(4) [OF keeps_wf [OF k] t(2)]] show ?thesis by (simp add: st')
qed

lemma expire_leases_keeps: "ledger_wf st \<Longrightarrow> expire_leases n fc st = Inr st' \<Longrightarrow> keeps st st'"
proof (induction n arbitrary: st)
  case (Suc n)
  show ?case
  proof (cases "first_lease (csaf_leases st)")
    case (Some l)
    show ?thesis
    proof (cases "lease_expiration l \<le> ledger_time st")
      case True
      with Some Suc.prems(2) obtain t where t: "end_lease fc l st = Inr t" "expire_leases n fc t = Inr st'" by (auto simp: bindE_eq_Inr)
      have k: "keeps st t" by (rule end_lease_keeps [OF Suc.prems(1) t(1)])
      from keeps_trans [OF k Suc.IH [OF keeps_wf [OF k] t(2)]] show ?thesis .
    next
      case False
      with Some Suc.prems keeps_refl show ?thesis by simp
    qed
  qed (use Suc.prems keeps_refl in simp)
qed (simp add: keeps_refl)

section \<open>All operations\<close>

lemma amount_sell_ok: "0 < x \<Longrightarrow> fits64 x \<Longrightarrow> amount_ok x \<and> positive_amount x"
  using fits_amount_ok [of x] by (simp add: positive_amount_def)

lemma validate_fee_part: "operation_validate fc sha op = Inr () \<Longrightarrow> validate_op_fee fc (op_fee op) = Inr ()"
  by (cases op) (auto simp: transfer_validate_def csaf_collect_validate_def csaf_lease_validate_def asset_create_validate_def asset_update_validate_def
      asset_issue_validate_def asset_reserve_validate_def asset_claim_fees_validate_def override_transfer_validate_def balance_lock_validate_def
      pledge_bonus_collect_validate_def limit_order_create_validate_def limit_order_cancel_validate_def market_fee_collect_validate_def
      bindE_eq_Inr fc_assert_eq_Inr)

end
