(* ===== verification/Ledger_Example.thy ===== *)
theory Ledger_Example
  imports Ledger_Correct Voting_Correct Fees Authority
begin

text \<open>A well-formed ledger for the examples: two accounts, two assets and an order on the book.\<close>

definition example_options :: "16 word \<Rightarrow> 16 word \<Rightarrow> asset_options" where
  "example_options f percent = \<lparr>max_supply = 1000000, market_fee_percent = percent, max_market_fee = 1000, issuer_permissions = 0, flags = f,
     whitelist_authorities = [], blacklist_authorities = [], whitelist_markets = [], blacklist_markets = [], description = [],
     reward_percent_ext = None\<rparr>"

definition example_account :: "account_uid_type \<Rightarrow> account_info" where
  "example_account u = \<lparr>info_uid = u, reg_info = \<lparr>reg_registrar = 256, reg_referrer = 256, registrar_percent = 5000, referrer_percent = 5000\<rparr>,
     whitelisting_accounts = [], blacklisting_accounts = [], allowed_assets = None\<rparr>"

definition example_ledger :: ledger where
  "example_ledger = \<lparr>accounts = [example_account 256, example_account 512],
     account_stats = [account_statistics_default\<lparr>owner := 256, core_balance := 900, total_core_in_orders := 100, prepaid := 30\<rparr>,
       account_statistics_default\<lparr>owner := 512, core_balance := 50\<rparr>],
     account_balances = [\<lparr>balance_owner = 256, asset_type = 0, balance = 900\<rparr>, \<lparr>balance_owner = 512, asset_type = 0, balance = 50\<rparr>,
       \<lparr>balance_owner = 512, asset_type = 1, balance = 500\<rparr>],
     asset_objects = [\<lparr>object_asset_id = 0, symbol = ''YOYO'', precision = 5, issuer = 256, options = example_options 0 0\<rparr>,
       \<lparr>object_asset_id = 1, symbol = ''COIN'', precision = 2, issuer = 512, options = example_options (charge_market_fee OR change_max_supply) 1000\<rparr>],
     asset_dynamics = [\<lparr>dynamic_asset_id = 0, current_supply = 1080, accumulated_fees = 0\<rparr>,
       \<lparr>dynamic_asset_id = 1, current_supply = 500, accumulated_fees = 0\<rparr>],
     next_asset_id = 2,
     limit_orders = [\<lparr>order_id = 0, expiration = 1600000000, seller = 256, for_sale = 100,
       sell_price = \<lparr>base = mk_asset 100 0, quote = mk_asset 50 1\<rparr>\<rparr>],
     next_order_id = 1, auth_platforms = [], csaf_leases = [], next_lease_id = 0, pledge_rows = [], next_pledge_id = 0,
     voting = example_voting\<lparr>sched := example_schedule\<lparr>head_block_time := 1588204900\<rparr>\<rparr>, applied_operations = [],
     lparams = \<lparr>min_governance_voting_balance = 0, csaf_accumulate_window = 604800, csaf_rate = 86400, max_csaf_per_account = 1000,
       csaf_limit_lock_balance_modulus = 100, unlocked_balance_release_delay = 10, maximum_asset_whitelist_authorities = 10,
       pledge_releasing_size = 5\<rparr>\<rparr>"

lemma example_ledger_wf: "ledger_wf example_ledger"
  by code_simp

definition no_signatures :: signed_information where
  "no_signatures = \<lparr>owner_trees = [], active_trees = [], secondary_trees = []\<rparr>"

definition plain_fee :: "int \<Rightarrow> fee_type" where
  "plain_fee x = \<lparr>fee_total = mk_asset x 0, fee_opts = None\<rparr>"

end
