(* ===== verification/Chain_Correct.thy ===== *)
theory Chain_Correct
  imports Supply_Correct Ledger_Example
begin

text \<open>
  Runs of the chain: whatever sequence of validated operations and clean-ups is applied, every asset is
  conserved and the ledger keeps its type. Trades are made at the price of the older order, and what the
  issuer and the sender of a transfer may do.
\<close>

section \<open>Every step\<close>

lemma market_operation_keeps:
  assumes "safe_spec fc" "ledger_wf st" "operation_validate fc sha op = Inr ()" "op_fits op"
  shows "op = Limit_Order_Create_Op x \<Longrightarrow> limit_order_create_apply fc x st = Inr (r, t) \<Longrightarrow> keeps st t"
    and "limit_order_cancel_evaluate y st = Inr ord \<Longrightarrow> limit_order_cancel_apply fc ord st = Inr (r, t) \<Longrightarrow> keeps st t"
    and "op = Market_Fee_Collect_Op z \<Longrightarrow> market_fee_collect_evaluate z st = Inr u \<Longrightarrow> market_fee_collect_apply fc z st = Inr (r, t) \<Longrightarrow> keeps st t"
proof -
  show "keeps st t" if x: "op = Limit_Order_Create_Op x" and run: "limit_order_create_apply fc x st = Inr (r, t)"
  proof -
    have "0 < amount (amount_to_sell x)" "0 < amount (min_to_receive x)" "fits64 (amount (amount_to_sell x))" "fits64 (amount (min_to_receive x))"
      using assms(3,4) x by (auto simp: limit_order_create_validate_def op_fits_def asset_fits_def fc_assert_eq_Inr)
    with order_create_conserves [OF assms(1,2) _ _ _ run] amount_sell_ok show ?thesis by (simp add: adds_moves keeps_moves)
  qed
  show "keeps st t" if "limit_order_cancel_evaluate y st = Inr ord" "limit_order_cancel_apply fc ord st = Inr (r, t)"
    using order_cancel_conserves [OF assms(1,2) that] by (simp add: adds_moves keeps_moves)
  show "keeps st t" if z: "op = Market_Fee_Collect_Op z" and run: "market_fee_collect_evaluate z st = Inr u" "market_fee_collect_apply fc z st = Inr (r, t)"
  proof -
    have "0 < mfc_amount z" "fits64 (mfc_amount z)"
      using assms(3,4) z by (auto simp: market_fee_collect_validate_def op_fits_def bindE_eq_Inr fc_assert_eq_Inr)
    with fee_collect_conserves [OF assms(1,2) _ run] amount_sell_ok show ?thesis by (simp add: adds_moves keeps_moves)
  qed
qed

lemma apply_operation_keeps:
  assumes "safe_spec fc" "ledger_wf st" "operation_validate fc sha op = Inr ()" "op_fits op"
    and run: "apply_operation fc required sigs op st = Inr (res, st')"
  shows "keeps st st'"
proof -
  have v: "validate_op_fee fc (op_fee op) = Inr ()" by (rule validate_fee_part [OF assms(3)])
  have f: "fee_fits (op_fee op)" "amounts_fit op" using assms(4) by (simp_all add: op_fits_def)
  note start = start_evaluate_keeps [OF assms(1,2)]
  note ops = market_operation_keeps [OF assms(1-4)]
  show ?thesis
  proof (cases op)
    case (Transfer_Op x)
    show ?thesis by (rule start [OF _ _ run [unfolded Transfer_Op apply_operation.simps]])
        (use v f assms(3) transfer_keeps [OF assms(1,2)] Transfer_Op in auto)
  next
    case (Csaf_Collect_Op x)
    show ?thesis by (rule start [OF _ _ run [unfolded Csaf_Collect_Op apply_operation.simps]])
        (use v f assms(3) collect_keeps [OF assms(1,2)] Csaf_Collect_Op in auto)
  next
    case (Csaf_Lease_Op x)
    show ?thesis by (rule start [OF _ _ run [unfolded Csaf_Lease_Op apply_operation.simps]])
        (use v f lease_keeps [OF assms(2)] Csaf_Lease_Op in auto)
  next
    case (Asset_Create_Op x)
    show ?thesis by (rule start [OF _ _ run [unfolded Asset_Create_Op apply_operation.simps]])
        (use v f assms(3) create_keeps [OF assms(1,2)] Asset_Create_Op in auto)
  next
    case (Asset_Update_Op x)
    show ?thesis by (rule start [OF _ _ run [unfolded Asset_Update_Op apply_operation.simps]])
        (use v f assms(3) update_keeps [OF assms(2)] Asset_Update_Op in auto)
  next
    case (Asset_Issue_Op x)
    show ?thesis by (rule start [OF _ _ run [unfolded Asset_Issue_Op apply_operation.simps]])
        (use v f issue_keeps [OF assms(1,2)] Asset_Issue_Op in auto)
  next
    case (Asset_Reserve_Op x)
    show ?thesis by (rule start [OF _ _ run [unfolded Asset_Reserve_Op apply_operation.simps]])
        (use v f reserve_keeps [OF assms(1,2)] Asset_Reserve_Op in auto)
  next
    case (Asset_Claim_Fees_Op x)
    show ?thesis by (rule start [OF _ _ run [unfolded Asset_Claim_Fees_Op apply_operation.simps]])
        (use v f claim_keeps [OF assms(1,2)] Asset_Claim_Fees_Op in auto)
  next
    case (Override_Transfer_Op x)
    show ?thesis by (rule start [OF _ _ run [unfolded Override_Transfer_Op apply_operation.simps]])
        (use v f move_amount_keeps [OF assms(1,2)] Override_Transfer_Op in \<open>auto simp: override_transfer_apply_def\<close>)
  next
    case (Balance_Lock_Op x)
    show ?thesis by (rule start [OF _ _ run [unfolded Balance_Lock_Op apply_operation.simps]])
        (use v f lock_keeps [OF assms(2)] Balance_Lock_Op in auto)
  next
    case (Pledge_Bonus_Collect_Op x)
    show ?thesis by (rule start [OF _ _ run [unfolded Pledge_Bonus_Collect_Op apply_operation.simps]])
        (use v f bonus_keeps [OF assms(1,2)] Pledge_Bonus_Collect_Op in auto)
  next
    case (Limit_Order_Create_Op x)
    show ?thesis by (rule start [OF _ _ run [unfolded Limit_Order_Create_Op apply_operation.simps]])
        (use v f ops(1) Limit_Order_Create_Op in auto)
  next
    case (Order_Cancel_Op x)
    show ?thesis by (rule start [OF _ _ run [unfolded Order_Cancel_Op apply_operation.simps]])
        (use v f ops(2) Order_Cancel_Op in auto)
  next
    case (Market_Fee_Collect_Op x)
    show ?thesis by (rule start [OF _ _ run [unfolded Market_Fee_Collect_Op apply_operation.simps]])
        (use v f ops(3) Market_Fee_Collect_Op in auto)
  qed
qed

lemma ledger_step_keeps:
  assumes "safe_spec fc" "ledger_wf st" "ledger_step fc sha st st'"
  shows "keeps st st'"
  using assms(3)
proof cases
  case (operation op required sigs res)
  then show ?thesis by (intro apply_operation_keeps [OF assms(1,2)])
next
  case expired_orders
  then show ?thesis using expire_orders_keeps [OF assms(1,2)] by (simp add: clear_expired_limit_orders_def)
next
  case expired_leases
  then show ?thesis using expire_leases_keeps [OF assms(2)] by (simp add: clear_expired_csaf_leases_def)
qed

lemma ledger_steps_keep: "(ledger_step fc sha)\<^sup>*\<^sup>* st st' \<Longrightarrow> safe_spec fc \<Longrightarrow> ledger_wf st \<Longrightarrow> keeps st st'"
proof (induction rule: rtranclp_induct)
  case base
  then show ?case by (simp add: keeps_refl)
next
  case (step t u)
  then have "keeps st t" by simp
  with keeps_trans [OF this ledger_step_keeps [OF step.prems(1) keeps_wf [OF this] step.hyps(2)]] show ?case by simp
qed

section \<open>A trade\<close>

text \<open>The second account sells 20 coins; it meets the order on the book, and pays a fee.\<close>

definition example_sale :: operation where
  "example_sale = Limit_Order_Create_Op \<lparr>loc_fee = plain_fee 5, loc_seller = 512, amount_to_sell = mk_asset 20 1,
     min_to_receive = mk_asset 30 0, loc_expiration = 1600000000, fill_or_kill = True, loc_has_extensions = False\<rparr>"

definition example_traded :: "(operation_result \<times> ledger) result" where
  "example_traded = apply_operation int64_safe (Some (5, 5)) no_signatures example_sale example_ledger"

lemma example_sale_ok: "operation_validate int64_safe (\<lambda>_. 0) example_sale = Inr ()" "op_fits example_sale"
  by code_simp+

lemma example_traded_ok:
  "\<not> isl example_traded \<and> map for_sale (limit_orders (snd (projr example_traded))) = [60] \<and>
   map balance (account_balances (snd (projr example_traded))) = [900, 85, 480, 18]"
  by code_simp

lemma example_step: "\<exists>r st'. example_traded = Inr (r, st') \<and> (ledger_step int64_safe (\<lambda>_. 0))\<^sup>*\<^sup>* example_ledger st' \<and>
    map balance (account_balances st') = [900, 85, 480, 18]"
proof -
  obtain x where x: "example_traded = Inr x" "map balance (account_balances (snd x)) = [900, 85, 480, 18]"
    using example_traded_ok by (metis sum.collapse(2))
  have "apply_operation int64_safe (Some (5, 5)) no_signatures example_sale example_ledger = Inr (fst x, snd x)"
    using x(1) by (simp add: example_traded_def)
  then have "ledger_step int64_safe (\<lambda>_. 0) example_ledger (snd x)" by (rule ledger_step.operation [OF example_sale_ok])
  with x show ?thesis by (intro exI [of _ "fst x"] exI [of _ "snd x"]) auto
qed

section \<open>Conservation and type\<close>

text \<open>
  C1. No coins appear or vanish: along any run of validated operations and clean-ups, what accounts,
  orders, fee pools and prepaid balances hold of an asset moves exactly with the recorded supply.
\<close>

theorem chain_conserves_assets:
  assumes "safe_spec fc" "ledger_wf st" "(ledger_step fc sha)\<^sup>*\<^sup>* st st'"
  shows "holdings a st' - issued a st' = holdings a st - issued a st"
  using ledger_steps_keep [OF assms(3,1,2)] by (simp add: keeps_def)

theorem chain_conserves_assets_witness:
  "\<exists>st'. (ledger_step int64_safe (\<lambda>_. 0))\<^sup>*\<^sup>* example_ledger st' \<and> map balance (account_balances st') = [900, 85, 480, 18] \<and>
    holdings 0 st' - issued 0 st' = holdings 0 example_ledger - issued 0 example_ledger"
proof -
  obtain st' where st': "(ledger_step int64_safe (\<lambda>_. 0))\<^sup>*\<^sup>* example_ledger st'" "map balance (account_balances st') = [900, 85, 480, 18]"
    using example_step by (elim exE conjE)
  show ?thesis
    by (intro exI [of _ st'] conjI st' chain_conserves_assets [OF int64_safe_spec example_ledger_wf st'(1)])
qed

text \<open>
  C5. The ledger keeps its type along any run: every balance is non-negative and has one row per owner
  and asset, orders sell a positive amount, and amounts stay in the range of their machine type.
\<close>

theorem chain_keeps_ledger_type:
  assumes "safe_spec fc" "ledger_wf st" "(ledger_step fc sha)\<^sup>*\<^sup>* st st'"
  shows "ledger_wf st'"
  using ledger_steps_keep [OF assms(3,1,2)] by (rule keeps_wf)

theorem chain_keeps_ledger_type_witness:
  "\<exists>st'. (ledger_step int64_safe (\<lambda>_. 0))\<^sup>*\<^sup>* example_ledger st' \<and> map balance (account_balances st') = [900, 85, 480, 18] \<and> ledger_wf st'"
proof -
  obtain st' where st': "(ledger_step int64_safe (\<lambda>_. 0))\<^sup>*\<^sup>* example_ledger st'" "map balance (account_balances st') = [900, 85, 480, 18]"
    using example_step by (elim exE conjE)
  show ?thesis
    by (intro exI [of _ st'] conjI st' chain_keeps_ledger_type [OF int64_safe_spec example_ledger_wf st'(1)])
qed

section \<open>Prices\<close>

text \<open>
  C7. When two orders meet, each pays at most what it offers, and the amounts differ from the price of
  the older order by less than one unit on either side; or the newer one is worth nothing and no
  coins move.
\<close>

theorem match_at_maker_price:
  assumes "order_wf usd" "order_wf core" "match fc usd core (sell_price core) st = Inr (r, st')"
  shows "(r = 1 \<and> st' = st) \<or> (\<exists>to_taker to_maker cull. fill_both fc usd core to_taker to_maker cull (sell_price core) st = Inr (r, st') \<and>
    amount to_taker \<le> for_sale core \<and> amount to_maker \<le> for_sale usd \<and>
    (amount to_taker - 1) * amount (quote (sell_price core)) < amount to_maker * amount (base (sell_price core)) \<and>
    (amount to_maker - 1) * amount (base (sell_price core)) < amount to_taker * amount (quote (sell_price core)))"
proof -
  have pos: "0 < amount (base (sell_price core))" "0 < amount (quote (sell_price core))"
    using assms(2) by (simp_all add: order_wf_def price_ok_def positive_amount_def)
  have "(y - 1) * q < x * b \<and> (x - 1) * b < y * q"
    if "fair_amounts (sell_price core) t m" "y = amount t" "x = amount m" "b = amount (base (sell_price core))" "q = amount (quote (sell_price core))"
    for t m x y b q using that pos by (auto simp: fair_amounts_def Let_def left_diff_distrib)
  with match_amounts [OF assms] show ?thesis by blast
qed

definition example_maker :: limit_order_object where
  "example_maker = \<lparr>order_id = 0, expiration = 1600000000, seller = 256, for_sale = 100, sell_price = \<lparr>base = mk_asset 100 0, quote = mk_asset 50 1\<rparr>\<rparr>"

definition example_taker :: limit_order_object where
  "example_taker = \<lparr>order_id = 1, expiration = 1600000000, seller = 512, for_sale = 20, sell_price = \<lparr>base = mk_asset 20 1, quote = mk_asset 30 0\<rparr>\<rparr>"

definition example_met :: "(nat \<times> ledger) result" where
  "example_met = match int64_safe example_taker example_maker (sell_price example_maker) example_ledger"

theorem match_at_maker_price_witness:
  "\<exists>st'. match int64_safe example_taker example_maker (sell_price example_maker) example_ledger = Inr (1, st') \<and> st' \<noteq> example_ledger \<and>
    (\<exists>to_taker to_maker cull. fill_both int64_safe example_taker example_maker to_taker to_maker cull (sell_price example_maker) example_ledger = Inr (1, st') \<and>
      (amount to_taker - 1) * 50 < amount to_maker * 100 \<and> (amount to_maker - 1) * 100 < amount to_taker * 50)"
proof -
  have run: "\<not> isl example_met \<and> fst (projr example_met) = 1 \<and> map for_sale (limit_orders (snd (projr example_met))) = [60]" by code_simp
  then obtain st' where st': "example_met = Inr (1, st')" "map for_sale (limit_orders st') = [60]"
    by (metis prod.collapse sum.collapse(2))
  have ne: "st' \<noteq> example_ledger" using st'(2) by (auto simp: example_ledger_def)
  have wf: "order_wf example_taker" "order_wf example_maker" by code_simp+
  have b: "amount (base (sell_price example_maker)) = 100" "amount (quote (sell_price example_maker)) = 50" by code_simp+
  from match_at_maker_price [OF wf st'(1) [unfolded example_met_def]] st'(1) ne b show ?thesis
    unfolding example_met_def by auto
qed

section \<open>Supply\<close>

lemma get_put_dynamic:
  assumes "ledger_wf st" "dynamic_data i st = Inr d" "dynamic_asset_id d' = dynamic_asset_id d"
  shows "dynamic_data i (put_dynamic d' st) = Inr d'"
proof -
  have "dynamic_asset_id d = i" "d \<in> set (asset_dynamics st)"
    using row_find_Some assms(2) by (fastforce simp: get_dynamic_iff)+
  with assms(3) show ?thesis by (auto simp: get_dynamic_iff put_dynamic_def row_find_put intro: image_eqI [of _ _ d])
qed

text \<open>
  C26. Issuing is bounded: after an issue that was validated and evaluated, the supply of the asset has
  grown by exactly the issued amount and is not above the maximum of the asset.
\<close>

theorem issue_within_max_supply:
  assumes "safe_spec fc" "ledger_wf st" "asset_issue_validate fc sha op = Inr ()" "fits64 (amount (asset_to_issue op))"
    "asset_issue_evaluate fc op st = Inr d" "asset_issue_apply fc op st = Inr (res, st')"
  shows "issued (asset_id (asset_to_issue op)) st' = issued (asset_id (asset_to_issue op)) st + amount (asset_to_issue op) \<and>
    (\<exists>a d'. get_asset_by_aid (asset_id (asset_to_issue op)) st = Inr a \<and> issuer a = is_issuer op \<and>
       dynamic_data (asset_id (asset_to_issue op)) st' = Inr d' \<and> current_supply d' \<le> max_supply (options a))"
proof -
  let ?x = "asset_to_issue op"
  from assms(5) obtain a y where a: "get_asset_by_aid (asset_id ?x) st = Inr a" "issuer a = is_issuer op"
    and d: "dynamic_data (object_asset_id a) st = Inr d" and y: "sadd fc (current_supply d) (amount ?x) = Inr y" "y \<le> max_supply (options a)"
    unfolding asset_issue_evaluate_def by (auto simp: bindE_eq_Inr fc_assert_eq_Inr)
  have id: "object_asset_id a = asset_id ?x" using a(1) by (auto simp: get_asset_by_aid_def option_or_eq_Inr dest: row_find_Some)
  from assms(6) obtain t d1 z where r: "adjust_balance fc (issue_to_account op) ?x st = Inr t" and d1: "dynamic_data (asset_id ?x) t = Inr d1"
    and z: "sadd fc (current_supply d1) (amount ?x) = Inr z" and st': "st' = put_dynamic (d1\<lparr>current_supply := z\<rparr>) t"
    by (auto simp: asset_issue_apply_def bindE_eq_Inr)
  note e = adjust_balance_effect [OF assms(1,2,4) r]
  then have wf: "ledger_wf t" and same: "asset_dynamics t = asset_dynamics st" "issued (asset_id ?x) t = issued (asset_id ?x) st"
    by (auto simp: same_but_balances_def intro: issued_same)
  have dd: "d1 = d" using d d1 same(1) id by (simp add: get_dynamic_iff)
  have z': "z = current_supply d + amount ?x" "z = y"
    using z y(1) dd assms(1,4) get_dynamic_wf [OF assms(2) d] by (auto simp: dynamic_wf_def sadd_eq_Inr)
  have "dynamic_data (asset_id ?x) st' = Inr (d1\<lparr>current_supply := z\<rparr>)"
    unfolding st' by (rule get_put_dynamic [OF wf d1]) simp
  with put_dynamic_totals(2) [OF wf d1, of "d1\<lparr>current_supply := z\<rparr>" "asset_id ?x"] same(2) z' y(2) dd a show ?thesis
    by (simp add: st')
qed

definition example_issue :: asset_issue_operation where
  "example_issue = \<lparr>is_fee = plain_fee 0, is_issuer = 512, asset_to_issue = mk_asset 40 1, issue_to_account = 256\<rparr>"

text \<open>The example asset with the permission to issue.\<close>

definition issuing_ledger :: ledger where
  "issuing_ledger = example_ledger\<lparr>asset_objects := map (\<lambda>a. a\<lparr>options := (options a)\<lparr>flags := issue_asset\<rparr>\<rparr>) (asset_objects example_ledger)\<rparr>"

definition example_issued :: "(operation_result \<times> ledger) result" where
  "example_issued = asset_issue_apply int64_safe example_issue issuing_ledger"

theorem issue_within_max_supply_witness:
  "\<exists>r st'. asset_issue_apply int64_safe example_issue issuing_ledger = Inr (r, st') \<and> issued 1 st' = issued 1 issuing_ledger + 40"
proof -
  have wf: "ledger_wf issuing_ledger" by code_simp
  have v: "asset_issue_validate int64_safe (\<lambda>_. 0) example_issue = Inr ()" by code_simp
  have fits: "fits64 (amount (asset_to_issue example_issue))" by code_simp
  have "\<not> isl (asset_issue_evaluate int64_safe example_issue issuing_ledger)" by code_simp
  then obtain d where d: "asset_issue_evaluate int64_safe example_issue issuing_ledger = Inr d" by (metis sum.collapse(2))
  have "\<not> isl example_issued" by code_simp
  then obtain r st' where r: "asset_issue_apply int64_safe example_issue issuing_ledger = Inr (r, st')"
    unfolding example_issued_def by (metis prod.collapse sum.collapse(2))
  have x: "asset_id (asset_to_issue example_issue) = 1" "amount (asset_to_issue example_issue) = 40" by code_simp+
  from conjunct1 [OF issue_within_max_supply [OF int64_safe_spec wf v fits d r]] r show ?thesis unfolding x by blast
qed

text \<open>The ledger in which the supply of one asset is \<open>x\<close> and everything else is the same.\<close>

abbreviation with_supply :: "int \<Rightarrow> asset_dynamic_data_object \<Rightarrow> ledger \<Rightarrow> ledger" where
  "with_supply x d st \<equiv> put_dynamic (d\<lparr>current_supply := x\<rparr>) st"

lemma with_supply_same:
  "ledger_time (with_supply x d st) = ledger_time st" "check_fee_options opts (with_supply x d st) = check_fee_options opts st"
  "get_asset_by_aid a (with_supply x d st) = get_asset_by_aid a st" "check_authorities opts (with_supply x d st) = check_authorities opts st"
  by (simp_all add: put_dynamic_def ledger_time_def check_fee_options_def get_asset_by_aid_def check_authorities_def get_account_by_uid_def)

lemma with_supply_dynamic:
  assumes "dynamic_data a st = Inr d"
  shows "dynamic_data a (with_supply x d st) = Inr (d\<lparr>current_supply := x\<rparr>)"
proof -
  from assms have f: "row_find dynamic_asset_id a (asset_dynamics st) = Some d" by (simp add: dynamic_data_def option_or_eq_Inr)
  with row_find_Some [OF f] show ?thesis by (auto simp: dynamic_data_def put_dynamic_def row_find_put option_or_eq_Inr)
qed

text \<open>
  C40. Updating an asset that has a supply does not look at how large the supply is. With the supply
  replaced by any other non-zero number, the update is accepted or rejected just the same; and when it
  is accepted, the new maximum is stored and the supply stays, also where it exceeds the maximum.
\<close>

theorem update_ignores_supply:
  assumes "dynamic_data (asset_to_update op) st = Inr d" "current_supply d \<noteq> 0" "x \<noteq> 0"
  shows "asset_update_evaluate op (with_supply x d st) = asset_update_evaluate op st \<and>
    (\<forall>a. asset_update_evaluate op st = Inr a \<longrightarrow> (\<exists>st' a' d'. asset_update_apply op a (with_supply x d st) = Inr (Void_Result, st') \<and>
      get_asset_by_aid (asset_to_update op) st' = Inr a' \<and> max_supply (options a') = max_supply (new_options op) \<and>
      dynamic_data (asset_to_update op) st' = Inr d' \<and> current_supply d' = x))"
proof -
  have id: "object_asset_id a = asset_to_update op" if "get_asset_by_aid (asset_to_update op) st = Inr a" for a
    using that by (auto simp: get_asset_by_aid_def option_or_eq_Inr dest: row_find_Some)
  have "asset_update_evaluate op (with_supply x d st) = asset_update_evaluate op st"
  proof (cases "get_asset_by_aid (asset_to_update op) st")
    case (Inr a)
    then show ?thesis unfolding asset_update_evaluate_def with_supply_same
      using assms id [OF Inr] with_supply_dynamic [OF assms(1)] by (simp add: Let_def)
  qed (simp add: asset_update_evaluate_def with_supply_same)
  moreover have "\<exists>st' a' d'. asset_update_apply op a (with_supply x d st) = Inr (Void_Result, st') \<and>
      get_asset_by_aid (asset_to_update op) st' = Inr a' \<and> max_supply (options a') = max_supply (new_options op) \<and>
      dynamic_data (asset_to_update op) st' = Inr d' \<and> current_supply d' = x" if "asset_update_evaluate op st = Inr a" for a
  proof -
    have g: "get_asset_by_aid (asset_to_update op) st = Inr a"
      using that by (auto simp: asset_update_evaluate_def Let_def bindE_eq_Inr fc_assert_eq_Inr)
    then have f: "row_find object_asset_id (asset_to_update op) (asset_objects st) = Some a"
      by (simp add: get_asset_by_aid_def option_or_eq_Inr)
    then have "asset_to_update op \<in> object_asset_id ` set (asset_objects st)" using row_find_Some [OF f] by force
    with f id [OF g] with_supply_dynamic [OF assms(1), of x] show ?thesis
      by (auto simp: asset_update_apply_def get_asset_by_aid_def dynamic_data_def put_dynamic_def row_find_put option_or_eq_Inr)
  qed
  ultimately show ?thesis by blast
qed

definition example_update :: asset_update_operation where
  "example_update = \<lparr>au_fee = plain_fee 0, au_issuer = 512, asset_to_update = 1, new_precision = None,
     new_options = (example_options (charge_market_fee OR change_max_supply) 1000)\<lparr>max_supply := 1\<rparr>\<rparr>"

definition updated_asset :: asset_object where
  "updated_asset = projr (asset_update_evaluate example_update example_ledger)"

theorem update_ignores_supply_witness:
  "asset_update_validate int64_safe (\<lambda>_. 0) example_update = Inr () \<and>
   (\<exists>d st' a' d'. dynamic_data 1 example_ledger = Inr d \<and> current_supply d = 500 \<and>
     asset_update_evaluate example_update (with_supply 1000000 d example_ledger) = Inr updated_asset \<and>
     asset_update_apply example_update updated_asset (with_supply 1000000 d example_ledger) = Inr (Void_Result, st') \<and>
     get_asset_by_aid 1 st' = Inr a' \<and> max_supply (options a') = 1 \<and> dynamic_data 1 st' = Inr d' \<and> current_supply d' = 1000000)"
proof -
  have v: "asset_update_validate int64_safe (\<lambda>_. 0) example_update = Inr ()" by code_simp
  have "\<not> isl (asset_update_evaluate example_update example_ledger)" by code_simp
  then have e: "asset_update_evaluate example_update example_ledger = Inr updated_asset"
    unfolding updated_asset_def by (metis sum.collapse(2))
  have x: "asset_to_update example_update = 1" "max_supply (new_options example_update) = 1" by code_simp+
  let ?d = "\<lparr>dynamic_asset_id = 1, current_supply = 500, accumulated_fees = 0\<rparr>"
  have s: "dynamic_data 1 example_ledger = Inr ?d"
    by (simp add: dynamic_data_def example_ledger_def row_find_def)
  from update_ignores_supply [of example_update example_ledger ?d 1000000, unfolded x] s e v show ?thesis by auto
qed

section \<open>Who must sign a transfer\<close>

text \<open>
  C37. A transfer whose extension names neither part takes its whole amount from the balance, and yet
  requires the secondary authority of the sender only; a balance is to be moved with the active one.
\<close>

theorem transfer_without_parts_skips_active:
  assumes "tr_ext op = Some ev" "ext_from_balance ev = None" "ext_from_prepaid ev = None" "transfer_evaluate fc sigs op st = Inr plan"
  shows "transfer_required_active op = [] \<and> transfer_required_secondary op = [tr_from op] \<and>
    asset_from_balance plan = tr_amount op \<and> amount (asset_from_prepaid plan) = 0"
proof -
  have s: "\<not> some_from_balance op" using assms(1,2) by (simp add: some_from_balance_def)
  from assms(4) obtain auth where "plan = make_plan auth op"
    unfolding transfer_evaluate_def Let_def by (auto simp: bindE_eq_Inr fc_assert_eq_Inr graphene_assert_eq_Inr)
  with assms(1-3) s show ?thesis
    by (simp add: transfer_required_active_def transfer_required_secondary_def make_plan_def plan_side_def Let_def mk_asset_def split: prod.splits)
qed

definition example_transfer :: transfer_operation where
  "example_transfer = \<lparr>tr_fee = plain_fee 0, tr_from = 512, tr_to = 256, tr_amount = mk_asset 500 1,
     tr_ext = Some \<lparr>ext_from_balance = None, ext_from_prepaid = None, ext_to_balance = None, ext_to_prepaid = None, sign_platform = None\<rparr>\<rparr>"

definition example_plan :: transfer_plan where
  "example_plan = projr (transfer_evaluate int64_safe no_signatures example_transfer example_ledger)"

definition example_sent :: "(operation_result \<times> ledger) result" where
  "example_sent = apply_operation int64_safe None no_signatures (Transfer_Op example_transfer) example_ledger"

theorem transfer_without_parts_skips_active_witness:
  "transfer_validate int64_safe (\<lambda>_. 0) example_transfer = Inr () \<and>
   transfer_evaluate int64_safe no_signatures example_transfer example_ledger = Inr example_plan \<and>
   transfer_required_active example_transfer = [] \<and> asset_from_balance example_plan = mk_asset 500 1 \<and>
   \<not> isl example_sent \<and> amount (get_balance 512 1 (snd (projr example_sent))) = 0"
proof -
  have v: "transfer_validate int64_safe (\<lambda>_. 0) example_transfer = Inr ()" by code_simp
  have "\<not> isl (transfer_evaluate int64_safe no_signatures example_transfer example_ledger)" by code_simp
  then have e: "transfer_evaluate int64_safe no_signatures example_transfer example_ledger = Inr example_plan"
    unfolding example_plan_def by (metis sum.collapse(2))
  have run: "\<not> isl example_sent" "amount (get_balance 512 1 (snd (projr example_sent))) = 0" by code_simp+
  from transfer_without_parts_skips_active [OF _ _ _ e] v e run show ?thesis by (simp add: example_transfer_def)
qed

end
