(* ===== verification/Lease_Correct.thy ===== *)
theory Lease_Correct
  imports Csaf_Ops Ledger_Example
begin

text \<open>
  Leases of coin-seconds: what an account has leased out and in is the sum of its leases. Leasing
  keeps these books, and the loop that ends the expired leases always returns, ends exactly those and
  keeps the books.
\<close>

section \<open>The books\<close>

abbreviation lease_key :: "csaf_lease_object \<Rightarrow> account_uid_type \<times> account_uid_type" where
  "lease_key l \<equiv> (lease_from l, lease_to l)"

definition leased_out :: "csaf_lease_object list \<Rightarrow> account_uid_type \<Rightarrow> int" where
  "leased_out ls u = total (\<lambda>l. if lease_from l = u then lease_amount l else 0) ls"

definition leased_in :: "csaf_lease_object list \<Rightarrow> account_uid_type \<Rightarrow> int" where
  "leased_in ls u = total (\<lambda>l. if lease_to l = u then lease_amount l else 0) ls"

definition books :: "(account_uid_type \<Rightarrow> int) \<Rightarrow> (account_uid_type \<Rightarrow> int) \<Rightarrow> account_statistics_object list \<Rightarrow> bool" where
  "books outs ins ss \<longleftrightarrow> distinct (map owner ss) \<and>
     (\<forall>s\<in>set ss. core_leased_out s = outs (owner s) \<and> core_leased_in s = ins (owner s) \<and> fits64 (core_leased_out s) \<and> fits64 (core_leased_in s))"

definition leases_wf :: "ledger \<Rightarrow> bool" where
  "leases_wf st \<longleftrightarrow> distinct (map lease_id (csaf_leases st)) \<and> distinct (map lease_key (csaf_leases st)) \<and>
     (\<forall>l\<in>set (csaf_leases st). 0 < lease_amount l \<and> fits64 (lease_amount l) \<and> lease_id l < next_lease_id st \<and>
        lease_from l \<in> owner ` set (account_stats st) \<and> lease_to l \<in> owner ` set (account_stats st))"

definition lease_inv :: "ledger \<Rightarrow> bool" where
  "lease_inv st \<longleftrightarrow> leases_wf st \<and> books (leased_out (csaf_leases st)) (leased_in (csaf_leases st)) (account_stats st)"

lemma books_put_out:
  assumes "books outs ins ss" "row_find owner u ss = Some s" "owner s' = u" "core_leased_out s' = core_leased_out s + x"
    "core_leased_in s' = core_leased_in s" "fits64 (core_leased_out s')"
  shows "books (\<lambda>v. outs v + (if v = u then x else 0)) ins (row_put owner s' ss)"
  using assms row_find_Some [OF assms(2)] set_row_put_other [of _ owner s' ss] unfolding books_def by fastforce

lemma books_put_in:
  assumes "books outs ins ss" "row_find owner u ss = Some s" "owner s' = u" "core_leased_in s' = core_leased_in s + x"
    "core_leased_out s' = core_leased_out s" "fits64 (core_leased_in s')"
  shows "books outs (\<lambda>v. ins v + (if v = u then x else 0)) (row_put owner s' ss)"
  using assms row_find_Some [OF assms(2)] set_row_put_other [of _ owner s' ss] unfolding books_def by fastforce

lemma refresh_leased:
  assumes "refresh_before_fork fc st s = Inr s'"
  shows "owner s' = owner s \<and> core_leased_out s' = core_leased_out s \<and> core_leased_in s' = core_leased_in s"
  using assms by (auto simp: refresh_before_fork_def refresh_coin_seconds_def update_coin_seconds_earned_def Let_def bindE_eq_Inr split: if_splits prod.splits)

text \<open>What the four changes of a row leave alone.\<close>

definition only_stats :: "ledger \<Rightarrow> ledger \<Rightarrow> bool" where
  "only_stats st st' \<longleftrightarrow> csaf_leases st' = csaf_leases st \<and> next_lease_id st' = next_lease_id st \<and> voting st' = voting st \<and>
     map owner (account_stats st') = map owner (account_stats st)"

lemma only_stats_put: "only_stats st (put_stats s st)"
  by (simp add: only_stats_def put_stats_def)

lemma books_fits: "books outs ins ss \<Longrightarrow> row_find owner u ss = Some s \<Longrightarrow> fits64 (core_leased_out s) \<and> fits64 (core_leased_in s) \<and> owner s = u"
  using row_find_Some [of owner u ss s] by (auto simp: books_def)

lemma leased_books:
  assumes "safe_spec fc" "books outs ins (account_stats st)" "fits64 x"
  shows "add_leased_out fc u x st = Inr st' \<Longrightarrow> only_stats st st' \<and> books (\<lambda>v. outs v + (if v = u then x else 0)) ins (account_stats st')"
    and "add_leased_in fc u x st = Inr st' \<Longrightarrow> only_stats st st' \<and> books outs (\<lambda>v. ins v + (if v = u then x else 0)) (account_stats st')"
    and "sub_leased_out fc u x st = Inr st' \<Longrightarrow> only_stats st st' \<and> books (\<lambda>v. outs v + (if v = u then - x else 0)) ins (account_stats st')"
    and "sub_leased_in fc u x st = Inr st' \<Longrightarrow> only_stats st st' \<and> books outs (\<lambda>v. ins v + (if v = u then - x else 0)) (account_stats st')"
proof -
  have out: "books (\<lambda>v. outs v + (if v = u then d else 0)) ins (account_stats (put_stats (s1\<lparr>core_leased_out := y\<rparr>) st))"
    if "get_account_statistics_by_uid u st = Inr s" "refresh_before_fork fc st s = Inr s1" "y = core_leased_out s1 + d" "fits64 y" for s s1 d y
    using books_put_out [OF assms(2), of u s "s1\<lparr>core_leased_out := y\<rparr>" d] refresh_leased [OF that(2)] that books_fits [OF assms(2), of u s]
    by (simp add: get_stats_iff put_stats_def)
  have "in": "books outs (\<lambda>v. ins v + (if v = u then d else 0)) (account_stats (put_stats (s1\<lparr>core_leased_in := y\<rparr>) st))"
    if "get_account_statistics_by_uid u st = Inr s" "refresh_before_fork fc st s = Inr s1" "y = core_leased_in s1 + d" "fits64 y" for s s1 d y
    using books_put_in [OF assms(2), of u s "s1\<lparr>core_leased_in := y\<rparr>" d] refresh_leased [OF that(2)] that books_fits [OF assms(2), of u s]
    by (simp add: get_stats_iff put_stats_def)
  have fits: "fits64 (core_leased_out s1) \<and> fits64 (core_leased_in s1)"
    if "get_account_statistics_by_uid u st = Inr s" "refresh_before_fork fc st s = Inr s1" for s s1
    using refresh_leased [OF that(2)] books_fits [OF assms(2)] that(1) by (simp add: get_stats_iff)
  show "add_leased_out fc u x st = Inr st' \<Longrightarrow> only_stats st st' \<and> books (\<lambda>v. outs v + (if v = u then x else 0)) ins (account_stats st')"
    using out fits assms(1,3) only_stats_put by (auto simp: add_leased_out_def bindE_eq_Inr sadd_eq_Inr)
  show "add_leased_in fc u x st = Inr st' \<Longrightarrow> only_stats st st' \<and> books outs (\<lambda>v. ins v + (if v = u then x else 0)) (account_stats st')"
    using "in" fits assms(1,3) only_stats_put by (auto simp: add_leased_in_def bindE_eq_Inr sadd_eq_Inr)
  show "sub_leased_out fc u x st = Inr st' \<Longrightarrow> only_stats st st' \<and> books (\<lambda>v. outs v + (if v = u then - x else 0)) ins (account_stats st')"
    using out [where d = "- x"] fits assms(1,3) only_stats_put by (auto simp: sub_leased_out_def bindE_eq_Inr ssub_eq_Inr)
  show "sub_leased_in fc u x st = Inr st' \<Longrightarrow> only_stats st st' \<and> books outs (\<lambda>v. ins v + (if v = u then - x else 0)) (account_stats st')"
    using "in" [where d = "- x"] fits assms(1,3) only_stats_put by (auto simp: sub_leased_in_def bindE_eq_Inr ssub_eq_Inr)
qed

section \<open>Leasing\<close>

definition lease_change :: "csaf_lease_operation \<Rightarrow> csaf_lease_object option \<Rightarrow> int" where
  "lease_change op current = amount (cl_amount op) - (case current of None \<Rightarrow> 0 | Some l \<Rightarrow> lease_amount l)"

lemma find_lease_facts:
  assumes "leases_wf st" "find_lease u v st = Some l"
  shows "l \<in> set (csaf_leases st)" "lease_from l = u" "lease_to l = v" "row_find lease_id (lease_id l) (csaf_leases st) = Some l"
  using row_find_Some [OF assms(2) [unfolded find_lease_def]] row_find_in [of lease_id "csaf_leases st" l] assms(1)
  by (auto simp: leases_wf_def)

lemma write_lease_totals:
  assumes "leases_wf st" "current = find_lease (cl_from op) (cl_to op) st" "0 \<le> amount (cl_amount op)" "write_lease op current st = (i, st')"
  shows "leased_out (csaf_leases st') u = leased_out (csaf_leases st) u + (if u = cl_from op then lease_change op current else 0)"
    and "leased_in (csaf_leases st') u = leased_in (csaf_leases st) u + (if u = cl_to op then lease_change op current else 0)"
proof -
  have dist: "distinct (map lease_id (csaf_leases st))" using assms(1) by (simp add: leases_wf_def)
  have "leased_out (csaf_leases st') u = leased_out (csaf_leases st) u + (if u = cl_from op then lease_change op current else 0) \<and>
    leased_in (csaf_leases st') u = leased_in (csaf_leases st) u + (if u = cl_to op then lease_change op current else 0)"
  proof (cases current)
    case None
    with assms(4) show ?thesis by (auto simp: write_lease_def leased_out_def leased_in_def lease_change_def)
  next
    case (Some l)
    note l = find_lease_facts [OF assms(1), of "cl_from op" "cl_to op" l]
    let ?l = "l\<lparr>lease_amount := amount (cl_amount op), lease_expiration := cl_expiration op\<rparr>"
    have f: "row_find lease_id (lease_id ?l) (csaf_leases st) = Some l" "row_find lease_id (lease_id l) (csaf_leases st) = Some l"
      using l(4) Some assms(2) by simp_all
    show ?thesis
    proof (cases "amount (cl_amount op) > 0")
      case True
      with Some assms(4) have "csaf_leases st' = row_put lease_id ?l (csaf_leases st)" by (auto simp: write_lease_def)
      with total_row_put [OF dist f(1)] l(2,3) Some assms(2) show ?thesis by (simp add: leased_out_def leased_in_def lease_change_def)
    next
      case False
      with Some assms(4) have "csaf_leases st' = row_remove lease_id (lease_id l) (csaf_leases st)" by (auto simp: write_lease_def)
      with total_row_remove [OF dist f(2)] l(2,3) Some assms(2,3) False show ?thesis by (simp add: leased_out_def leased_in_def lease_change_def)
    qed
  qed
  then show "leased_out (csaf_leases st') u = leased_out (csaf_leases st) u + (if u = cl_from op then lease_change op current else 0)"
    "leased_in (csaf_leases st') u = leased_in (csaf_leases st) u + (if u = cl_to op then lease_change op current else 0)" by simp_all
qed

lemma row_put_map: "distinct (map key rows) \<Longrightarrow> row_find key (key r') rows = Some r \<Longrightarrow> g r' = g r \<Longrightarrow> map g (row_put key r' rows) = map g rows"
proof -
  assume a: "distinct (map key rows)" "row_find key (key r') rows = Some r" "g r' = g r"
  have "g (if key x = key r' then r' else x) = g x" if "x \<in> set rows" for x
    using row_find_in [OF a(1) that] a(2,3) by auto
  then show ?thesis by (simp add: row_put_def)
qed

lemma write_lease_wf:
  assumes "leases_wf st" "current = find_lease (cl_from op) (cl_to op) st" "0 \<le> amount (cl_amount op)" "fits64 (amount (cl_amount op))"
    "current = None \<Longrightarrow> 0 < amount (cl_amount op)" "cl_from op \<in> owner ` set (account_stats st)" "cl_to op \<in> owner ` set (account_stats st)"
    "write_lease op current st = (i, st')"
  shows "leases_wf st' \<and> account_stats st' = account_stats st"
proof (cases current)
  case None
  then have key: "(cl_from op, cl_to op) \<notin> lease_key ` set (csaf_leases st)" using assms(2) by (simp add: find_lease_def row_find_None)
  have "next_lease_id st \<notin> lease_id ` set (csaf_leases st)" using assms(1) by (auto simp: leases_wf_def)
  with None key assms show ?thesis by (auto simp: write_lease_def leases_wf_def less_Suc_eq)
next
  case (Some l)
  note l = find_lease_facts [OF assms(1), of "cl_from op" "cl_to op" l]
  have dist: "distinct (map lease_id (csaf_leases st))" "distinct (map lease_key (csaf_leases st))" using assms(1) by (simp_all add: leases_wf_def)
  let ?l = "l\<lparr>lease_amount := amount (cl_amount op), lease_expiration := cl_expiration op\<rparr>"
  have f: "row_find lease_id (lease_id ?l) (csaf_leases st) = Some l" and mem: "l \<in> set (csaf_leases st)"
    using l(1,4) Some assms(2) by simp_all
  show ?thesis
  proof (cases "amount (cl_amount op) > 0")
    case True
    with Some assms(8) have st': "st' = st\<lparr>csaf_leases := row_put lease_id ?l (csaf_leases st)\<rparr>" by (auto simp: write_lease_def)
    have "map lease_key (row_put lease_id ?l (csaf_leases st)) = map lease_key (csaf_leases st)"
      by (rule row_put_map [OF dist(1) f]) simp
    with True assms(1,4) mem dist set_row_put [of lease_id ?l "csaf_leases st"] show ?thesis unfolding st' by (auto simp: leases_wf_def)
  next
    case False
    with Some assms(8) have st': "st' = st\<lparr>csaf_leases := row_remove lease_id (lease_id l) (csaf_leases st)\<rparr>" by (auto simp: write_lease_def)
    have "distinct (map lease_key (row_remove lease_id (lease_id l) (csaf_leases st)))"
      using dist(2) by (simp add: row_remove_def distinct_map_filter)
    with assms(1) distinct_row_remove [OF dist(1)] show ?thesis unfolding st' by (auto simp: leases_wf_def set_row_remove)
  qed
qed

lemma only_stats_leases: "only_stats st st' \<Longrightarrow> leases_wf st' = leases_wf st"
proof -
  assume o: "only_stats st st'"
  then have "owner ` set (account_stats st') = owner ` set (account_stats st)" by (metis list.set_map only_stats_def)
  with o show ?thesis by (simp add: leases_wf_def only_stats_def)
qed

lemma only_stats_trans: "only_stats a b \<Longrightarrow> only_stats b c \<Longrightarrow> only_stats a c"
  by (simp add: only_stats_def)

lemma get_stats_owner: "get_account_statistics_by_uid u st = Inr s \<Longrightarrow> u \<in> owner ` set (account_stats st)"
  by (auto simp: get_stats_iff dest!: row_find_Some)

text \<open>The example ledger with two leases, one of them due.\<close>

definition leasing_ledger :: ledger where
  "leasing_ledger = example_ledger\<lparr>
     account_stats := [account_statistics_default\<lparr>owner := 256, core_balance := 900, core_leased_out := 70, core_leased_in := 5\<rparr>,
       account_statistics_default\<lparr>owner := 512, core_balance := 50, core_leased_out := 5, core_leased_in := 70\<rparr>],
     csaf_leases := [\<lparr>lease_id = 0, lease_from = 256, lease_to = 512, lease_amount = 70, lease_expiration = 1588204800\<rparr>,
       \<lparr>lease_id = 1, lease_from = 512, lease_to = 256, lease_amount = 5, lease_expiration = 1600000000\<rparr>],
     next_lease_id := 2\<rparr>"

lemma leasing_ledger_inv: "lease_inv leasing_ledger"
  by (simp add: lease_inv_def leases_wf_def books_def leased_out_def leased_in_def leasing_ledger_def account_statistics_default_def
      fits64_def int64_min_def int64_max_def)

definition example_lease :: csaf_lease_operation where
  "example_lease = \<lparr>cl_fee = plain_fee 0, cl_from = 512, cl_to = 256, cl_amount = mk_asset 25 0, cl_expiration = 1600000000\<rparr>"

definition example_leased :: "(operation_result \<times> ledger) result" where
  "example_leased = bindE (csaf_lease_evaluate int64_safe example_lease leasing_ledger) (\<lambda>ev. csaf_lease_apply int64_safe example_lease ev leasing_ledger)"

text \<open>
  C16. Leasing keeps the books: when a validated lease is evaluated and applied, what every account
  has leased out and in is again the sum of its leases, each of them positive and one per pair.
\<close>

theorem lease_keeps_books:
  assumes "safe_spec fc" "lease_inv st" "csaf_lease_validate fc sha op = Inr ()" "fits64 (amount (cl_amount op))"
    "csaf_lease_evaluate fc op st = Inr ev" "csaf_lease_apply fc op ev st = Inr (res, st')"
  shows "lease_inv st'"
proof -
  let ?cur = "find_lease (cl_from op) (cl_to op) st"
  have wf: "leases_wf st" and bk: "books (leased_out (csaf_leases st)) (leased_in (csaf_leases st)) (account_stats st)"
    using assms(2) by (simp_all add: lease_inv_def)
  have nn: "0 \<le> amount (cl_amount op)"
    using assms(3) by (auto simp: csaf_lease_validate_def validate_non_negative_core_asset_def validate_non_negative_amount_def bindE_eq_Inr fc_assert_eq_Inr)
  from assms(5) obtain s1 s2 where new: "?cur = None \<Longrightarrow> 0 < amount (cl_amount op)"
    and s: "get_account_statistics_by_uid (cl_from op) st = Inr s1" "get_account_statistics_by_uid (cl_to op) st = Inr s2"
    and ev: "fst ev = ?cur" "snd ev = amount (cl_amount op) \<and> ?cur = None \<or> (\<exists>l. ?cur = Some l \<and> ssub fc (amount (cl_amount op)) (lease_amount l) = Inr (snd ev))"
    unfolding csaf_lease_evaluate_def by (auto simp: bindE_eq_Inr fc_assert_eq_Inr split: option.splits)
  have d: "snd ev = lease_change op ?cur" "fits64 (snd ev)"
    using ev(2) assms(1,4) find_lease_facts(1) [OF wf] wf by (auto simp: lease_change_def ssub_eq_Inr leases_wf_def)
  obtain i t where t: "write_lease op ?cur st = (i, t)" by fastforce
  have w: "leases_wf t \<and> account_stats t = account_stats st"
    by (rule write_lease_wf [OF wf refl nn assms(4) new _ _ t]) (auto intro: get_stats_owner [OF s(1)] get_stats_owner [OF s(2)])
  note tot = write_lease_totals [OF wf refl nn t]
  have run: "(if snd ev \<noteq> 0 then bindE (add_leased_out fc (cl_from op) (snd ev) t) (add_leased_in fc (cl_to op) (snd ev)) else Inr t) = Inr st'"
    using assms(6) t ev(1) by (auto simp: csaf_lease_apply_def bindE_eq_Inr)
  show ?thesis
  proof (cases "snd ev = 0")
    case True
    then have "leased_out (csaf_leases t) = leased_out (csaf_leases st)" "leased_in (csaf_leases t) = leased_in (csaf_leases st)"
      using tot d(1) by (auto simp: fun_eq_iff)
    with True run w bk show ?thesis by (simp add: lease_inv_def)
  next
    case False
    with run obtain t1 where r: "add_leased_out fc (cl_from op) (snd ev) t = Inr t1" "add_leased_in fc (cl_to op) (snd ev) t1 = Inr st'"
      by (auto simp: bindE_eq_Inr)
    have b0: "books (leased_out (csaf_leases st)) (leased_in (csaf_leases st)) (account_stats t)" using bk w by simp
    note b1 = leased_books(1) [OF assms(1) b0 d(2) r(1)]
    note b2 = leased_books(2) [OF assms(1) conjunct2 [OF b1] d(2) r(2)]
    have o: "only_stats t st'" using b1 b2 only_stats_trans by blast
    then have ls: "csaf_leases st' = csaf_leases t" by (simp add: only_stats_def)
    have "leased_out (csaf_leases t) = (\<lambda>v. leased_out (csaf_leases st) v + (if v = cl_from op then snd ev else 0))"
      "leased_in (csaf_leases t) = (\<lambda>v. leased_in (csaf_leases st) v + (if v = cl_to op then snd ev else 0))"
      using tot d(1) by (auto simp: fun_eq_iff)
    with b2 w only_stats_leases [OF o] ls show ?thesis by (simp add: lease_inv_def)
  qed
qed

theorem lease_keeps_books_witness:
  "\<exists>r st'. example_leased = Inr (r, st') \<and> lease_inv st' \<and> map core_leased_out (account_stats st') = [70, 25]"
proof -
  have v: "csaf_lease_validate int64_safe (\<lambda>_. 0) example_lease = Inr ()" by code_simp
  have fits: "fits64 (amount (cl_amount example_lease))" by code_simp
  have "\<not> isl example_leased \<and> map core_leased_out (account_stats (snd (projr example_leased))) = [70, 25]" by code_simp
  then obtain r st' where r: "example_leased = Inr (r, st')" "map core_leased_out (account_stats st') = [70, 25]"
    by (metis prod.collapse sum.collapse(2))
  from r(1) obtain ev where "csaf_lease_evaluate int64_safe example_lease leasing_ledger = Inr ev" "csaf_lease_apply int64_safe example_lease ev leasing_ledger = Inr (r, st')"
    unfolding example_leased_def bindE_eq_Inr by blast
  from lease_keeps_books [OF int64_safe_spec leasing_ledger_inv v fits this] r show ?thesis by (intro exI [of _ r] exI [of _ st'] conjI)
qed

section \<open>Expiry\<close>

lemma end_lease_leases:
  assumes "safe_spec fc" "lease_inv st" "l \<in> set (csaf_leases st)" "end_lease fc l st = Inr st'"
  shows "lease_inv st' \<and> csaf_leases st' = row_remove lease_id (lease_id l) (csaf_leases st) \<and> voting st' = voting st"
proof -
  have wf: "leases_wf st" and bk: "books (leased_out (csaf_leases st)) (leased_in (csaf_leases st)) (account_stats st)"
    using assms(2) by (simp_all add: lease_inv_def)
  have f: "fits64 (lease_amount l)" using wf assms(3) by (simp add: leases_wf_def)
  from assms(4) obtain t u where r: "sub_leased_out fc (lease_from l) (lease_amount l) st = Inr t" "sub_leased_in fc (lease_to l) (lease_amount l) t = Inr u"
    and st': "st' = u\<lparr>csaf_leases := row_remove lease_id (lease_id l) (csaf_leases u)\<rparr>"
    by (auto simp: end_lease_def bindE_eq_Inr)
  note b1 = leased_books(3) [OF assms(1) bk f r(1)]
  note b2 = leased_books(4) [OF assms(1) conjunct2 [OF b1] f r(2)]
  have o: "only_stats st u" using b1 b2 only_stats_trans by blast
  have dist: "distinct (map lease_id (csaf_leases st))" "distinct (map lease_key (csaf_leases st))" using wf by (simp_all add: leases_wf_def)
  have ls: "csaf_leases st' = row_remove lease_id (lease_id l) (csaf_leases st)" using o by (simp add: st' only_stats_def)
  note tot = total_row_remove [OF dist(1) row_find_in [OF dist(1) assms(3)]]
  have "leased_out (csaf_leases st') = (\<lambda>v. leased_out (csaf_leases st) v + (if v = lease_from l then - lease_amount l else 0))"
    "leased_in (csaf_leases st') = (\<lambda>v. leased_in (csaf_leases st) v + (if v = lease_to l then - lease_amount l else 0))"
    using tot by (auto simp: fun_eq_iff ls leased_out_def leased_in_def)
  moreover have "leases_wf u" using wf only_stats_leases [OF o] by simp
  then have "leases_wf st'"
    using distinct_row_remove [of lease_id "csaf_leases u"] unfolding st' leases_wf_def by (auto simp: set_row_remove row_remove_def distinct_map_filter)
  ultimately show ?thesis using b2 ls o by (simp add: lease_inv_def st' only_stats_def)
qed

lemma leased_nonneg:
  assumes "leases_wf st" "l \<in> set (csaf_leases st)"
  shows "lease_amount l \<le> leased_out (csaf_leases st) (lease_from l)" "lease_amount l \<le> leased_in (csaf_leases st) (lease_to l)"
proof -
  have "(if lease_from l = lease_from l then lease_amount l else 0) \<le> leased_out (csaf_leases st) (lease_from l)"
    unfolding leased_out_def by (rule total_member_le) (use assms in \<open>auto simp: leases_wf_def\<close>)
  moreover have "(if lease_to l = lease_to l then lease_amount l else 0) \<le> leased_in (csaf_leases st) (lease_to l)"
    unfolding leased_in_def by (rule total_member_le) (use assms in \<open>auto simp: leases_wf_def\<close>)
  ultimately show "lease_amount l \<le> leased_out (csaf_leases st) (lease_from l)" "lease_amount l \<le> leased_in (csaf_leases st) (lease_to l)" by simp_all
qed

lemma get_stats_total: "u \<in> owner ` set (account_stats st) \<Longrightarrow> \<exists>s. get_account_statistics_by_uid u st = Inr s"
  using row_find_None [of owner u "account_stats st"] by (auto simp: get_stats_iff)

lemma fits64_diff: "0 \<le> x \<Longrightarrow> x \<le> y \<Longrightarrow> fits64 y \<Longrightarrow> fits64 (y - x)"
  by (simp add: fits64_def int64_min_def)

lemma end_lease_returns:
  assumes "safe_spec fc" "lease_inv st" "l \<in> set (csaf_leases st)" "enable_head_fork_05 \<le> ledger_fork st"
  shows "\<exists>st'. end_lease fc l st = Inr st'"
proof -
  have wf: "leases_wf st" and bk: "books (leased_out (csaf_leases st)) (leased_in (csaf_leases st)) (account_stats st)"
    using assms(2) by (simp_all add: lease_inv_def)
  have l: "lease_from l \<in> owner ` set (account_stats st)" "lease_to l \<in> owner ` set (account_stats st)" "0 < lease_amount l" "fits64 (lease_amount l)"
    using wf assms(3) by (auto simp: leases_wf_def)
  obtain s where s: "get_account_statistics_by_uid (lease_from l) st = Inr s" using get_stats_total [OF l(1)] by blast
  then have so: "core_leased_out s = leased_out (csaf_leases st) (lease_from l)" "fits64 (core_leased_out s)"
    using bk by (auto simp: get_stats_iff books_def dest!: row_find_Some)
  have "fits64 (core_leased_out s - lease_amount l)" using fits64_diff l(3) leased_nonneg(1) [OF wf assms(3)] so by simp
  then obtain t where t: "sub_leased_out fc (lease_from l) (lease_amount l) st = Inr t"
    using s so(2) l(4) assms(1,4) by (auto simp: sub_leased_out_def refresh_before_fork_def ssub_eq_Inr bindE_eq_Inr)
  note b1 = leased_books(3) [OF assms(1) bk l(4) t]
  have fork: "ledger_fork t = ledger_fork st" using b1 by (simp add: only_stats_def ledger_fork_def)
  have "owner ` set (account_stats t) = owner ` set (account_stats st)" using b1 by (metis list.set_map only_stats_def)
  then obtain s' where s': "get_account_statistics_by_uid (lease_to l) t = Inr s'" using get_stats_total [of "lease_to l" t] l(2) by auto
  then have si: "core_leased_in s' = leased_in (csaf_leases st) (lease_to l)" "fits64 (core_leased_in s')"
    using b1 by (auto simp: get_stats_iff books_def dest!: row_find_Some)
  have "fits64 (core_leased_in s' - lease_amount l)" using fits64_diff l(3) leased_nonneg(2) [OF wf assms(3)] si by simp
  then obtain u where "sub_leased_in fc (lease_to l) (lease_amount l) t = Inr u"
    using s' si(2) l(4) assms(1,4) fork by (auto simp: sub_leased_in_def refresh_before_fork_def ssub_eq_Inr bindE_eq_Inr)
  with t show ?thesis by (auto simp: end_lease_def bindE_eq_Inr)
qed

lemma first_lease_min:
  assumes "first_lease ls = Some l"
  shows "l \<in> set ls" "\<forall>x\<in>set ls. lease_expiration l \<le> lease_expiration x"
proof -
  from assms obtain rest where r: "sort_key (\<lambda>l. (lease_expiration l, lease_id l)) ls = l # rest"
    by (auto simp: first_lease_def split: list.splits)
  show "l \<in> set ls" by (rule sort_key_hd(1) [OF r])
  show "\<forall>x\<in>set ls. lease_expiration l \<le> lease_expiration x" using sort_key_hd(2) [OF r] by auto
qed

lemma expire_leases_all:
  assumes "safe_spec fc" "lease_inv st" "enable_head_fork_05 \<le> ledger_fork st \<or> (\<exists>st'. expire_leases n fc st = Inr st')" "length (csaf_leases st) \<le> n"
  shows "\<exists>st'. expire_leases n fc st = Inr st' \<and> lease_inv st' \<and>
    csaf_leases st' = filter (\<lambda>l. ledger_time st < lease_expiration l) (csaf_leases st)"
  using assms
proof (induction n arbitrary: st)
  case (Suc n)
  show ?case
  proof (cases "first_lease (csaf_leases st)")
    case None
    then have "sort_key (\<lambda>l. (lease_expiration l, lease_id l)) (csaf_leases st) = []" by (simp add: first_lease_def split: list.splits)
    then have "csaf_leases st = []" by (metis length_0_conv length_sort)
    with Suc.prems None show ?thesis by simp
  next
    case (Some l)
    note l = first_lease_min [OF Some]
    show ?thesis
    proof (cases "lease_expiration l \<le> ledger_time st")
      case True
      obtain t where t: "end_lease fc l st = Inr t"
        using Suc.prems(3) end_lease_returns [OF Suc.prems(1,2) l(1)] Some True by (auto simp: bindE_eq_Inr)
      note e = end_lease_leases [OF Suc.prems(1,2) l(1) t]
      have same: "ledger_fork t = ledger_fork st" "ledger_time t = ledger_time st" using e by (simp_all add: ledger_fork_def ledger_time_def)
      have "length (csaf_leases t) < length (csaf_leases st)" using e l(1) by (auto simp: row_remove_def intro: length_filter_less)
      then have "length (csaf_leases t) \<le> n" using Suc.prems(4) by simp
      moreover have "enable_head_fork_05 \<le> ledger_fork t \<or> (\<exists>st'. expire_leases n fc t = Inr st')" using Suc.prems(3) same Some True t by auto
      ultimately obtain st' where
        st': "expire_leases n fc t = Inr st'" "lease_inv st'" "csaf_leases st' = filter (\<lambda>l. ledger_time st < lease_expiration l) (csaf_leases t)"
        using Suc.IH [OF Suc.prems(1) conjunct1 [OF e]] same by auto
      have dist: "distinct (map lease_id (csaf_leases st))" using Suc.prems(2) by (simp add: lease_inv_def leases_wf_def)
      have "lease_id x \<noteq> lease_id l" if mem: "x \<in> set (csaf_leases st)" and due: "ledger_time st < lease_expiration x" for x
      proof
        assume "lease_id x = lease_id l"
        with mem l(1) dist have "x = l" by (auto simp: distinct_map dest: inj_onD)
        with True due show False by simp
      qed
      then have "filter (\<lambda>l. ledger_time st < lease_expiration l) (csaf_leases t) = filter (\<lambda>l. ledger_time st < lease_expiration l) (csaf_leases st)"
        using e True by (auto simp: row_remove_def intro!: filter_cong)
      with st' Some True t show ?thesis by simp
    next
      case False
      then have "filter (\<lambda>l. ledger_time st < lease_expiration l) (csaf_leases st) = csaf_leases st"
        using l(2) by (intro filter_True) (auto simp: not_le)
      with Some False Suc.prems show ?thesis by simp
    qed
  qed
qed simp

text \<open>
  C15. Clearing expired leases, on a ledger whose books are right: whenever the loop returns, it has
  ended exactly the leases that are due by the time of the head block, and the books stay right. From
  hard fork 0.5 on it always returns; before that fork every ended lease also brings the coin-seconds
  of its two accounts up to date, which may throw.
\<close>

theorem clear_expired_leases_exact:
  assumes "safe_spec fc" "lease_inv st"
  shows "(\<forall>st'. clear_expired_csaf_leases fc st = Inr st' \<longrightarrow> lease_inv st' \<and>
      csaf_leases st' = filter (\<lambda>l. ledger_time st < lease_expiration l) (csaf_leases st)) \<and>
    (enable_head_fork_05 \<le> ledger_fork st \<longrightarrow> (\<exists>st'. clear_expired_csaf_leases fc st = Inr st'))"
  unfolding clear_expired_csaf_leases_def using expire_leases_all [OF assms _ order_refl] by force

theorem clear_expired_leases_exact_witness:
  "\<exists>st'. clear_expired_csaf_leases int64_safe leasing_ledger = Inr st' \<and> lease_inv st' \<and> map lease_id (csaf_leases st') = [1]"
proof -
  have f: "enable_head_fork_05 \<le> ledger_fork leasing_ledger" by code_simp
  have m: "map lease_id (filter (\<lambda>l. ledger_time leasing_ledger < lease_expiration l) (csaf_leases leasing_ledger)) = [1]" by code_simp
  note c = clear_expired_leases_exact [OF int64_safe_spec leasing_ledger_inv]
  from c f obtain st' where "clear_expired_csaf_leases int64_safe leasing_ledger = Inr st'" by blast
  with c m show ?thesis by auto
qed

end
