(* ===== verification/Expiry_Correct.thy ===== *)
theory Expiry_Correct
  imports Supply_Correct
begin

text \<open>
  The loop that clears expired orders (\<open>clear_expired_limit_orders\<close> of db\_update.cpp): cancelling an
  order does not move the clock, every round removes one order, and so the number of orders is enough
  fuel. When the loop returns, the orders that are left are those that are not due.
\<close>

section \<open>The clock\<close>

abbreviation clock :: "voting_state \<Rightarrow> 32 word" where
  "clock st \<equiv> head_block_time (sched st)"

lemma clock_row:
  "adjust_witness_row d r st = Some st' \<Longrightarrow> clock st' = clock st"
  "adjust_platform_row d r st = Some st' \<Longrightarrow> clock st' = clock st"
  "adjust_committee_row d r st = Some st' \<Longrightarrow> clock st' = clock st"
  by (auto simp: adjust_witness_row_def adjust_platform_row_def adjust_committee_row_def adjust_witness_votes_def
      modify_witness_def adjust_platform_votes_def adjust_committee_member_votes_def split: option.splits if_splits)

lemma clock_rows:
  assumes "\<And>r s s'. adj r s = Some s' \<Longrightarrow> clock s' = clock s"
  shows "adjust_rows adj rs st = (st', stale) \<Longrightarrow> clock st' = clock st"
proof (induction rs arbitrary: st stale)
  case (Cons r rs)
  then show ?case using assms by (fastforce split: option.splits prod.splits)
qed simp

lemma clock_modify_voter [simp]: "clock (modify_voter k f st) = clock st"
  by (simp add: modify_voter_def)

lemma clock_adjust_rows:
  "adjust_rows (adjust_witness_row d) rs st = (st', stale) \<Longrightarrow> clock st' = clock st"
  "adjust_rows (adjust_platform_row d) rs st = (st', stale) \<Longrightarrow> clock st' = clock st"
  "adjust_rows (adjust_committee_row d) rs st = (st', stale) \<Longrightarrow> clock st' = clock st"
  by (erule clock_rows [rotated], erule clock_row)+

lemma clock_self_parts [simp]:
  "clock (adjust_voter_self_witness_votes v d st) = clock st"
  "clock (adjust_voter_self_platform_votes v d st) = clock st"
  "clock (adjust_voter_self_committee_member_votes v d st) = clock st"
  by (auto simp: adjust_voter_self_witness_votes_def adjust_voter_self_platform_votes_def
      adjust_voter_self_committee_member_votes_def Let_def split: prod.splits dest!: clock_adjust_rows)

lemma clock_self_votes [simp]: "clock (adjust_voter_self_votes v d st) = clock st"
  by (simp add: adjust_voter_self_votes_def)

lemma clock_climb: "climb n level d v st = Inr (v', st') \<Longrightarrow> clock st' = clock st"
  by (induction n level d v st rule: climb.induct) (auto simp: bindE_eq_Inr split: if_splits)

lemma clock_referral: "adjust_referral u d st = Inr st' \<Longrightarrow> clock st' = clock st"
  by (auto simp: adjust_referral_def bindE_eq_Inr adjust_platform_votes_def split: option.splits if_splits)

lemma clock_voter_votes: "adjust_voter_votes v d st = Inr st' \<Longrightarrow> clock st' = clock st"
  by (auto simp: adjust_voter_votes_def bindE_eq_Inr dest!: clock_climb clock_referral split: if_splits)

lemma clock_effective_votes: "update_voter_effective_votes fc v st = Inr st' \<Longrightarrow> clock st' = clock st"
  by (auto simp: update_voter_effective_votes_def Let_def bindE_eq_Inr dest!: clock_voter_votes split: if_splits)

lemma time_account_votes: "update_account_votes fc u st = Inr st' \<Longrightarrow> ledger_time st' = ledger_time st"
  by (auto simp: update_account_votes_def Let_def bindE_eq_Inr ledger_time_def dest!: clock_effective_votes split: if_splits)

lemma time_put_stats [simp]: "ledger_time (put_stats s st) = ledger_time st"
  by (simp add: put_stats_def ledger_time_def)

text \<open>A deposit does not move the clock.\<close>

lemma time_balance_row: "adjust_balance_row fc u d st = Inr st' \<Longrightarrow> ledger_time st' = ledger_time st"
  by (auto simp: adjust_balance_row_def bindE_eq_Inr fc_assert_eq_Inr ledger_time_def split: option.splits)

lemma time_core_deposit: "0 \<le> x \<Longrightarrow> adjust_core_balance fc u x st = Inr st' \<Longrightarrow> ledger_time st' = ledger_time st"
  by (auto simp: adjust_core_balance_def bindE_eq_Inr dest!: time_account_votes)

lemma time_deposit: "0 \<le> amount d \<Longrightarrow> adjust_balance fc u d st = Inr st' \<Longrightarrow> ledger_time st' = ledger_time st"
  by (auto simp: adjust_balance_def bindE_eq_Inr dest!: time_balance_row time_core_deposit split: if_splits)

section \<open>Cancelling\<close>

lemma cancel_removes:
  assumes "safe_spec fc" "ledger_wf st" "find_order (order_id ord) st = Some ord" "cancel_limit_order fc ord b st = Inr st'"
  shows "limit_orders st' = row_remove order_id (order_id ord) (limit_orders st)" "ledger_time st' = ledger_time st"
proof -
  let ?d = "amount_for_sale ord"
  have d: "fits64 (amount ?d)" "0 \<le> amount ?d"
    using find_order_wf(1) [OF assms(2,3)] by (simp_all add: amount_for_sale_def mk_asset_def order_wf_def)
  from assms(4) obtain s t where
    s: "(if asset_id ?d = core_asset_aid then sub_core_in_orders fc (seller ord) (amount ?d) st else Inr st) = Inr s"
    and t: "adjust_balance fc (seller ord) ?d s = Inr t"
    and st': "st' = remove_order (order_id ord) (if b then push_applied_operation (Limit_Order_Cancel_Op (order_id ord) (seller ord)) t else t)"
    by (auto simp: cancel_limit_order_def Let_def bindE_eq_Inr)
  have s1: "adds st s (\<lambda>_. 0) \<and> limit_orders s = limit_orders st"
    using s core_in_orders_adds(2) [OF assms(1,2) d(1)] adds_refl [OF assms(2)] by (auto split: if_splits)
  have "ledger_time s = ledger_time st" using s by (auto simp: sub_core_in_orders_def bindE_eq_Inr split: if_splits)
  with time_deposit [OF d(2) t] show "ledger_time st' = ledger_time st"
    by (simp add: st' remove_order_def push_applied_operation_def ledger_time_def)
  show "limit_orders st' = row_remove order_id (order_id ord) (limit_orders st)"
    using adjust_adds(2) [OF assms(1) adds_wf [OF conjunct1 [OF s1]] d(1) t] s1
    by (simp add: st' remove_order_def push_applied_operation_def)
qed

lemma expires_first_min:
  assumes "expires_first os = Some ord"
  shows "ord \<in> set os" "\<forall>x\<in>set os. expiration ord \<le> expiration x"
proof -
  from assms obtain rest where "sort_key (\<lambda>ord. (expiration ord, order_id ord)) os = ord # rest"
    by (auto simp: expires_first_def split: list.splits)
  note s = sort_key_hd [OF this]
  show "ord \<in> set os" by (rule s(1))
  show "\<forall>x\<in>set os. expiration ord \<le> expiration x" using s(2) by (auto simp: less_eq_prod_def)
qed

lemma expires_first_None:
  assumes "expires_first os = None"
  shows "os = []"
proof -
  from assms have "sort_key (\<lambda>ord. (expiration ord, order_id ord)) os = []" by (simp add: expires_first_def split: list.splits)
  then show ?thesis by (metis length_0_conv length_sort)
qed

lemma due_order_removed:
  assumes "distinct (map order_id os)" "ord \<in> set os" "expiration ord \<le> now"
  shows "filter (\<lambda>x. now < expiration x) (row_remove order_id (order_id ord) os) = filter (\<lambda>x. now < expiration x) os"
proof -
  have "order_id x \<noteq> order_id ord" if "x \<in> set os" "now < expiration x" for x
    using assms that by (auto simp: distinct_map dest: inj_onD)
  then show ?thesis unfolding row_remove_def filter_filter by (intro filter_cong) auto
qed

section \<open>The loop\<close>

lemma expire_orders_exact:
  assumes "safe_spec fc" "ledger_wf st" "length (limit_orders st) \<le> n" "expire_orders n fc st = Inr st'"
  shows "limit_orders st' = filter (\<lambda>ord. ledger_time st < expiration ord) (limit_orders st) \<and> ledger_time st' = ledger_time st"
  using assms
proof (induction n arbitrary: st)
  case (Suc n)
  show ?case
  proof (cases "expires_first (limit_orders st)")
    case None
    with Suc.prems expires_first_None [OF None] show ?thesis by simp
  next
    case (Some ord)
    note m = expires_first_min [OF Some]
    have dist: "distinct (map order_id (limit_orders st))" using Suc.prems(2) by (simp add: ledger_wf_def)
    show ?thesis
    proof (cases "expiration ord \<le> ledger_time st")
      case True
      with Some Suc.prems(4) obtain t where t: "cancel_limit_order fc ord True st = Inr t" "expire_orders n fc t = Inr st'"
        by (auto simp: bindE_eq_Inr)
      have f: "find_order (order_id ord) st = Some ord" using row_find_in [OF dist m(1)] by (simp add: find_order_def)
      note c = cancel_removes [OF Suc.prems(1,2) f t(1)]
      have wf: "ledger_wf t" using cancel_conserves [OF Suc.prems(1,2) f t(1)] adds_wf by blast
      have "length (limit_orders t) < length (limit_orders st)"
        unfolding c(1) row_remove_def using m(1) by (auto intro: length_filter_less)
      then have "length (limit_orders t) \<le> n" using Suc.prems(3) by simp
      from Suc.IH [OF Suc.prems(1) wf this t(2)] show ?thesis
        using due_order_removed [OF dist m(1) True] by (simp add: c)
    next
      case False
      then have "filter (\<lambda>x. ledger_time st < expiration x) (limit_orders st) = limit_orders st"
        using m(2) by (fastforce simp: filter_id_conv)
      with Some Suc.prems(4) False show ?thesis by simp
    qed
  qed
qed simp

lemma clear_expired_orders_exact:
  assumes "safe_spec fc" "ledger_wf st" "clear_expired_limit_orders fc st = Inr st'"
  shows "limit_orders st' = filter (\<lambda>ord. ledger_time st < expiration ord) (limit_orders st)"
  using expire_orders_exact [OF assms(1,2) order_refl] assms(3) by (simp add: clear_expired_limit_orders_def)

end
