(* ===== verification/Spec2Isabelle.thy ===== *)
theory Spec2Isabelle
  imports Undo_Correct Fork_Database Authority_Correct Member_Index Schedule_Correct Voting_Correct
    Chain_Correct Lease_Correct Expiry_Correct
begin

text \<open>
  A model of the consensus core of yoyow-core, a C++ node of a delegated chain, and proofs of what makes
  it correct. Paths are relative to src/libraries; C stands for chain and P for chain/protocol.

  \<^bold>\<open>The program and its parts.\<close> The database (db/) stores objects in indexes under 64-bit identifiers,
  and an undo log takes back what a session did. Blocks arrive in the fork database, which keeps the tree
  of recent blocks and finds where two branches meet. A transaction is accepted when its signatures meet
  the authorities its operations ask for. Each operation is validated, its fee is prepared and checked, its
  evaluator decides and then changes the state. Witnesses are elected by votes and pledges and take turns
  in slots; votes decay and pass along proxies. Accounts earn coin-seconds that pay for fees, may lease
  them, lock and pledge coins, and trade assets by limit orders.

  \<^bold>\<open>Conventions.\<close> A function of the source is a function that passes the state explicitly. An exception is
  the left side of a sum (\<open>chain_error\<close>), so each assertion of the source is a branch. Integers have their
  width as words where they wrap. The type share\_type is fc::safe<int64>, which is not in the repository:
  its arithmetic is the argument \<open>fc\<close> with the hypothesis \<open>safe_spec\<close> that results are exact or an error,
  and \<open>int64_safe\<close> is an instance. Hash functions, key recovery, base58, packed sizes and the fee schedule
  are arguments in the same way.

  \<^bold>\<open>Database.\<close> \<open>Object_Id\<close> (db/object\_id.hpp): the packed identifier and its text form round trip.
  \<open>Object_Index\<close> (simple\_index, generic\_index): the locale \<open>object_container\<close> states the laws of a container,
  interpreted on both. \<open>Undo_Database\<close> (undo\_database.cpp, object\_database.cpp) and \<open>Undo_Correct\<close>: whenever the
  undo of a session or \<open>pop_commit\<close> returns, every object and next identifier is restored, and it returns if no
  two of the objects involved clash in a unique key; merging drops exactly the inner snapshot. Undo fails when
  a new object took a unique key of a modified one, and after a modification that itself violated a unique
  key (\<open>db_modify_left\<close> is the database such a call leaves behind).

  \<^bold>\<open>Blocks.\<close> \<open>Block\<close> (P/block.cpp): the Merkle root is the root of the tree of transactions. \<open>Fork_Database\<close>
  (C/fork\_database.cpp): the invariant of the heap of items, the longest branch as head, and the two branches
  returned for two heads meet in one block.

  \<^bold>\<open>Accounts and authorities.\<close> \<open>Account_Uid\<close> (P/types.cpp), \<open>Authority\<close> (P/authority.hpp, P/transaction.cpp) and
  \<open>Authority_Correct\<close>: verification accepts only satisfied authorities, accepts all it should within its depth,
  and refuses unused signatures. \<open>Member_Index\<close>: the index from keys and accounts to accounts is exact.
  \<open>Asset\<close> (P/asset.cpp): order and conversion of prices with their rounding. \<open>Pledge_Balance\<close> and
  \<open>Account_Statistics\<close> (account\_object): pledges with delayed release, including the pending release that a full
  list overwrites, and coin-seconds.

  \<^bold>\<open>Witnesses and votes.\<close> \<open>Witness_Schedule\<close>, \<open>Schedule_Correct\<close> (C/db\_witness\_schedule.cpp): who is elected,
  that a shuffle gives every witness a slot, and slot times. \<open>Voting\<close>, \<open>Voting_Correct\<close> (C/db\_voter.cpp): the
  votes of a witness are the sum over its voters.

  \<^bold>\<open>Ledger.\<close> \<open>Tables\<close> (rows by key), \<open>Ledger\<close> (C/db\_balance.cpp, C/is\_authorized\_asset.cpp, asset\_object.hpp),
  \<open>Fees\<close> (C/evaluator.cpp, P/operations.cpp), \<open>Market\<close> (C/db\_market.cpp, C/market\_evaluator.cpp), \<open>Asset_Ops\<close>
  (C/asset\_evaluator.cpp, P/asset\_ops.cpp), \<open>Csaf_Ops\<close> (C/csaf\_evaluator.cpp, C/balance\_lock\_evaluator.cpp, the
  bonus part of C/pledge\_mining\_evaluator.cpp), \<open>Transfer_Ops\<close> (C/transfer\_evaluator.cpp) and \<open>Operations\<close>, which
  dispatches fourteen operations as C/db\_block.cpp does and defines the steps of the ledger. \<open>Ledger_Correct\<close>
  has the invariant and the locale \<open>asset_store\<close>, interpreted on \<open>adjust_balance\<close>; \<open>Market_Correct\<close> and
  \<open>Supply_Correct\<close> treat each operation. \<open>Chain_Correct\<close> concludes that along every run holdings move with the
  supply and the ledger keeps its type. \<open>Lease_Correct\<close> and \<open>Expiry_Correct\<close> treat leases and the two expiries.

  \<^bold>\<open>Bounds and fuel.\<close> The walks of the fork database have one more than the number of items as fuel, and
  \<open>fetch_branch_from_terminates\<close> shows that it is enough. The expiry loops have the number of rows as fuel:
  each round removes a row, and \<open>clear_expired_leases_exact\<close> and \<open>clear_expired_orders_exact\<close> show that no row
  that is due is left when the loop returns. For leases it is also shown to return, from hard fork 0.5 on;
  before it the update of coin-seconds, and for orders the refund, may raise an error. The climb along proxies is bounded by the source's
  own limit on levels, the authority check by its limit on depth.

  \<^bold>\<open>What the run theorems assume.\<close> Steps are validated operations whose amounts fit in 64 bits, as they do
  when read from a packed transaction, and the two expiries. Other writers of balances, such as content awards
  and the pay of witnesses, are not steps; \<open>deposit_witness_pay\<close> is modelled but is not part of a run. The flag
  that skips the fee is off, since nothing sets it. Signatures and the required fee of a step are arbitrary.

  \<^bold>\<open>Not modelled.\<close> Applying and producing whole blocks, which needs every evaluator; the operations on
  accounts, witnesses, committee, content, platforms, advertising, custom votes and proposals, and the
  maintenance that goes with them, each over its own objects; pledging to a witness; the overload of
  \<open>pay_market_fees\<close> that nothing calls; the text form of amounts in asset\_object.cpp. Contracts run on a vendored
  WebAssembly engine. Files, network, remote calls, wallet, plugins and programs are input and output.
\<close>

end
